(* ===== verification/Prelude.thy ===== *)
theory Prelude
  imports Main "HOL-Library.Word" "HOL-Library.Monad_Syntax"
begin

unbundle bit_operations_syntax

text \<open>
  Shared vocabulary of the KluxOS development: the fixed-width integers of
  \<^verbatim>\<open>include/kernel/types.h\<close>, C arrays with checked accesses, NUL-terminated strings,
  and the counting loops that the components share. A C operation whose behaviour is
  undefined (an access outside an array, a dereference of a pointer to no object) is the
  value \<^const>\<open>None\<close> of an option, and so is a loop or a recursion that does not return.
\<close>

section \<open>Machine integers\<close>

type_synonym u8 = "8 word"
type_synonym u16 = "16 word"
type_synonym u32 = "32 word"
type_synonym u64 = "64 word"

text \<open>Facts about array bounds and element counts, used as a simp set.\<close>
named_theorems array_simps

text \<open>The well-formedness facts of the components: every operation keeps its invariant.\<close>
named_theorems invariants

section \<open>C arrays\<close>

definition arr_get :: "'a list \<Rightarrow> nat \<Rightarrow> 'a option" where
  "arr_get xs i = (if i < length xs then Some (xs ! i) else None)"

definition arr_set :: "'a list \<Rightarrow> nat \<Rightarrow> 'a \<Rightarrow> 'a list option" where
  "arr_set xs i v = (if i < length xs then Some (xs[i := v]) else None)"

lemma arr_get_Some [array_simps]: "arr_get xs i = Some v \<longleftrightarrow> i < length xs \<and> v = xs ! i"
  by (auto simp: arr_get_def)

lemma arr_set_Some [array_simps]: "arr_set xs i v = Some ys \<longleftrightarrow> i < length xs \<and> ys = xs[i := v]"
  by (auto simp: arr_set_def)

lemma arr_get_in [simp]: "i < length xs \<Longrightarrow> arr_get xs i = Some (xs ! i)"
  by (simp add: arr_get_def)

lemma arr_set_in [simp]: "i < length xs \<Longrightarrow> arr_set xs i v = Some (xs[i := v])"
  by (simp add: arr_set_def)

lemma arr_set_out [simp]: "length xs \<le> i \<Longrightarrow> arr_set xs i v = None"
  by (simp add: arr_set_def)

text \<open>
  A loop \<^verbatim>\<open>for (i = 0; i < n; i++) a[i] = g(i, a[i]);\<close> is a fold over \<open>[0..<n]\<close>; it
  rewrites the first \<open>n\<close> cells and leaves the rest alone.
\<close>

lemma fold_upd_length [simp]: "length (fold (\<lambda>i ys. ys[i := g i ys]) is xs) = length xs"
  by (induction "is" arbitrary: xs) auto

lemma fold_upd_self:
  assumes "n \<le> length xs"
  shows "fold (\<lambda>i ys. ys[i := g i (ys ! i)]) [0..<n] xs
    = map (\<lambda>i. g i (xs ! i)) [0..<n] @ drop n xs"
  using assms
proof (induction n)
  case 0
  then show ?case by simp
next
  case (Suc n)
  then have "drop n xs = xs ! n # drop (Suc n) xs"
    by (simp add: Cons_nth_drop_Suc)
  with Suc show ?case
    by (simp add: list_update_append nth_append)
qed

lemma fold_upd_const:
  "n \<le> length xs \<Longrightarrow> fold (\<lambda>i ys. ys[i := g i]) [0..<n] xs = map g [0..<n] @ drop n xs"
  using fold_upd_self [of n xs "\<lambda>i _. g i"] by simp

lemma upt_all_nth [simp]: "map ((!) xs) [0..<length xs] = xs"
  by (rule map_nth)

section \<open>NUL-terminated strings\<close>

abbreviation NUL :: char where
  "NUL \<equiv> CHR 0x00"

text \<open>
  A C string is the list of its characters without the terminator; reading it at its length
  yields the terminator. A \<^verbatim>\<open>char\<close> array holds one string, up to its first NUL.
\<close>

definition cchar :: "string \<Rightarrow> nat \<Rightarrow> char" where
  "cchar s i = (if i < length s then s ! i else NUL)"

definition cstr :: "char list \<Rightarrow> string" where
  "cstr buf = takeWhile (\<lambda>c. c \<noteq> NUL) buf"

text \<open>
  The copy loop of \<^verbatim>\<open>fs_create_node\<close>, \<^verbatim>\<open>process_create\<close>, \<^verbatim>\<open>audit_log\<close> and the shell's
  \<^verbatim>\<open>str_copy\<close>:
  \<^verbatim>\<open>for (i = 0; src[i] != '\0' && i < n; i++) dst[i] = src[i]; dst[i] = '\0';\<close>
\<close>

function copy_cstr_from :: "nat \<Rightarrow> nat \<Rightarrow> string \<Rightarrow> char list \<Rightarrow> char list option" where
  "copy_cstr_from i n src dst =
     (if cchar src i \<noteq> NUL \<and> i < n
      then arr_set dst i (cchar src i) \<bind> copy_cstr_from (Suc i) n src
      else arr_set dst i NUL)"
  by pat_completeness auto
termination
  by (relation "measure (\<lambda>(i, n, src, dst). n - i)") auto

declare copy_cstr_from.simps [simp del]

definition copy_cstr :: "nat \<Rightarrow> string \<Rightarrow> char list \<Rightarrow> char list option" where
  "copy_cstr n src dst = copy_cstr_from 0 n src dst"

lemma cchar_simps [simp]:
  "i < length s \<Longrightarrow> cchar s i = s ! i"
  "length s \<le> i \<Longrightarrow> cchar s i = NUL"
  by (simp_all add: cchar_def)

lemma cchar_NUL_iff: "NUL \<notin> set s \<Longrightarrow> cchar s i = NUL \<longleftrightarrow> length s \<le> i"
  by (auto simp: cchar_def not_less) (metis nth_mem)

lemma cstr_ends [simp]: "NUL \<notin> set s \<Longrightarrow> cstr (s @ NUL # rest) = s"
  by (simp add: cstr_def takeWhile_tail takeWhile_eq_all_conv) (metis append_Nil2 takeWhile_append2 takeWhile_tail)

lemma cstr_id: "NUL \<notin> set s \<Longrightarrow> cstr s = s"
  unfolding cstr_def by (subst takeWhile_eq_all_conv) auto

lemma cstr_no_NUL [simp]: "NUL \<notin> set (cstr s)"
  by (auto simp: cstr_def dest: set_takeWhileD)

lemma copy_cstr_from_eq:
  assumes "NUL \<notin> set src" "n < length dst" "i \<le> n" "i \<le> length src"
    "take i dst = take i src"
  shows "copy_cstr_from i n src dst
    = Some (take n src @ NUL # drop (Suc (min n (length src))) dst)"
  using assms
proof (induction i n src dst rule: copy_cstr_from.induct)
  case (1 i n src dst)
  show ?case
  proof (cases "i < length src \<and> i < n")
    case True
    then have c: "cchar src i \<noteq> NUL" using "1.prems"(1) cchar_NUL_iff [of src i] by linarith
    from True "1.prems" have upd: "take (Suc i) (dst[i := src ! i]) = take (Suc i) src"
      by (simp add: take_Suc_conv_app_nth)
    from True "1.prems" have set: "arr_set dst i (cchar src i) = Some (dst[i := src ! i])"
      by simp
    have "copy_cstr_from (Suc i) n src (dst[i := src ! i])
        = Some (take n src @ NUL # drop (Suc (min n (length src))) (dst[i := src ! i]))"
      using c True "1.prems" set upd by (intro "1.IH") auto
    moreover have "i < Suc (min n (length src))" using True by linarith
    ultimately show ?thesis using True c set
      by (subst copy_cstr_from.simps) (simp add: drop_update_cancel del: cchar_simps)
  next
    case False
    with "1.prems" have stop: "\<not> (cchar src i \<noteq> NUL \<and> i < n)" and i: "i = min n (length src)"
      by (auto simp: cchar_NUL_iff)
    with "1.prems" have "dst[i := NUL] = take i src @ NUL # drop (Suc i) dst"
      by (simp add: upd_conv_take_nth_drop)
    moreover have "take i src = take n src" using i by (simp add: min_def)
    moreover have "copy_cstr_from i n src dst = arr_set dst i NUL"
      using stop by (subst copy_cstr_from.simps) (rule if_not_P)
    ultimately show ?thesis using i "1.prems" by simp
  qed
qed

lemma copy_cstr_eq:
  "NUL \<notin> set src \<Longrightarrow> n < length dst \<Longrightarrow>
    copy_cstr n src dst = Some (take n src @ NUL # drop (Suc (min n (length src))) dst)"
  unfolding copy_cstr_def by (rule copy_cstr_from_eq) auto

lemma copy_cstr_cstr:
  assumes "NUL \<notin> set src" "n < length dst"
  shows "\<exists>buf. copy_cstr n src dst = Some buf \<and> length buf = length dst \<and> cstr buf = take n src"
proof -
  have "NUL \<notin> set (take n src)" using assms(1) by (meson in_set_takeD)
  then show ?thesis using assms by (auto simp: copy_cstr_eq)
qed

section \<open>Decimal digits\<close>

text \<open>The decimal representation, most significant digit first.\<close>

definition digit :: "nat \<Rightarrow> char" where
  "digit d = char_of (48 + d)"

fun dec_str :: "nat \<Rightarrow> string" where
  "dec_str n = (if n < 10 then [digit n] else dec_str (n div 10) @ [digit (n mod 10)])"

declare dec_str.simps [simp del]

text \<open>
  The conversion that \<^verbatim>\<open>isr_handler\<close> and \<^verbatim>\<open>security_audit_log\<close> share: a do-while loop stores the
  digits in reverse, a NUL follows, and a second loop reverses the digits in place.
  \<^verbatim>\<open>do { s[i++] = n % 10 + '0'; n /= 10; } while (n > 0); s[i] = '\0';\<close>
\<close>

function put_digits :: "char list \<Rightarrow> nat \<Rightarrow> nat \<Rightarrow> (char list \<times> nat) option" where
  "put_digits buf i n =
     arr_set buf i (digit (n mod 10)) \<bind>
       (\<lambda>b. if 0 < n div 10 then put_digits b (Suc i) (n div 10) else Some (b, Suc i))"
  by pat_completeness auto
termination
  by (relation "measure (\<lambda>(buf, i, n). n)") auto

declare put_digits.simps [simp del]

definition swap_cells :: "nat \<Rightarrow> nat \<Rightarrow> 'a list \<Rightarrow> 'a list" where
  "swap_cells a b xs = xs[a := xs ! b, b := xs ! a]"

definition reverse_prefix :: "nat \<Rightarrow> 'a list \<Rightarrow> 'a list" where
  "reverse_prefix n xs = fold (\<lambda>j ys. swap_cells j (n - Suc j) ys) [0..<n div 2] xs"

definition itoa_buf :: "nat \<Rightarrow> nat \<Rightarrow> string option" where
  "itoa_buf cap n = do {
     (buf, i) \<leftarrow> put_digits (replicate cap NUL) 0 n;
     buf \<leftarrow> arr_set buf i NUL;
     Some (cstr (reverse_prefix i buf))
   }"

lemma digit_not_NUL: "d < 10 \<Longrightarrow> digit d \<noteq> NUL"
proof
  assume "d < 10" "digit d = NUL"
  then have "of_char (digit d) = (0 :: nat)" by simp
  then show False using \<open>d < 10\<close> by (simp add: digit_def)
qed

lemma dec_str_no_NUL: "NUL \<notin> set (dec_str n)"
proof (induction n rule: dec_str.induct)
  case (1 n)
  then show ?case
    using digit_not_NUL [of n] digit_not_NUL [of "n mod 10"]
    by (subst dec_str.simps) (auto split: if_splits dest!: sym [of NUL])
qed

lemma dec_str_nonempty: "dec_str n \<noteq> []"
  by (subst dec_str.simps) simp

lemma put_digits_eq:
  "put_digits buf i n =
    (if i + length (dec_str n) \<le> length buf
     then Some (take i buf @ rev (dec_str n) @ drop (i + length (dec_str n)) buf,
       i + length (dec_str n))
     else None)"
proof (induction buf i n rule: put_digits.induct)
  case (1 buf i n)
  show ?case
  proof (cases "i < length buf")
    case False
    then show ?thesis
      using dec_str_nonempty [of n]
      by (cases "dec_str n") (simp_all add: put_digits.simps [of buf i n])
  next
    case True
    let ?b = "buf[i := digit (n mod 10)]"
    have take: "take (Suc i) ?b = take i buf @ [digit (n mod 10)]"
      using True by (simp add: take_Suc_conv_app_nth)
    show ?thesis
    proof (cases "n < 10")
      case True
      with \<open>i < length buf\<close> show ?thesis
        by (subst put_digits.simps, subst (1 2 3 4) dec_str.simps)
          (simp add: upd_conv_take_nth_drop)
    next
      case False
      then have d: "dec_str n = dec_str (n div 10) @ [digit (n mod 10)]"
        by (subst dec_str.simps) simp
      have "put_digits buf i n = put_digits ?b (Suc i) (n div 10)"
        using True False by (subst put_digits.simps) (simp add: div_greater_zero_iff)
      with "1.IH" [of ?b] True False show ?thesis
        by (simp add: d take drop_update_cancel)
    qed
  qed
qed

lemma length_reverse_steps:
  "length (fold (\<lambda>j ys. swap_cells j (n - Suc j) ys) is xs) = length xs"
  by (induction "is" arbitrary: xs) (auto simp: swap_cells_def)

lemma nth_swap_cells:
  "a < length xs \<Longrightarrow> b < length xs \<Longrightarrow>
    swap_cells a b xs ! m = (if m = a then xs ! b else if m = b then xs ! a else xs ! m)"
  by (auto simp: swap_cells_def nth_list_update)

lemma nth_reverse_steps:
  assumes "n \<le> length xs" "k \<le> n div 2" "m < length xs"
  shows "fold (\<lambda>j ys. swap_cells j (n - Suc j) ys) [0..<k] xs ! m
    = (if m < k \<or> (n - k \<le> m \<and> m < n) then xs ! (n - Suc m) else xs ! m)"
  using assms
proof (induction k arbitrary: m)
  case 0
  then show ?case by auto
next
  case (Suc k)
  let ?ys = "fold (\<lambda>j ys. swap_cells j (n - Suc j) ys) [0..<k] xs"
  have k: "k < n - Suc k" "n - Suc k < length xs" using Suc.prems by auto
  have IH: "?ys ! l = (if l < k \<or> (n - k \<le> l \<and> l < n) then xs ! (n - Suc l) else xs ! l)"
    if "l < length xs" for l
    using Suc.IH [of l] Suc.prems that by simp
  have "fold (\<lambda>j ys. swap_cells j (n - Suc j) ys) [0..<Suc k] xs ! m
      = (if m = k then ?ys ! (n - Suc k) else if m = n - Suc k then ?ys ! k else ?ys ! m)"
    using k by (simp add: nth_swap_cells length_reverse_steps)
  then show ?case
    using IH [of m] IH [of k] IH [of "n - Suc k"] k Suc.prems by auto
qed

lemma reverse_prefix_eq:
  assumes "n \<le> length xs"
  shows "reverse_prefix n xs = rev (take n xs) @ drop n xs"
proof (rule nth_equalityI)
  show "length (reverse_prefix n xs) = length (rev (take n xs) @ drop n xs)"
    using assms by (simp add: reverse_prefix_def length_reverse_steps)
next
  fix m
  assume "m < length (reverse_prefix n xs)"
  then have m: "m < length xs" by (simp add: reverse_prefix_def length_reverse_steps)
  have mid: "n - Suc m = m" if "\<not> m < n div 2" "\<not> n - n div 2 \<le> m" "m < n"
    using that by arith
  have "reverse_prefix n xs ! m = (if m < n then xs ! (n - Suc m) else xs ! m)"
    using nth_reverse_steps [OF assms _ m, of "n div 2"] mid
    by (auto simp: reverse_prefix_def)
  then show "reverse_prefix n xs ! m = (rev (take n xs) @ drop n xs) ! m"
    using assms m by (simp add: nth_append rev_nth min_def)
qed

theorem itoa_buf_eq:
  "itoa_buf cap n = (if length (dec_str n) < cap then Some (dec_str n) else None)"
proof (cases "length (dec_str n) < cap")
  case True
  let ?l = "length (dec_str n)"
  from True have "put_digits (replicate cap NUL) 0 n
      = Some (rev (dec_str n) @ replicate (cap - ?l) NUL, ?l)"
    by (simp add: put_digits_eq)
  moreover have "(rev (dec_str n) @ replicate (cap - ?l) NUL)[?l := NUL]
      = rev (dec_str n) @ NUL # replicate (cap - Suc ?l) NUL"
  proof -
    from True have "replicate (cap - ?l) NUL = NUL # replicate (cap - Suc ?l) NUL"
      by (metis Suc_diff_Suc replicate_Suc)
    then show ?thesis by (simp add: list_update_append)
  qed
  ultimately show ?thesis
    using True dec_str_no_NUL [of n] by (simp add: itoa_buf_def reverse_prefix_eq)
next
  case False
  then show ?thesis by (auto simp: itoa_buf_def put_digits_eq)
qed

lemma length_dec_str: "0 < k \<Longrightarrow> n < 10 ^ k \<Longrightarrow> length (dec_str n) \<le> k"
proof (induction k arbitrary: n)
  case 0
  then show ?case by simp
next
  case (Suc k)
  show ?case
  proof (cases "n < 10")
    case True
    then show ?thesis by (subst dec_str.simps) simp
  next
    case False
    with Suc.prems have "0 < k" by (cases k) auto
    with Suc have "length (dec_str (n div 10)) \<le> k" by (simp add: div_less_iff_less_mult)
    with False show ?thesis by (subst dec_str.simps) simp
  qed
qed

lemma length_dec_str_ge: "10 ^ k \<le> n \<Longrightarrow> Suc k \<le> length (dec_str n)"
proof (induction k arbitrary: n)
  case 0
  then show ?case using dec_str_nonempty [of n] by (cases "dec_str n") auto
next
  case (Suc k)
  then have "10 ^ k \<le> n div 10" by (simp add: less_eq_div_iff_mult_less_eq mult.commute)
  then have "Suc k \<le> length (dec_str (n div 10))" by (rule Suc.IH)
  moreover have "10 \<le> (10 :: nat) ^ Suc k" by simp
  then have "\<not> n < 10" using Suc.prems by linarith
  ultimately show ?case by (subst dec_str.simps) simp
qed

section \<open>Sets kept as bits\<close>

text \<open>
  The contract of a set of numbers kept in the bits of words: the frame bitmap of the memory
  manager and the interrupt masks of the PIC. Operations take a value of which \<open>key\<close> is the
  element, such as an address in the frame.
\<close>

locale bit_set =
  fixes key :: "'a \<Rightarrow> 'i"
    and ins :: "'a \<Rightarrow> 's \<Rightarrow> 's"
    and del :: "'a \<Rightarrow> 's \<Rightarrow> 's"
    and mem :: "'i \<Rightarrow> 's \<Rightarrow> bool"
  assumes mem_ins: "mem f (ins a s) \<longleftrightarrow> f = key a \<or> mem f s"
    and mem_del: "mem f (del a s) \<longleftrightarrow> f \<noteq> key a \<and> mem f s"
begin

lemma mem_fold_ins: "mem f (fold ins as s) \<longleftrightarrow> f \<in> key ` set as \<or> mem f s"
  by (induction as arbitrary: s) (auto simp: mem_ins)

lemma mem_fold_del: "mem f (fold del as s) \<longleftrightarrow> f \<notin> key ` set as \<and> mem f s"
  by (induction as arbitrary: s) (auto simp: mem_del)

lemma del_ins: "key a = key b \<Longrightarrow> \<not> mem (key a) s \<Longrightarrow> mem f (del b (ins a s)) = mem f s"
  by (auto simp: mem_ins mem_del)

end

section \<open>Small facts about lists and words\<close>

lemma find_map: "find P (map f xs) = map_option f (find (P \<circ> f) xs)"
  by (induction xs) auto

lemma find_append: "find P (xs @ ys) = (case find P xs of None \<Rightarrow> find P ys | Some x \<Rightarrow> Some x)"
  by (induction xs) auto

lemma upt_blocks: "k < m \<Longrightarrow> [b * k..<b * m] = map (\<lambda>j. b * k + j) [0..<b] @ [b * Suc k..<b * m]"
proof -
  assume "k < m"
  then have "b * Suc k \<le> b * m" by (intro mult_le_mono2) simp
  then have "[b * k..<b * m] = [b * k..<b * Suc k] @ [b * Suc k..<b * m]"
    by (metis le_add2 le_add_diff_inverse mult_Suc_right upt_add_eq_append)
  moreover have "[b * k..<b * Suc k] = map (\<lambda>j. b * k + j) [0..<b]"
    by (simp add: add.commute flip: map_add_upt)
  ultimately show ?thesis by simp
qed

lemma find_SomeD: "find P xs = Some x \<Longrightarrow> P x \<and> x \<in> set xs"
  by (auto simp: find_Some_iff)

lemma find_upt_least:
  assumes "find P [m..<n] = Some x"
  shows "P x \<and> m \<le> x \<and> x < n \<and> (\<forall>y. m \<le> y \<and> y < x \<longrightarrow> \<not> P y)"
proof -
  from assms obtain i where i: "i < n - m" "P (m + i)" "x = m + i" "\<forall>j<i. \<not> P (m + j)"
    by (auto simp: find_Some_iff)
  then have "\<not> P y" if "m \<le> y" "y < x" for y
    using that by (metis add_diff_inverse_nat add_less_cancel_left not_le)
  with i show ?thesis by auto
qed

lemma find_upt_None: "find P [m..<n] = None \<longleftrightarrow> (\<forall>y. m \<le> y \<and> y < n \<longrightarrow> \<not> P y)"
  by (auto simp: find_None_iff)

lemma unat_less32: "unat (x :: u32) < 2 ^ 32"
proof -
  have "unat x < 2 ^ LENGTH(32)" by (rule unsigned_less)
  then show ?thesis by simp
qed

lemma unat_of_nat32: "n < 2 ^ 32 \<Longrightarrow> unat (of_nat n :: u32) = n"
  by (simp add: unat_of_nat take_bit_nat_eq_self)

text \<open>The sign of an \<^verbatim>\<open>int\<close> is its top bit.\<close>

lemma sless_zero_iff: "(x :: u32) <s 0 \<longleftrightarrow> 2 ^ 31 \<le> unat x"
proof -
  have "x <s 0 \<longleftrightarrow> bit x 31"
    using bit_last_iff [of x] by (simp add: word_sless_alt)
  also have "\<dots> \<longleftrightarrow> bit (unat x) 31" by (simp add: bit_unsigned_iff)
  also have "\<dots> \<longleftrightarrow> odd (unat x div 2 ^ 31)" by (rule bit_iff_odd)
  also have "\<dots> \<longleftrightarrow> 2 ^ 31 \<le> unat x"
  proof -
    have "unat x div 2 ^ 31 < 2" using unat_less32 [of x] by (simp add: div_less_iff_less_mult)
    then have "unat x div 2 ^ 31 = 0 \<or> unat x div 2 ^ 31 = 1" by linarith
    then show ?thesis by (auto simp: div_eq_0_iff)
  qed
  finally show ?thesis .
qed

lemma sle_zero_iff: "(x :: u32) <=s 0 \<longleftrightarrow> x = 0 \<or> 2 ^ 31 \<le> unat x"
  using sless_zero_iff [of x] by (auto simp: signed.le_less)

lemma sint_cases: "sint (v :: u32) = (if v <s 0 then int (unat v) - 2 ^ 32 else int (unat v))"
proof -
  have r: "- (2 ^ 31) \<le> sint v" "sint v < 2 ^ 31"
    using sint_greater_eq [of v] sint_less [of v] by simp_all
  have "int (unat v) = sint v mod 2 ^ 32"
    using uint_sint [of v] by (simp add: take_bit_eq_mod)
  moreover have "sint v mod 2 ^ 32 = (if sint v < 0 then sint v + 2 ^ 32 else sint v)"
  proof (cases "sint v < 0")
    case True
    then have "sint v mod 2 ^ 32 = (sint v + 2 ^ 32) mod 2 ^ 32" by simp
    also have "\<dots> = sint v + 2 ^ 32" using True r by (intro mod_pos_pos_trivial) auto
    finally show ?thesis using True by simp
  qed (use r in simp)
  ultimately show ?thesis by (simp add: word_sless_alt)
qed

section \<open>Repeating an operation\<close>

primrec iter_opt :: "nat \<Rightarrow> ('s \<Rightarrow> 's option) \<Rightarrow> 's \<Rightarrow> 's option" where
  "iter_opt 0 f s = Some s"
| "iter_opt (Suc k) f s = f s \<bind> iter_opt k f"

lemma iter_opt_add: "iter_opt (m + n) f s = iter_opt m f s \<bind> iter_opt n f"
  by (induction m arbitrary: s) (auto split: bind_splits)

primrec fold_opt :: "('a \<Rightarrow> 's \<Rightarrow> 's option) \<Rightarrow> 'a list \<Rightarrow> 's \<Rightarrow> 's option" where
  "fold_opt f [] s = Some s"
| "fold_opt f (x # xs) s = f x s \<bind> fold_opt f xs"

lemma fold_opt_append: "fold_opt f (xs @ ys) s = fold_opt f xs s \<bind> fold_opt f ys"
  by (induction xs arbitrary: s) (auto split: bind_splits)

lemma fold_opt_map: "fold_opt f (map g xs) s = fold_opt (f \<circ> g) xs s"
  by (induction xs arbitrary: s) (auto split: bind_splits)

text \<open>
  The contract of a driver that takes events one at a time: from a state in which \<open>ok\<close> holds every
  event is handled, \<open>ok\<close> holds again, and on the view \<open>abs\<close> the event acts as the total step \<open>spec\<close>.
  \<open>fresh\<close> is what any event establishes, such as a device register that shows the new state.
\<close>

locale simulation =
  fixes step :: "'e \<Rightarrow> 's \<Rightarrow> 's option"
    and ok :: "'s \<Rightarrow> bool"
    and abs :: "'s \<Rightarrow> 'a"
    and spec :: "'e \<Rightarrow> 'a \<Rightarrow> 'a"
    and fresh :: "'s \<Rightarrow> bool"
  assumes step_sim: "ok s \<Longrightarrow> \<exists>t. step e s = Some t \<and> ok t \<and> abs t = spec e (abs s) \<and> fresh t"
begin

lemma run_sim:
  "ok s \<Longrightarrow> \<exists>t. fold_opt step es s = Some t \<and> ok t \<and> abs t = fold spec es (abs s) \<and> (es \<noteq> [] \<longrightarrow> fresh t)"
proof (induction es arbitrary: s)
  case (Cons e es)
  obtain u where u: "step e s = Some u" "ok u" "abs u = spec e (abs s)" "fresh u"
    using step_sim [OF Cons.prems] by blast
  with Cons.IH [OF u(2)] show ?case by (cases es) auto
qed simp

lemma repeat_sim:
  "ok s \<Longrightarrow> \<exists>t. iter_opt k (step e) s = Some t \<and> ok t \<and> abs t = (spec e ^^ k) (abs s)"
proof (induction k arbitrary: s)
  case (Suc k)
  obtain u where "step e s = Some u" "ok u" "abs u = spec e (abs s)"
    using step_sim [OF Suc.prems] by blast
  with Suc.IH [of u] show ?case by (simp add: funpow_swap1)
qed simp

end

lemma iter_opt_cong [fundef_cong]:
  "k = k' \<Longrightarrow> s = s' \<Longrightarrow> (\<And>x. f x = g x) \<Longrightarrow> iter_opt k f s = iter_opt k' g s'"
  by (metis ext)

end
