(* ===== verification/Console.thy ===== *)
theory Console
  imports Prelude
begin

text \<open>
  What the kernel writes to its terminal, as the other components see it: the sequence of
  calls of the terminal interface of \<^verbatim>\<open>include/drivers/terminal.h\<close>. Every component's
  state record extends \<^verbatim>\<open>console\<close>, whose only field is that sequence, so an operation of
  the model records each message the code prints, in the code's order. The theory of the
  terminal driver gives the calls their effect on the screen.
\<close>

text \<open>\<^verbatim>\<open>enum vga_color\<close>.\<close>

datatype vga_color =
    VGA_COLOR_BLACK | VGA_COLOR_BLUE | VGA_COLOR_GREEN | VGA_COLOR_CYAN | VGA_COLOR_RED
  | VGA_COLOR_MAGENTA | VGA_COLOR_BROWN | VGA_COLOR_LIGHT_GREY | VGA_COLOR_DARK_GREY
  | VGA_COLOR_LIGHT_BLUE | VGA_COLOR_LIGHT_GREEN | VGA_COLOR_LIGHT_CYAN
  | VGA_COLOR_LIGHT_RED | VGA_COLOR_LIGHT_MAGENTA | VGA_COLOR_LIGHT_BROWN | VGA_COLOR_WHITE

text \<open>\<^verbatim>\<open>special_key_t\<close>, as the characters the keyboard delivers.\<close>

abbreviation KEY_NULL :: char where "KEY_NULL \<equiv> CHR 0x00"
abbreviation KEY_BACKSPACE :: char where "KEY_BACKSPACE \<equiv> CHR 0x08"
abbreviation KEY_TAB :: char where "KEY_TAB \<equiv> CHR 0x09"
abbreviation KEY_ENTER :: char where "KEY_ENTER \<equiv> CHR 0x0D"
abbreviation KEY_ESCAPE :: char where "KEY_ESCAPE \<equiv> CHR 0x1B"
abbreviation KEY_ARROW_UP :: char where "KEY_ARROW_UP \<equiv> CHR 0x80"
abbreviation KEY_ARROW_DOWN :: char where "KEY_ARROW_DOWN \<equiv> CHR 0x81"
abbreviation KEY_ARROW_LEFT :: char where "KEY_ARROW_LEFT \<equiv> CHR 0x82"
abbreviation KEY_ARROW_RIGHT :: char where "KEY_ARROW_RIGHT \<equiv> CHR 0x83"
abbreviation KEY_DELETE :: char where "KEY_DELETE \<equiv> CHR 0x84"
abbreviation KEY_HOME :: char where "KEY_HOME \<equiv> CHR 0x85"
abbreviation KEY_END :: char where "KEY_END \<equiv> CHR 0x86"
abbreviation KEY_PAGE_UP :: char where "KEY_PAGE_UP \<equiv> CHR 0x87"
abbreviation KEY_PAGE_DOWN :: char where "KEY_PAGE_DOWN \<equiv> CHR 0x88"

text \<open>
  The calls. \<^verbatim>\<open>terminal_printf\<close> reads its format string only: it never looks at its
  variadic arguments, so the call carries the format alone.
\<close>

datatype con_call =
    Puts string
  | Putc char
  | Print_int u32
  | Print_hex u32
  | Printf string
  | Set_fg vga_color
  | Reset_color
  | Clear

record console =
  con_out :: "con_call list"

definition emit :: "con_call \<Rightarrow> 'a console_scheme \<Rightarrow> 'a console_scheme" where
  "emit c s = s\<lparr>con_out := con_out s @ [c]\<rparr>"

abbreviation puts :: "string \<Rightarrow> 'a console_scheme \<Rightarrow> 'a console_scheme" where
  "puts msg \<equiv> emit (Puts msg)"

definition newline :: string where
  "newline = [CHR 0x0A]"

text \<open>The Turkish letters of the messages, as the UTF-8 bytes of the source.\<close>

definition tr_i :: string where "tr_i = [CHR 0xC4, CHR 0xB1]"
definition tr_s :: string where "tr_s = [CHR 0xC5, CHR 0x9F]"
definition tr_g :: string where "tr_g = [CHR 0xC4, CHR 0x9F]"
definition tr_u :: string where "tr_u = [CHR 0xC3, CHR 0xBC]"
definition tr_o :: string where "tr_o = [CHR 0xC3, CHR 0xB6]"
definition tr_c :: string where "tr_c = [CHR 0xC3, CHR 0xA7]"

lemma con_out_emit [simp]: "con_out (emit c s) = con_out s @ [c]"
  by (simp add: emit_def)

lemma emit_more [simp]: "console.more (emit c s) = console.more s"
  by (simp add: emit_def)

lemma fold_emit: "fold emit cs s = s\<lparr>con_out := con_out s @ cs\<rparr>"
  by (induction cs arbitrary: s) (simp_all add: emit_def)

lemma fold_fold_emit: "fold (\<lambda>i. fold emit (f i)) xs s = fold emit (concat (map f xs)) s"
  by (induction xs arbitrary: s) simp_all

end
