(* ===== verification/Memory.thy ===== *)
theory Memory
  imports Console
begin

text \<open>
  The byte memory, the kernel heap and the two-level page tables of \<^verbatim>\<open>src/kernel/mm\<close>:
  \<^verbatim>\<open>memory.c\<close> (\<^verbatim>\<open>memset\<close>, \<^verbatim>\<open>memcpy\<close>, the \<^verbatim>\<open>kmalloc\<close> family, \<^verbatim>\<open>kfree\<close>, \<^verbatim>\<open>krealloc\<close>) and
  \<^verbatim>\<open>memory_ext.c\<close> (\<^verbatim>\<open>get_physaddr\<close>, \<^verbatim>\<open>map_page\<close>). Addresses are 32-bit words and memory is a
  total function from addresses to bytes, so address arithmetic wraps as it does on the
  machine. It is the physical memory of a kernel that runs without paging, or with tables that map
  it to itself: a pointer is the address it points to, and an access through it is defined at
  every address, as it is on the machine; in particular an absent directory entry leads to the
  page table at address 0. Paging is switched on in one place, \<^verbatim>\<open>switch_page_directory\<close>, which is
  where the model asks whether the processor can go on.
\<close>

section \<open>Byte memory\<close>

record memory_region =
  mr_base_addr :: u64
  mr_length :: u64
  mr_type :: u32

record physical_memory_manager =
  total_memory :: u32
  usable_memory :: u32
  free_memory :: u32
  used_memory :: u32
  reserved_memory :: u32
  num_regions :: u32

record memory_block =
  mb_address :: u32
  mb_size :: u32
  mb_used :: bool

text \<open>
  The memory manager's state: the bytes of memory, the bump pointer \<open>heap_end\<close> of the kernel
  heap whose array starts at \<open>kernel_heap\<close>, the end of the loaded image (\<^verbatim>\<open>_kernel_end\<close> of
  \<^verbatim>\<open>scripts/link.ld\<close>), the external \<open>page_directory\<close> pointer that
  \<^verbatim>\<open>memory_ext.c\<close> walks, the frame bitmap with its length, the two directory pointers and the
  control registers of \<^verbatim>\<open>memory.c\<close>, and the block list of \<^verbatim>\<open>memory_ext.c\<close>, whose links no
  code changes. The bitmap has \<open>2^15\<close> words, one for every value of \<open>addr / 4096 / 32\<close>, so an
  index computed from an address is always inside it.
\<close>

record kmem = console +
  bytes :: "u32 \<Rightarrow> u8"
  kernel_heap :: u32
  kernel_end :: u32
  heap_end :: u32
  page_directory :: u32
  frames :: "u32 \<Rightarrow> u32"
  nframes :: u32
  phys_mem_mgr :: physical_memory_manager
  memory_regions :: "memory_region list"
  kernel_directory :: u32
  current_directory :: u32
  cr0 :: u32
  cr3 :: u32
  memory_blocks :: "memory_block list"

lemma emit_kmem [simp]:
  "bytes (emit c s) = bytes s" "heap_end (emit c s) = heap_end s"
  "page_directory (emit c s) = page_directory s" "kernel_heap (emit c s) = kernel_heap s"
  "kernel_end (emit c s) = kernel_end s"
  "frames (emit c s) = frames s" "nframes (emit c s) = nframes s"
  "memory_blocks (emit c s) = memory_blocks s"
  by (simp_all add: emit_def)

text \<open>\<^verbatim>\<open>memset\<close> and \<^verbatim>\<open>memcpy\<close>, the loops \<^verbatim>\<open>for (size_t i = 0; i < n; i++)\<close>.\<close>

definition memset_bytes :: "u32 \<Rightarrow> u8 \<Rightarrow> nat \<Rightarrow> (u32 \<Rightarrow> u8) \<Rightarrow> (u32 \<Rightarrow> u8)" where
  "memset_bytes p c n m = fold (\<lambda>i m. m(p + of_nat i := c)) [0..<n] m"

definition memcpy_bytes :: "u32 \<Rightarrow> u32 \<Rightarrow> nat \<Rightarrow> (u32 \<Rightarrow> u8) \<Rightarrow> (u32 \<Rightarrow> u8)" where
  "memcpy_bytes d p n m = fold (\<lambda>i m. m(d + of_nat i := m (p + of_nat i))) [0..<n] m"

definition memset :: "u32 \<Rightarrow> u8 \<Rightarrow> u32 \<Rightarrow> 'a kmem_scheme \<Rightarrow> 'a kmem_scheme" where
  "memset p c n s = s\<lparr>bytes := memset_bytes p c (unat n) (bytes s)\<rparr>"

definition memcpy :: "u32 \<Rightarrow> u32 \<Rightarrow> u32 \<Rightarrow> 'a kmem_scheme \<Rightarrow> 'a kmem_scheme" where
  "memcpy d p n s = s\<lparr>bytes := memcpy_bytes d p (unat n) (bytes s)\<rparr>"

text \<open>The bytes of the \<open>n\<close> cells from \<open>p\<close> on, as a list.\<close>

definition read_bytes :: "(u32 \<Rightarrow> u8) \<Rightarrow> u32 \<Rightarrow> nat \<Rightarrow> u8 list" where
  "read_bytes m p n = map (\<lambda>i. m (p + of_nat i)) [0..<n]"

definition block :: "u32 \<Rightarrow> nat \<Rightarrow> u32 set" where
  "block p n = (\<lambda>i. p + of_nat i) ` {..<n}"

lemma length_read_bytes [simp]: "length (read_bytes m p n) = n"
  by (simp add: read_bytes_def)

lemma in_block_iff:
  assumes "n \<le> 2 ^ 32"
  shows "a \<in> block p n \<longleftrightarrow> unat (a - p) < n"
proof
  assume "a \<in> block p n"
  then obtain i where "i < n" "a = p + of_nat i" by (auto simp: block_def)
  with assms show "unat (a - p) < n" by (simp add: unat_of_nat32)
next
  assume "unat (a - p) < n"
  moreover have "a = p + of_nat (unat (a - p))" by simp
  ultimately show "a \<in> block p n" unfolding block_def by blast
qed

lemma block_Suc: "block p (Suc n) = insert (p + of_nat n) (block p n)"
  by (simp add: block_def lessThan_Suc)

lemma memset_bytes_eq: "memset_bytes p c n m = (\<lambda>a. if a \<in> block p n then c else m a)"
proof (induction n)
  case 0
  then show ?case by (simp add: memset_bytes_def block_def)
next
  case (Suc n)
  then show ?case by (auto simp: memset_bytes_def block_Suc fun_eq_iff)
qed

lemma of_nat32_eq_iff: "i < 2 ^ 32 \<Longrightarrow> j < 2 ^ 32 \<Longrightarrow> (of_nat i :: u32) = of_nat j \<longleftrightarrow> i = j"
  by (metis unat_of_nat32)

lemma in_sub_block:
  assumes "j < 2 ^ 32" "a + n \<le> 2 ^ 32"
  shows "q + of_nat j \<in> block (q + of_nat a) n \<longleftrightarrow> a \<le> j \<and> j < a + n"
proof
  assume "q + of_nat j \<in> block (q + of_nat a) n"
  then obtain i where i: "i < n" "(of_nat j :: u32) = of_nat (a + i)"
    by (auto simp: block_def add.assoc)
  then have "j = a + i" using assms by (simp only: of_nat32_eq_iff)
  with i(1) show "a \<le> j \<and> j < a + n" by simp
next
  assume "a \<le> j \<and> j < a + n"
  then have "j - a < n" "q + of_nat j = q + of_nat a + of_nat (j - a)"
    by (auto simp: of_nat_diff)
  then show "q + of_nat j \<in> block (q + of_nat a) n" unfolding block_def by blast
qed

lemma in_prefix_block: "j < 2 ^ 32 \<Longrightarrow> n \<le> 2 ^ 32 \<Longrightarrow> q + of_nat j \<in> block q n \<longleftrightarrow> j < n"
  using in_sub_block [of j 0 n q] by simp

text \<open>
  A copy between disjoint blocks. The loop reads the memory it is writing, so the blocks
  must be disjoint for the destination to receive the original bytes.
\<close>

lemma memcpy_bytes_outside: "a \<notin> block d n \<Longrightarrow> memcpy_bytes d p n m a = m a"
proof (induction n)
  case 0
  then show ?case by (simp add: memcpy_bytes_def)
next
  case (Suc n)
  then show ?case by (simp add: memcpy_bytes_def block_Suc)
qed

lemma memcpy_bytes_inside:
  assumes "n \<le> 2 ^ 32" "block d n \<inter> block p n = {}" "i < n"
  shows "memcpy_bytes d p n m (d + of_nat i) = m (p + of_nat i)"
  using assms
proof (induction n)
  case 0
  then show ?case by simp
next
  case (Suc n)
  have step: "memcpy_bytes d p (Suc n) m
      = (memcpy_bytes d p n m)(d + of_nat n := memcpy_bytes d p n m (p + of_nat n))"
    by (simp add: memcpy_bytes_def)
  show ?case
  proof (cases "i = n")
    case True
    have "p + of_nat n \<notin> block d n"
      using Suc.prems(2) by (auto simp: block_Suc)
    with True show ?thesis by (simp add: step memcpy_bytes_outside)
  next
    case False
    with Suc.prems have "of_nat i \<noteq> (of_nat n :: u32)" by (simp add: of_nat32_eq_iff)
    moreover have "memcpy_bytes d p n m (d + of_nat i) = m (p + of_nat i)"
      using Suc.prems False by (intro Suc.IH) (auto simp: block_Suc)
    ultimately show ?thesis by (simp add: step)
  qed
qed

lemma read_bytes_memcpy:
  "n \<le> 2 ^ 32 \<Longrightarrow> block d n \<inter> block p n = {} \<Longrightarrow>
    read_bytes (memcpy_bytes d p n m) d n = read_bytes m p n"
  by (simp add: read_bytes_def memcpy_bytes_inside)

lemma unat_add_of_nat:
  "unat (p :: u32) + i < 2 ^ 32 \<Longrightarrow> unat (p + of_nat i) = unat p + i"
  by (simp add: unat_word_ariths unat_of_nat32)

section \<open>Little-endian words in memory\<close>

definition read32 :: "(u32 \<Rightarrow> u8) \<Rightarrow> u32 \<Rightarrow> u32" where
  "read32 m a = ucast (m a) OR push_bit 8 (ucast (m (a + 1)))
     OR push_bit 16 (ucast (m (a + 2))) OR push_bit 24 (ucast (m (a + 3)))"

definition write32 :: "u32 \<Rightarrow> u32 \<Rightarrow> (u32 \<Rightarrow> u8) \<Rightarrow> (u32 \<Rightarrow> u8)" where
  "write32 a v m = m(a := ucast v, a + 1 := ucast (drop_bit 8 v),
     a + 2 := ucast (drop_bit 16 v), a + 3 := ucast (drop_bit 24 v))"

lemma block4: "block a 4 = {a, a + 1, a + 2, a + 3}"
  by (auto simp: block_def numeral_eq_Suc lessThan_Suc)

lemma read32_write32 [simp]: "read32 (write32 a v m) a = v"
proof -
  have "ucast (ucast v :: u8) OR push_bit 8 (ucast (ucast (drop_bit 8 v) :: u8))
     OR push_bit 16 (ucast (ucast (drop_bit 16 v) :: u8))
     OR push_bit 24 (ucast (ucast (drop_bit 24 v) :: u8)) = v" (is "?w = v")
  proof (rule bit_word_eqI)
    fix n assume "n < LENGTH(32)"
    then consider "n < 8" | "8 \<le> n" "n < 16" | "16 \<le> n" "n < 24" | "24 \<le> n" "n < 32"
      by fastforce
    then show "bit ?w n = bit v n"
      by cases (auto simp: bit_simps)
  qed
  then show ?thesis by (simp add: read32_def write32_def)
qed

lemma read32_write32_other:
  "block a 4 \<inter> block b 4 = {} \<Longrightarrow> read32 (write32 a v m) b = read32 m b"
  unfolding block4 by (auto simp: read32_def write32_def)

definition aligned4 :: "u32 \<Rightarrow> bool" where
  "aligned4 a \<longleftrightarrow> 4 dvd unat a"

lemma aligned4_unat_add:
  assumes "aligned4 a" "i < 4"
  shows "unat (a + of_nat i) = unat a + i"
proof -
  obtain k where k: "unat a = 4 * k" using assms(1) by (auto simp: aligned4_def dvd_def)
  moreover have "unat a < 2 ^ 32" using unsigned_less [of a] by simp
  ultimately have "unat a + i < 2 ^ 32" using assms(2) by simp
  then show ?thesis using assms(2) by (simp add: unat_word_ariths unat_of_nat32)
qed

lemma aligned4_disjoint:
  assumes "aligned4 a" "aligned4 b" "a \<noteq> b"
  shows "block a 4 \<inter> block b 4 = {}"
proof (rule ccontr)
  assume "block a 4 \<inter> block b 4 \<noteq> {}"
  then obtain i j where ij: "i < 4" "j < 4" "a + of_nat i = b + of_nat j"
    by (auto simp: block_def)
  then have "unat a + i = unat b + j"
    using assms(1,2) by (metis aligned4_unat_add)
  moreover obtain k l where "unat a = 4 * k" "unat b = 4 * l"
    using assms(1,2) by (auto simp: aligned4_def dvd_def)
  ultimately have "unat a = unat b" using ij(1,2) by presburger
  with assms(3) show False by (simp add: word_unat_eq_iff)
qed

section \<open>The kernel heap\<close>

definition PAGE_SIZE :: u32 where
  "PAGE_SIZE = 4096"

definition HEAP_SIZE :: u32 where
  "HEAP_SIZE = 0x100000"

text \<open>
  \<^verbatim>\<open>get_physaddr\<close> of \<^verbatim>\<open>memory_ext.c\<close>: two present bits, then the frame of the table entry
  plus the offset in the page; the null pointer when an entry is not present.
\<close>

definition pdindex :: "u32 \<Rightarrow> u32" where
  "pdindex v = drop_bit 22 v"

definition ptindex :: "u32 \<Rightarrow> u32" where
  "ptindex v = drop_bit 12 v AND 0x03FF"

definition pde_addr :: "u32 \<Rightarrow> 'a kmem_scheme \<Rightarrow> u32" where
  "pde_addr v s = page_directory s + 4 * pdindex v"

definition pte_addr :: "u32 \<Rightarrow> 'a kmem_scheme \<Rightarrow> u32" where
  "pte_addr v s = (read32 (bytes s) (pde_addr v s) AND NOT 0xFFF) + 4 * ptindex v"

definition get_physaddr :: "u32 \<Rightarrow> 'a kmem_scheme \<Rightarrow> u32" where
  "get_physaddr v s =
     (if read32 (bytes s) (pde_addr v s) AND 1 = 0 then 0
      else let pte = read32 (bytes s) (pte_addr v s)
        in if pte AND 1 = 0 then 0 else (pte AND NOT 0xFFF) + (v AND 0xFFF))"

definition map_page :: "u32 \<Rightarrow> u32 \<Rightarrow> u32 \<Rightarrow> 'a kmem_scheme \<Rightarrow> 'a kmem_scheme" where
  "map_page phys v flags s =
     s\<lparr>bytes := write32 (pte_addr v s) (phys OR (flags AND 0xFFF) OR 1) (bytes s)\<rparr>"

text \<open>
  \<^verbatim>\<open>kmalloc_internal\<close>: the result is the address and, when the caller passes a \<^verbatim>\<open>phys\<close>
  pointer, the value stored through it.
\<close>

definition kmalloc_internal ::
  "u32 \<Rightarrow> bool \<Rightarrow> bool \<Rightarrow> 'a kmem_scheme \<Rightarrow> u32 \<times> u32 option \<times> 'a kmem_scheme" where
  "kmalloc_internal sz align phys s =
     (let end1 = (if align \<and> heap_end s AND 0xFFF \<noteq> 0
                  then (heap_end s + 0x1000) AND 0xFFFFF000 else heap_end s);
          s1 = s\<lparr>heap_end := end1\<rparr>;
          addr = end1;
          p = (if phys then Some (get_physaddr addr s1) else None)
      in (addr, p, s1\<lparr>heap_end := end1 + sz\<rparr>))"

definition kmalloc :: "u32 \<Rightarrow> 'a kmem_scheme \<Rightarrow> u32 \<times> 'a kmem_scheme" where
  "kmalloc sz s = (let (a, _, s') = kmalloc_internal sz False False s in (a, s'))"

definition kmalloc_aligned :: "u32 \<Rightarrow> 'a kmem_scheme \<Rightarrow> u32 \<times> 'a kmem_scheme" where
  "kmalloc_aligned sz s = (let (a, _, s') = kmalloc_internal sz True False s in (a, s'))"

definition kmalloc_physical ::
  "u32 \<Rightarrow> 'a kmem_scheme \<Rightarrow> u32 \<times> u32 option \<times> 'a kmem_scheme" where
  "kmalloc_physical sz s = kmalloc_internal sz False True s"

definition kmalloc_aligned_physical ::
  "u32 \<Rightarrow> 'a kmem_scheme \<Rightarrow> u32 \<times> u32 option \<times> 'a kmem_scheme" where
  "kmalloc_aligned_physical sz s = kmalloc_internal sz True True s"

text \<open>\<^verbatim>\<open>kfree\<close> of \<^verbatim>\<open>memory.c\<close> frees nothing; it only prints a message.\<close>

definition kfree :: "u32 \<Rightarrow> 'a kmem_scheme \<Rightarrow> 'a kmem_scheme" where
  "kfree p s =
     (if p = 0 then s
      else puts (''kfree: Bellek serbest b'' @ tr_i @ ''rak'' @ tr_i @ ''ld'' @ tr_i
        @ '' (stub)'' @ newline) s)"

definition krealloc :: "u32 \<Rightarrow> u32 \<Rightarrow> 'a kmem_scheme \<Rightarrow> u32 \<times> 'a kmem_scheme" where
  "krealloc p sz s =
     (if p = 0 then kmalloc sz s
      else if sz = 0 then (0, kfree p s)
      else let (q, s1) = kmalloc sz s
        in if q = 0 then (0, s1)
           else let copy_size = (if sz < 256 then sz else 256)
             in (q, kfree p (memcpy q p copy_size s1)))"

text \<open>\<^verbatim>\<open>kfree\<close> and the leak report of \<^verbatim>\<open>memory_ext.c\<close>, over its block list.\<close>

fun release_block :: "u32 \<Rightarrow> memory_block list \<Rightarrow> (memory_block list \<times> u32) option" where
  "release_block p [] = None"
| "release_block p (b # bs) =
     (if mb_address b = p then Some (b\<lparr>mb_used := False\<rparr> # bs, mb_size b)
      else case release_block p bs of None \<Rightarrow> None | Some (bs', n) \<Rightarrow> Some (b # bs', n))"

definition kfree_ext :: "u32 \<Rightarrow> 'a kmem_scheme \<Rightarrow> 'a kmem_scheme" where
  "kfree_ext p s =
     (if p = 0 then s
      else case release_block p (memory_blocks s) of
        Some (bs, n) \<Rightarrow> memset p 0 n (s\<lparr>memory_blocks := bs\<rparr>)
      | None \<Rightarrow> puts (''HATA: Bilinmeyen bellek blogu serbest birakilmaya calisildi!'' @ newline) s)"

definition memory_check_leaks :: "'a kmem_scheme \<Rightarrow> 'a kmem_scheme" where
  "memory_check_leaks s =
     (let s1 = puts (''Bellek sizintisi kontrolu yapiliyor...'' @ newline) s;
          leak_count = fold (\<lambda>b n. if mb_used b then n + 1 else n) (memory_blocks s) (0 :: u32)
      in if 0 < leak_count
         then puts (''UYARI: Bellek sizintisi tespit edildi!'' @ newline) s1
         else puts (''Bellek sizintisi yok.'' @ newline) s1)"

section \<open>Address intervals\<close>

lemma in_block_interval:
  assumes "unat p + n < 2 ^ 32"
  shows "a \<in> block p n \<longleftrightarrow> unat p \<le> unat a \<and> unat a < unat p + n"
proof
  assume "a \<in> block p n"
  then obtain i where "i < n" "a = p + of_nat i" by (auto simp: block_def)
  moreover from this assms have "unat a = unat p + i"
    by (simp add: unat_word_ariths unat_of_nat32)
  ultimately show "unat p \<le> unat a \<and> unat a < unat p + n" by simp
next
  assume *: "unat p \<le> unat a \<and> unat a < unat p + n"
  then have "p \<le> a" by (simp add: word_le_nat_alt)
  then have "unat (a - p) = unat a - unat p" by (rule unat_sub)
  with * assms show "a \<in> block p n" by (subst in_block_iff) auto
qed

lemma page_round:
  fixes x :: u32
  shows "x AND 0xFFFFF000 = x - (x AND 0xFFF)" and "(x AND 0xFFFFF000) AND 0xFFF = 0"
proof -
  have "x = (x AND 0xFFFFF000) OR (x AND 0xFFF)"
  proof -
    have "(0xFFFFF000 :: u32) OR 0xFFF = NOT 0" by simp
    then show ?thesis by (metis bit.conj_disj_distrib bit.compl_zero and.right_neutral)
  qed
  moreover have "(x AND 0xFFFFF000) AND (x AND 0xFFF) = 0"
    by (simp add: ac_simps)
  ultimately have "x = (x AND 0xFFFFF000) + (x AND 0xFFF)"
    by (metis disjunctive_add_eq_or)
  then show "x AND 0xFFFFF000 = x - (x AND 0xFFF)" by (simp add: algebra_simps)
  show "(x AND 0xFFFFF000) AND 0xFFF = 0" by (simp add: ac_simps)
qed

end
