(* ===== verification/Heap.thy ===== *)
theory Heap
  imports Memory
begin

text \<open>
  The kernel heap of \<^verbatim>\<open>src/kernel/mm/memory.c\<close>. \<^verbatim>\<open>kmalloc\<close> moves a pointer and nothing is ever
  given back, so blocks are disjoint as long as the pointer does not wrap; the end of the
  \<^verbatim>\<open>kernel_heap\<close> array is never compared. The contract of an allocator is a locale, which
  \<^verbatim>\<open>kmalloc\<close> and \<^verbatim>\<open>kmalloc_aligned\<close> both satisfy.
\<close>

section \<open>Closed forms\<close>

definition page_up :: "u32 \<Rightarrow> u32" where
  "page_up x = (if x AND 0xFFF \<noteq> 0 then (x + 0x1000) AND 0xFFFFF000 else x)"

lemma kmalloc_eq: "kmalloc n s = (heap_end s, s\<lparr>heap_end := heap_end s + n\<rparr>)"
  by (simp add: kmalloc_def kmalloc_internal_def Let_def)

lemma kmalloc_aligned_eq:
  "kmalloc_aligned n s =
    (page_up (heap_end s), s\<lparr>heap_end := page_up (heap_end s) + n\<rparr>)"
  by (simp add: kmalloc_aligned_def kmalloc_internal_def page_up_def Let_def)

lemma page_up_aligned: "page_up x AND 0xFFF = 0"
  using page_round(2) [of "x + 0x1000"] by (simp add: page_up_def)

lemma low12_less: "unat (x AND 0xFFF :: u32) < 4096"
proof -
  have "x AND 0xFFF \<le> 0xFFF" by (rule word_and_le1)
  then show ?thesis by (simp add: word_le_nat_alt)
qed

lemma page_up_bounds:
  assumes "unat x + 4096 < 2 ^ 32"
  shows "unat x \<le> unat (page_up x)" "unat (page_up x) \<le> unat x + 4096"
proof -
  let ?y = "x + 0x1000" and ?r = "(x + 0x1000) AND 0xFFF"
  have y: "unat ?y = unat x + 4096"
    using assms by (simp add: unat_word_ariths)
  have r: "unat ?r < 4096" by (rule low12_less)
  have "unat (?y - ?r) = unat ?y - unat ?r"
    using y r by (intro unat_sub) (simp add: word_le_nat_alt)
  with y r page_round(1) [of ?y]
  show "unat x \<le> unat (page_up x)" "unat (page_up x) \<le> unat x + 4096"
    by (auto simp: page_up_def)
qed

section \<open>What is allocated, and the room that is left\<close>

definition live :: "'a kmem_scheme \<Rightarrow> u32 set" where
  "live s = {a. kernel_heap s \<le> a \<and> a < heap_end s}"

definition room :: "nat \<Rightarrow> 'a kmem_scheme \<Rightarrow> bool" where
  "room k s \<longleftrightarrow> kernel_heap s \<le> heap_end s \<and> unat (heap_end s) + k < 2 ^ 32"

primrec alloc_seq ::
  "(u32 \<Rightarrow> 's \<Rightarrow> u32 \<times> 's) \<Rightarrow> u32 list \<Rightarrow> 's \<Rightarrow> (u32 \<times> u32) list \<times> 's" where
  "alloc_seq alloc [] s = ([], s)"
| "alloc_seq alloc (n # ns) s =
     (let (a, s1) = alloc n s; (bs, s2) = alloc_seq alloc ns s1 in ((a, n) # bs, s2))"

definition disjoint_blocks :: "u32 \<times> u32 \<Rightarrow> u32 \<times> u32 \<Rightarrow> bool" where
  "disjoint_blocks x y \<longleftrightarrow> block (fst x) (unat (snd x)) \<inter> block (fst y) (unat (snd y)) = {}"

locale allocator =
  fixes alloc :: "u32 \<Rightarrow> 's \<Rightarrow> u32 \<times> 's"
    and used :: "'s \<Rightarrow> u32 set"
    and avail :: "nat \<Rightarrow> 's \<Rightarrow> bool"
    and cost :: "u32 \<Rightarrow> nat"
  assumes alloc_fresh: "avail (cost n) s \<Longrightarrow> block (fst (alloc n s)) (unat n) \<inter> used s = {}"
    and alloc_used: "avail (cost n) s \<Longrightarrow>
      used s \<union> block (fst (alloc n s)) (unat n) \<subseteq> used (snd (alloc n s))"
    and alloc_avail: "avail (cost n + k) s \<Longrightarrow> avail (cost n) s \<and> avail k (snd (alloc n s))"
begin

lemma seq_step:
  "alloc_seq alloc (n # ns) s =
    ((fst (alloc n s), n) # fst (alloc_seq alloc ns (snd (alloc n s))),
     snd (alloc_seq alloc ns (snd (alloc n s))))"
  by (simp add: Let_def split_beta)

lemma seq_fresh:
  "avail (sum_list (map cost ns)) s \<Longrightarrow> x \<in> set (fst (alloc_seq alloc ns s)) \<Longrightarrow>
    block (fst x) (unat (snd x)) \<inter> used s = {}"
proof (induction ns arbitrary: s)
  case Nil
  then show ?case by simp
next
  case (Cons n ns)
  from Cons.prems(1) have av: "avail (cost n) s" "avail (sum_list (map cost ns)) (snd (alloc n s))"
    using alloc_avail by auto
  from Cons.prems(2) consider "x = (fst (alloc n s), n)"
    | "x \<in> set (fst (alloc_seq alloc ns (snd (alloc n s))))"
    by (auto simp: seq_step simp del: alloc_seq.simps)
  then show ?case
  proof cases
    case 1
    then show ?thesis using alloc_fresh [OF av(1)] by simp
  next
    case 2
    then show ?thesis using Cons.IH [OF av(2)] alloc_used [OF av(1)] by blast
  qed
qed

lemma seq_disjoint:
  "avail (sum_list (map cost ns)) s \<Longrightarrow> sorted_wrt disjoint_blocks (fst (alloc_seq alloc ns s))"
proof (induction ns arbitrary: s)
  case Nil
  then show ?case by simp
next
  case (Cons n ns)
  let ?s = "snd (alloc n s)"
  from Cons.prems have av: "avail (cost n) s" "avail (sum_list (map cost ns)) ?s"
    using alloc_avail by auto
  have "disjoint_blocks (fst (alloc n s), n) y" if "y \<in> set (fst (alloc_seq alloc ns ?s))" for y
    using seq_fresh [OF av(2) that] alloc_used [OF av(1)] by (auto simp: disjoint_blocks_def)
  then show ?case using Cons.IH [OF av(2)]
    by (simp add: seq_step del: alloc_seq.simps)
qed

end

lemma live_interval: "a \<in> live s \<longleftrightarrow> unat (kernel_heap s) \<le> unat a \<and> unat a < unat (heap_end s)"
  by (simp add: live_def word_le_nat_alt word_less_nat_alt)

lemma room_kernel_heap: "room k s \<Longrightarrow> unat (kernel_heap s) \<le> unat (heap_end s)"
  by (simp add: room_def word_le_nat_alt)

lemma unat_plus_no_wrap: "unat (x :: u32) + unat n < 2 ^ 32 \<Longrightarrow> unat (x + n) = unat x + unat n"
  by (simp add: unat_word_ariths)

interpretation km: allocator kmalloc live room unat
proof unfold_locales
  fix n :: u32 and s :: "'a kmem_scheme" and k
  assume r: "room (unat n) s"
  then have nw: "unat (heap_end s) + unat n < 2 ^ 32" by (simp add: room_def)
  show "block (fst (kmalloc n s)) (unat n) \<inter> live s = {}"
    using nw by (auto simp: kmalloc_eq live_interval in_block_interval)
  show "live s \<union> block (fst (kmalloc n s)) (unat n) \<subseteq> live (snd (kmalloc n s))"
    using nw room_kernel_heap [OF r]
    by (auto simp: kmalloc_eq live_interval in_block_interval unat_plus_no_wrap)
next
  fix n :: u32 and s :: "'a kmem_scheme" and k
  assume r: "room (unat n + k) s"
  then have "unat (heap_end s + n) = unat (heap_end s) + unat n"
    by (intro unat_plus_no_wrap) (simp add: room_def)
  with r show "room (unat n) s \<and> room k (snd (kmalloc n s))"
    by (simp add: kmalloc_eq room_def word_le_nat_alt)
qed

interpretation kma: allocator kmalloc_aligned live room "\<lambda>n. 4096 + unat n"
proof unfold_locales
  fix n :: u32 and s :: "'a kmem_scheme" and k
  assume r: "room (4096 + unat n) s"
  then have nw: "unat (heap_end s) + 4096 + unat n < 2 ^ 32" by (simp add: room_def)
  then have up: "unat (heap_end s) \<le> unat (page_up (heap_end s))"
      "unat (page_up (heap_end s)) + unat n < 2 ^ 32"
    using page_up_bounds [of "heap_end s"] by auto
  show "block (fst (kmalloc_aligned n s)) (unat n) \<inter> live s = {}"
    using up by (auto simp: kmalloc_aligned_eq live_interval in_block_interval)
  show "live s \<union> block (fst (kmalloc_aligned n s)) (unat n) \<subseteq> live (snd (kmalloc_aligned n s))"
    using up room_kernel_heap [OF r]
    by (auto simp: kmalloc_aligned_eq live_interval in_block_interval unat_plus_no_wrap)
next
  fix n :: u32 and s :: "'a kmem_scheme" and k
  assume r: "room (4096 + unat n + k) s"
  then have nw: "unat (heap_end s) + 4096 + unat n + k < 2 ^ 32" by (simp add: room_def)
  then have up: "unat (heap_end s) \<le> unat (page_up (heap_end s))"
      "unat (page_up (heap_end s)) \<le> unat (heap_end s) + 4096"
    using page_up_bounds [of "heap_end s"] by auto
  then have "unat (page_up (heap_end s) + n) = unat (page_up (heap_end s)) + unat n"
    using nw by (intro unat_plus_no_wrap) simp
  with r up nw show "room (4096 + unat n) s \<and> room k (snd (kmalloc_aligned n s))"
    by (simp add: kmalloc_aligned_eq room_def word_le_nat_alt)
qed

section \<open>Properties\<close>

text \<open>
  C12: any sequence of \<^verbatim>\<open>kmalloc\<close> requests that does not run past the end of the address
  space is answered with pairwise disjoint blocks, none of which touches a block that was
  allocated before.
\<close>

theorem kmalloc_blocks_disjoint:
  assumes "room (sum_list (map unat ns)) s"
  shows "sorted_wrt disjoint_blocks (fst (alloc_seq kmalloc ns s)) \<and>
    (\<forall>x \<in> set (fst (alloc_seq kmalloc ns s)). block (fst x) (unat (snd x)) \<inter> live s = {})"
  using km.seq_disjoint [OF assms] km.seq_fresh [OF assms] by blast

definition pmm0 :: physical_memory_manager where
  "pmm0 = \<lparr>total_memory = 0, usable_memory = 0, free_memory = 0, used_memory = 0,
     reserved_memory = 0, num_regions = 0\<rparr>"

text \<open>A machine whose heap array starts at 1 MB, with zeroed memory, used in the examples.\<close>

definition kmem0 :: kmem where
  "kmem0 = \<lparr>con_out = [], bytes = (\<lambda>_. 0), kernel_heap = 0x100000, kernel_end = 0x210000, heap_end = 0x100000,
     page_directory = 0x8000, frames = (\<lambda>_. 0), nframes = 0, phys_mem_mgr = pmm0,
     memory_regions = [], kernel_directory = 0, current_directory = 0, cr0 = 0, cr3 = 0,
     memory_blocks = []\<rparr>"

theorem kmalloc_blocks_disjoint_witness:
  "fst (alloc_seq kmalloc [224, 104] kmem0) = [(0x100000, 224), (0x1000E0, 104)]
    \<and> disjoint_blocks (0x100000, 224) (0x1000E0, 104)"
proof -
  have seq: "fst (alloc_seq kmalloc [224, 104] kmem0) = [(0x100000, 224), (0x1000E0, 104)]"
    by (simp add: kmalloc_eq kmem0_def)
  have "room (sum_list (map unat [224, 104 :: u32])) kmem0"
    by (simp add: room_def kmem0_def)
  from kmalloc_blocks_disjoint [OF this] show ?thesis
    unfolding seq by simp
qed

text \<open>
  The block that \<^verbatim>\<open>kmalloc\<close> returns lies inside the \<^verbatim>\<open>kernel_heap\<close> array exactly when the
  bytes in use and the request together fit into \<^verbatim>\<open>HEAP_SIZE\<close>. A request that does not fit is
  answered all the same, with the address where the last block ended.
\<close>

theorem kmalloc_heap_bound:
  assumes "room (unat n) s" "0 < n" "unat (kernel_heap s) + unat HEAP_SIZE < 2 ^ 32"
  shows "fst (kmalloc n s) = heap_end s \<and>
    (block (fst (kmalloc n s)) (unat n) \<subseteq> block (kernel_heap s) (unat HEAP_SIZE) \<longleftrightarrow>
      unat (heap_end s) - unat (kernel_heap s) + unat n \<le> unat HEAP_SIZE)"
proof -
  from assms(1) have nw: "unat (heap_end s) + unat n < 2 ^ 32" by (simp add: room_def)
  have pos: "0 < unat n" using assms(2) by (simp add: word_less_nat_alt)
  have kh: "unat (kernel_heap s) \<le> unat (heap_end s)" by (rule room_kernel_heap [OF assms(1)])
  let ?last = "heap_end s + of_nat (unat n - 1)"
  have last: "unat ?last = unat (heap_end s) + (unat n - 1)"
    by (rule unat_add_of_nat) (use nw pos in simp)
  have "block (heap_end s) (unat n) \<subseteq> block (kernel_heap s) (unat HEAP_SIZE) \<longleftrightarrow>
      unat (heap_end s) + unat n \<le> unat (kernel_heap s) + unat HEAP_SIZE"
  proof
    assume "block (heap_end s) (unat n) \<subseteq> block (kernel_heap s) (unat HEAP_SIZE)"
    moreover have "?last \<in> block (heap_end s) (unat n)"
      unfolding block_def
      by (rule imageI [of "unat n - 1" _ "\<lambda>i. heap_end s + of_nat i"]) (use pos in simp)
    ultimately have "?last \<in> block (kernel_heap s) (unat HEAP_SIZE)" by blast
    with last pos show "unat (heap_end s) + unat n \<le> unat (kernel_heap s) + unat HEAP_SIZE"
      using assms(3) by (auto simp: in_block_interval)
  next
    assume "unat (heap_end s) + unat n \<le> unat (kernel_heap s) + unat HEAP_SIZE"
    then show "block (heap_end s) (unat n) \<subseteq> block (kernel_heap s) (unat HEAP_SIZE)"
      using nw kh assms(3) by (auto simp: in_block_interval)
  qed
  with kh show ?thesis by (simp add: kmalloc_eq) arith
qed

theorem kmalloc_heap_bound_witness:
  "\<not> block (fst (kmalloc 8 (kmem0\<lparr>heap_end := 0x200000\<rparr>))) 8 \<subseteq> block 0x100000 (unat HEAP_SIZE)"
  using kmalloc_heap_bound [of 8 "kmem0\<lparr>heap_end := 0x200000\<rparr>"]
  by (simp add: room_def kmem0_def HEAP_SIZE_def kmalloc_eq)

lemma copy_size_eq: "unat (if n < 256 then n else (256 :: u32)) = min (unat n) 256"
  by (simp add: min_def word_less_nat_alt)

text \<open>
  \<^verbatim>\<open>krealloc\<close> of a block to a non-null fresh block keeps the first 256 bytes (or all of
  them, when fewer are asked for) and no others: what lies beyond in the new block is
  whatever memory held there.
\<close>

theorem krealloc_copies_256:
  assumes "p \<noteq> 0" "n \<noteq> 0" "heap_end s \<noteq> 0"
    and "block (heap_end s) (min (unat n) 256) \<inter> block p (min (unat n) 256) = {}"
  shows "fst (krealloc p n s) = heap_end s \<and>
    read_bytes (bytes (snd (krealloc p n s))) (heap_end s) (min (unat n) 256)
      = read_bytes (bytes s) p (min (unat n) 256) \<and>
    (\<forall>a. a \<notin> block (heap_end s) (min (unat n) 256) \<longrightarrow>
      bytes (snd (krealloc p n s)) a = bytes s a)"
proof -
  have "bytes (snd (krealloc p n s))
      = memcpy_bytes (heap_end s) p (min (unat n) 256) (bytes s)"
    using assms(1-3) by (simp add: krealloc_def kmalloc_eq Let_def kfree_def memcpy_def copy_size_eq)
  moreover have "fst (krealloc p n s) = heap_end s"
    using assms(1-3) by (simp add: krealloc_def kmalloc_eq Let_def)
  ultimately show ?thesis
    using assms(4) by (simp add: read_bytes_memcpy memcpy_bytes_outside)
qed

text \<open>Growing a 300-byte block to 400 bytes loses its byte number 256.\<close>

definition kmem_300 :: kmem where
  "kmem_300 = kmem0\<lparr>bytes := (\<lambda>a. if a < 0x10012C then 7 else 0), heap_end := 0x10012C\<rparr>"

theorem krealloc_copies_256_witness:
  "bytes kmem_300 (0x100000 + 256) = 7
    \<and> bytes (snd (krealloc 0x100000 400 kmem_300)) (0x10012C + 256) = 0"
proof -
  have "block 0x10012C 256 \<inter> block 0x100000 256 = ({} :: u32 set)"
    by (auto simp: in_block_interval)
  with krealloc_copies_256 [of "0x100000" 400 kmem_300] show ?thesis
    by (simp add: kmem_300_def kmem0_def in_block_interval)
qed

end
