(* ===== verification/Paging.thy ===== *)
theory Paging
  imports Heap
begin

text \<open>
  The page tables and the physical frames of \<^verbatim>\<open>src/kernel/mm\<close>: \<^verbatim>\<open>map_page\<close> and
  \<^verbatim>\<open>get_physaddr\<close> of \<^verbatim>\<open>memory_ext.c\<close>, and of \<^verbatim>\<open>memory.c\<close> the frame bitmap, \<^verbatim>\<open>alloc_frame\<close>,
  \<^verbatim>\<open>free_frame\<close>, \<^verbatim>\<open>get_page\<close>, the start-up code and the page-fault report.
\<close>

section \<open>The frame bitmap\<close>

definition set_frame :: "u32 \<Rightarrow> 'a kmem_scheme \<Rightarrow> 'a kmem_scheme" where
  "set_frame frame_addr s =
     (let frame = frame_addr div PAGE_SIZE; idx = frame div 32; off = frame mod 32
      in s\<lparr>frames := (frames s)(idx := frames s idx OR push_bit (unat off) 1)\<rparr>)"

definition clear_frame :: "u32 \<Rightarrow> 'a kmem_scheme \<Rightarrow> 'a kmem_scheme" where
  "clear_frame frame_addr s =
     (let frame = frame_addr div PAGE_SIZE; idx = frame div 32; off = frame mod 32
      in s\<lparr>frames := (frames s)(idx := frames s idx AND NOT (push_bit (unat off) 1))\<rparr>)"

definition test_frame :: "u32 \<Rightarrow> 'a kmem_scheme \<Rightarrow> u32" where
  "test_frame frame_addr s =
     (let frame = frame_addr div PAGE_SIZE; idx = frame div 32; off = frame mod 32
      in frames s idx AND push_bit (unat off) 1)"

text \<open>
  \<^verbatim>\<open>first_free_frame\<close>: the outer loop over \<^verbatim>\<open>nframes / 32\<close> words, the inner loop over the 32
  bits of a word that is not full.
\<close>

fun scan_frames :: "(u32 \<Rightarrow> u32) \<Rightarrow> nat list \<Rightarrow> u32" where
  "scan_frames fr [] = 0"
| "scan_frames fr (i # is) =
     (if fr (of_nat i) \<noteq> 0xFFFFFFFF
      then case find (\<lambda>j. fr (of_nat i) AND push_bit j 1 = 0) [0..<32] of
          Some j \<Rightarrow> of_nat i * 32 + of_nat j
        | None \<Rightarrow> scan_frames fr is
      else scan_frames fr is)"

definition first_free_frame :: "'a kmem_scheme \<Rightarrow> u32" where
  "first_free_frame s = scan_frames (frames s) [0..<unat (nframes s div 32)]"

section \<open>Frame structures\<close>

text \<open>
  \<^verbatim>\<open>page_frame_t\<close> is two words of bit-fields: the page-table half (present, rw, user,
  accessed, dirty, frame) and a second word with \<^verbatim>\<open>used\<close> in bit 0, \<^verbatim>\<open>kernel_page\<close> in bit 1 and
  \<^verbatim>\<open>ref_count\<close> in bits 2 to 11.
\<close>

definition MEMORY_PRESENT :: u32 where "MEMORY_PRESENT = 0x1"
definition MEMORY_READWRITE :: u32 where "MEMORY_READWRITE = 0x2"
definition MEMORY_USER :: u32 where "MEMORY_USER = 0x4"

definition frame_used :: "u32 \<Rightarrow> 'a kmem_scheme \<Rightarrow> bool" where
  "frame_used fp s \<longleftrightarrow> read32 (bytes s) (fp + 4) AND 1 \<noteq> 0"

definition set_used_fields :: "u32 \<Rightarrow> bool \<Rightarrow> 'a kmem_scheme \<Rightarrow> 'a kmem_scheme" where
  "set_used_fields fp is_kernel s =
     (let w = read32 (bytes s) (fp + 4);
          w1 = w OR 1;
          w2 = (w1 AND NOT 2) OR (if is_kernel then 2 else 0);
          w3 = (w2 AND NOT 0xFFC) OR 4
      in s\<lparr>bytes := write32 (fp + 4) w3 (bytes s)\<rparr>)"

definition clear_used_fields :: "u32 \<Rightarrow> 'a kmem_scheme \<Rightarrow> 'a kmem_scheme" where
  "clear_used_fields fp s =
     (let w = read32 (bytes s) (fp + 4)
      in s\<lparr>bytes := write32 (fp + 4) ((w AND NOT 1) AND NOT 0xFFC) (bytes s)\<rparr>)"

text \<open>\<^verbatim>\<open>alloc_frame\<close>; \<^const>\<open>None\<close> is the endless loop after the out-of-memory message.\<close>

definition alloc_frame :: "u32 \<Rightarrow> bool \<Rightarrow> bool \<Rightarrow> 'a kmem_scheme \<Rightarrow> 'a kmem_scheme option" where
  "alloc_frame fp is_kernel is_writeable s =
     (if frame_used fp s then Some s
      else let idx = first_free_frame s
        in if idx = 0xFFFFFFFF then None
           else let s1 = set_frame (idx * PAGE_SIZE) s;
                    s2 = set_used_fields fp is_kernel s1;
                    flags = MEMORY_PRESENT OR (if is_writeable then MEMORY_READWRITE else 0)
                      OR (if \<not> is_kernel then MEMORY_USER else 0)
             in Some (map_page (idx * PAGE_SIZE) fp flags s2))"

definition free_frame :: "u32 \<Rightarrow> 'a kmem_scheme \<Rightarrow> 'a kmem_scheme" where
  "free_frame fp s =
     (if \<not> frame_used fp s then s
      else clear_used_fields fp (clear_frame (get_physaddr fp s) s))"

section \<open>The bitmap implements a set of frames\<close>

text \<open>The frames in use: frame number \<open>f\<close> is bit \<open>f mod 32\<close> of word \<open>f div 32\<close>.\<close>

definition frame_bit :: "u32 \<Rightarrow> 'a kmem_scheme \<Rightarrow> bool" where
  "frame_bit f s \<longleftrightarrow> bit (frames s (f div 32)) (unat (f mod 32))"

lemma unat_mod32: "unat (f mod 32 :: u32) < 32"
  by (simp add: unat_mod)

lemma and_push_bit_1: "(w :: u32) AND push_bit j 1 = 0 \<longleftrightarrow> \<not> bit w j \<or> 32 \<le> j"
proof
  assume "w AND push_bit j 1 = 0"
  then have "\<not> bit (w AND push_bit j 1) j" by simp
  then show "\<not> bit w j \<or> 32 \<le> j" by (auto simp: bit_simps)
next
  assume "\<not> bit w j \<or> 32 \<le> j"
  then show "w AND push_bit j 1 = 0"
    by (intro bit_word_eqI) (auto simp: bit_simps)
qed

lemma and_power_2: "(w :: u32) AND 2 ^ j = 0 \<longleftrightarrow> \<not> bit w j \<or> 32 \<le> j"
  using and_push_bit_1 [of w j] by simp

lemma test_frame_bit: "test_frame a s \<noteq> 0 \<longleftrightarrow> frame_bit (a div PAGE_SIZE) s"
  using unat_mod32 [of "a div PAGE_SIZE"]
  by (simp add: test_frame_def frame_bit_def Let_def and_power_2)

lemma div_mod_32_eq: "(f :: u32) div 32 = g div 32 \<Longrightarrow> f mod 32 = g mod 32 \<Longrightarrow> f = g"
  by (metis div_mult_mod_eq)

lemma frame_bit_set_frame:
  "frame_bit f (set_frame a s) \<longleftrightarrow> f = a div PAGE_SIZE \<or> frame_bit f s"
proof (cases "f div 32 = a div PAGE_SIZE div 32")
  case True
  then have "f = a div PAGE_SIZE \<longleftrightarrow> unat (f mod 32) = unat (a div PAGE_SIZE mod 32)"
    by (metis div_mod_32_eq word_unat_eq_iff)
  with True show ?thesis
    using unat_mod32 [of f] by (auto simp: frame_bit_def set_frame_def Let_def bit_simps)
next
  case False
  then show ?thesis by (auto simp: frame_bit_def set_frame_def Let_def)
qed

lemma frame_bit_clear_frame:
  "frame_bit f (clear_frame a s) \<longleftrightarrow> f \<noteq> a div PAGE_SIZE \<and> frame_bit f s"
proof (cases "f div 32 = a div PAGE_SIZE div 32")
  case True
  then have "f = a div PAGE_SIZE \<longleftrightarrow> unat (f mod 32) = unat (a div PAGE_SIZE mod 32)"
    by (metis div_mod_32_eq word_unat_eq_iff)
  with True show ?thesis
    using unat_mod32 [of f] by (auto simp: frame_bit_def clear_frame_def Let_def bit_simps)
next
  case False
  then show ?thesis by (auto simp: frame_bit_def clear_frame_def Let_def)
qed


interpretation fr: bit_set "\<lambda>a. a div PAGE_SIZE" set_frame clear_frame frame_bit
  by unfold_locales (rule frame_bit_set_frame frame_bit_clear_frame)+

subsection \<open>The search for a free frame\<close>

lemma full_word_bit: "j < 32 \<Longrightarrow> bit (0xFFFFFFFF :: u32) j"
proof -
  assume "j < 32"
  then have "bit (- 1 :: u32) j" by (simp add: bit_simps)
  moreover have "(0xFFFFFFFF :: u32) = - 1" by simp
  ultimately show ?thesis by metis
qed

lemma scan_frames_find:
  "scan_frames fr [k..<m] =
    (case find (\<lambda>f. \<not> bit (fr (of_nat (f div 32))) (f mod 32)) [32 * k..<32 * m] of
      Some f \<Rightarrow> of_nat f | None \<Rightarrow> 0)"
proof (induction "m - k" arbitrary: k)
  case 0
  then show ?case by simp
next
  case (Suc n)
  then have km: "k < m" by simp
  let ?w = "fr (of_nat k)"
  let ?P = "\<lambda>f. \<not> bit (fr (of_nat (f div 32))) (f mod 32)"
  have comp: "find (?P \<circ> (\<lambda>j. 32 * k + j)) [0..<32] = find (\<lambda>j. ?w AND push_bit j 1 = 0) [0..<32]"
    by (rule find_cong) (auto simp: and_power_2)
  have split: "find ?P [32 * k..<32 * m] =
      (case find (\<lambda>j. ?w AND push_bit j 1 = 0) [0..<32] of
        Some j \<Rightarrow> Some (32 * k + j) | None \<Rightarrow> find ?P [32 * Suc k..<32 * m])"
    unfolding upt_blocks [OF km] find_append find_map comp by (simp split: option.splits)
  have full: "find (\<lambda>j. ?w AND push_bit j 1 = 0) [0..<32] = None" if "?w = 0xFFFFFFFF"
    using that full_word_bit by (auto simp: find_upt_None and_push_bit_1 simp del: push_bit_of_1)
  have IH: "scan_frames fr [Suc k..<m] = (case find ?P [32 * Suc k..<32 * m] of
      Some f \<Rightarrow> of_nat f | None \<Rightarrow> 0)"
    using Suc by (intro Suc.hyps) simp
  show ?case
    unfolding split upt_conv_Cons [OF km] scan_frames.simps IH
    using full by (cases "find (\<lambda>j. ?w AND push_bit j 1 = 0) [0..<32]") (auto simp: mult.commute)
qed

lemma frame_bit_of_nat:
  "f < 2 ^ 32 \<Longrightarrow> frame_bit (of_nat f) s \<longleftrightarrow> bit (frames s (of_nat (f div 32))) (f mod 32)"
proof -
  assume f: "f < 2 ^ 32"
  then have "(of_nat f :: u32) div 32 = of_nat (f div 32)"
    by (simp add: word_unat_eq_iff unat_div unat_of_nat32)
  moreover have "unat ((of_nat f :: u32) mod 32) = f mod 32"
    using f by (simp add: unat_mod unat_of_nat32)
  ultimately show ?thesis by (simp add: frame_bit_def)
qed

text \<open>The frames the search looks at: whole words only.\<close>

definition searched_frames :: "'a kmem_scheme \<Rightarrow> nat" where
  "searched_frames s = 32 * (unat (nframes s) div 32)"

lemma searched_frames_less: "searched_frames s < 2 ^ 32"
  using unat_less32 [of "nframes s"] by (simp add: searched_frames_def)

lemma first_free_frame_find:
  "first_free_frame s =
    (case find (\<lambda>f. \<not> frame_bit (of_nat f) s) [0..<searched_frames s] of
      Some f \<Rightarrow> of_nat f | None \<Rightarrow> 0)"
proof -
  have "find (\<lambda>f. \<not> bit (frames s (of_nat (f div 32))) (f mod 32)) [0..<searched_frames s]
      = find (\<lambda>f. \<not> frame_bit (of_nat f) s) [0..<searched_frames s]"
    using searched_frames_less [of s] by (intro find_cong) (auto simp: frame_bit_of_nat)
  then show ?thesis
    using scan_frames_find [of "frames s" 0 "unat (nframes s) div 32"]
    by (simp add: first_free_frame_def searched_frames_def unat_div)
qed

lemma first_free_frame_Some:
  assumes "f < searched_frames s" "\<not> frame_bit (of_nat f) s"
  shows "\<exists>g. first_free_frame s = of_nat g \<and> g < searched_frames s \<and> \<not> frame_bit (of_nat g) s \<and>
    (\<forall>h<g. frame_bit (of_nat h) s)"
proof (cases "find (\<lambda>f. \<not> frame_bit (of_nat f) s) [0..<searched_frames s]")
  case None
  with assms show ?thesis by (simp add: find_upt_None)
next
  case (Some g)
  with find_upt_least [OF Some] show ?thesis
    by (auto simp: first_free_frame_find)
qed

lemma first_free_frame_None:
  "\<forall>f < searched_frames s. frame_bit (of_nat f) s \<Longrightarrow> first_free_frame s = 0"
  by (simp add: first_free_frame_find find_upt_None [THEN iffD2])

text \<open>The bitmap covers the 4 GB that \<^verbatim>\<open>MAX_PAGES\<close> stands for, and no more.\<close>

definition nframes_ok :: "'a kmem_scheme \<Rightarrow> bool" where
  "nframes_ok s \<longleftrightarrow> unat (nframes s) \<le> 2 ^ 20"

lemma first_free_frame_bound:
  assumes "nframes_ok s"
  shows "unat (first_free_frame s) < 2 ^ 20"
proof -
  have "searched_frames s \<le> 2 ^ 20"
    using assms by (simp add: nframes_ok_def searched_frames_def)
  then show ?thesis
    by (auto simp: first_free_frame_find unat_of_nat32 split: option.splits dest: find_upt_least)
qed

lemma frame_addr_div:
  assumes "unat (idx :: u32) < 2 ^ 20"
  shows "idx * PAGE_SIZE div PAGE_SIZE = idx"
proof -
  have "unat (idx * 4096) = unat idx * 4096"
    using assms by (simp add: unat_word_ariths)
  then show ?thesis by (simp add: PAGE_SIZE_def word_unat_eq_iff unat_div)
qed

section \<open>Page table entries\<close>

lemma page_bits:
  fixes p f :: u32
  assumes "p AND 0xFFF = 0"
  shows "(p OR (f AND 0xFFF) OR 1) AND NOT 0xFFF = p" "(p OR (f AND 0xFFF) OR 1) AND 1 = 1"
proof -
  have m: "(0xFFF :: u32) = mask 12" by (simp add: mask_eq_exp_minus_1)
  have low: "\<not> bit p n" if "n < 12" for n
  proof -
    have "\<not> bit (p AND 0xFFF) n" using assms by simp
    with that show ?thesis by (auto simp: m bit_simps)
  qed
  show "(p OR (f AND 0xFFF) OR 1) AND NOT 0xFFF = p"
    unfolding m using low by (intro bit_word_eqI) (auto simp: bit_simps linorder_not_less [symmetric])
  show "(p OR (f AND 0xFFF) OR 1) AND 1 = 1"
    by (intro bit_word_eqI) (auto simp: bit_simps)
qed

text \<open>The page directory entry of a page is present, and its table is not where the entry is.\<close>

definition table_present :: "u32 \<Rightarrow> 'a kmem_scheme \<Rightarrow> bool" where
  "table_present v s \<longleftrightarrow> read32 (bytes s) (pde_addr v s) AND 1 \<noteq> 0 \<and>
     block (pte_addr v s) 4 \<inter> block (pde_addr v s) 4 = {}"

lemma pde_addr_map_page [simp]: "pde_addr w (map_page p v f s) = pde_addr w s"
  by (simp add: pde_addr_def map_page_def)

lemma bytes_map_page:
  "bytes (map_page p v f s) = write32 (pte_addr v s) (p OR (f AND 0xFFF) OR 1) (bytes s)"
  by (simp add: map_page_def)

lemma pte_addr_map_page:
  "block (pte_addr v s) 4 \<inter> block (pde_addr w s) 4 = {} \<Longrightarrow>
    pte_addr w (map_page p v f s) = pte_addr w s"
  by (simp add: pte_addr_def bytes_map_page read32_write32_other [folded pte_addr_def])

lemma get_physaddr_map_page:
  assumes "table_present v s" "p AND 0xFFF = 0"
  shows "get_physaddr v (map_page p v f s) = p + (v AND 0xFFF)"
proof -
  have dis: "block (pte_addr v s) 4 \<inter> block (pde_addr v s) 4 = {}"
    and pres: "read32 (bytes s) (pde_addr v s) AND 1 \<noteq> 0"
    using assms(1) by (simp_all add: table_present_def)
  have "read32 (bytes (map_page p v f s)) (pde_addr v s) = read32 (bytes s) (pde_addr v s)"
    by (simp add: bytes_map_page read32_write32_other [OF dis])
  moreover have "read32 (bytes (map_page p v f s)) (pte_addr v s) = p OR (f AND 0xFFF) OR 1"
    by (simp add: bytes_map_page)
  ultimately show ?thesis
    using pres page_bits [OF assms(2), of f]
    by (simp add: get_physaddr_def pte_addr_map_page [OF dis] Let_def)
qed

lemma get_physaddr_map_page_other:
  assumes "block (pte_addr v s) 4 \<inter> block (pde_addr w s) 4 = {}"
    and "block (pte_addr v s) 4 \<inter> block (pte_addr w s) 4 = {}"
  shows "get_physaddr w (map_page p v f s) = get_physaddr w s"
  using assms
  by (simp add: get_physaddr_def pte_addr_map_page bytes_map_page read32_write32_other Let_def)

lemma get_physaddr_map_page_absent:
  assumes "read32 (bytes s) (pde_addr v s) AND 1 = 0"
    and "block (pte_addr v s) 4 \<inter> block (pde_addr v s) 4 = {}"
  shows "get_physaddr v (map_page p v f s) = 0"
  using assms by (simp add: get_physaddr_def bytes_map_page read32_write32_other)

section \<open>Allocating a frame\<close>

lemma frame_addr_low: "(idx * PAGE_SIZE) AND 0xFFF = 0"
proof -
  have "idx * PAGE_SIZE = push_bit 12 idx"
    by (simp add: PAGE_SIZE_def push_bit_eq_mult mult.commute)
  moreover have "push_bit 12 idx AND mask 12 = 0"
    by (intro bit_word_eqI) (auto simp: bit_simps)
  ultimately show ?thesis by (simp add: mask_eq_exp_minus_1)
qed

lemma frame_addr_offset_div:
  assumes "unat (idx :: u32) < 2 ^ 20"
  shows "(idx * PAGE_SIZE + (v AND 0xFFF)) div PAGE_SIZE = idx"
proof -
  have "unat (idx * 4096) = unat idx * 4096"
    using assms by (simp add: unat_word_ariths)
  moreover have "unat (v AND 0xFFF) < 4096" by (rule low12_less)
  moreover from calculation have
    "unat (idx * 4096 + (v AND 0xFFF)) = unat idx * 4096 + unat (v AND 0xFFF)"
    using assms by (intro trans [OF unat_plus_no_wrap]) auto
  ultimately show ?thesis by (simp add: PAGE_SIZE_def word_unat_eq_iff unat_div)
qed

lemma and_1_iff: "(x :: u32) AND 1 \<noteq> 0 \<longleftrightarrow> bit x 0"
  by (simp add: and_one_eq bit_0 odd_iff_mod_2_eq_one)

lemma frame_ops_frames [simp]:
  "frames (set_used_fields fp k s) = frames s" "frames (map_page p v f s) = frames s"
  "frames (clear_used_fields fp s) = frames s"
  by (simp_all add: set_used_fields_def map_page_def clear_used_fields_def Let_def)

lemma frame_ops_bytes [simp]: "bytes (set_frame a s) = bytes s" "bytes (clear_frame a s) = bytes s"
  by (simp_all add: set_frame_def clear_frame_def Let_def)

lemma frame_ops_pd [simp]:
  "page_directory (set_frame a s) = page_directory s"
  "page_directory (set_used_fields fp k s) = page_directory s"
  by (simp_all add: set_frame_def set_used_fields_def Let_def)

lemma frame_bit_cong: "frames s = frames t \<Longrightarrow> frame_bit f s = frame_bit f t"
  by (simp add: frame_bit_def)

text \<open>The word that marks a structure as used has its lowest bit set, and only it is written.\<close>

lemma set_used_fields_bytes:
  "\<exists>w. bytes (set_used_fields fp k s) = write32 (fp + 4) w (bytes s) \<and> w AND 1 \<noteq> 0"
  unfolding and_1_iff set_used_fields_def Let_def by (auto simp: bit_simps)

lemma table_after_used:
  assumes "block (fp + 4) 4 \<inter> block (pde_addr v s) 4 = {}" "table_present v s"
  shows "pde_addr v (set_used_fields fp k (set_frame a s)) = pde_addr v s"
    and "pte_addr v (set_used_fields fp k (set_frame a s)) = pte_addr v s"
    and "table_present v (set_used_fields fp k (set_frame a s))"
proof -
  obtain w where w: "bytes (set_used_fields fp k (set_frame a s)) = write32 (fp + 4) w (bytes s)"
    using set_used_fields_bytes [of fp k "set_frame a s"] by auto
  show pde: "pde_addr v (set_used_fields fp k (set_frame a s)) = pde_addr v s"
    by (simp add: pde_addr_def)
  moreover show pte: "pte_addr v (set_used_fields fp k (set_frame a s)) = pte_addr v s"
    unfolding pte_addr_def pde by (simp add: w read32_write32_other [OF assms(1)])
  ultimately show "table_present v (set_used_fields fp k (set_frame a s))"
    using assms(2) unfolding table_present_def by (simp add: w read32_write32_other [OF assms(1)])
qed

section \<open>Properties\<close>


text \<open>A directory at 0x8000 whose first entry points to a table at 0x9000.\<close>

definition kmem_paged :: kmem where
  "kmem_paged = kmem0\<lparr>bytes := write32 0x8000 0x9003 (\<lambda>_. 0)\<rparr>"


text \<open>
  \<^verbatim>\<open>first_free_frame\<close> returns the lowest free frame of the bitmap words it searches, and
  0 when all of them are in use.
\<close>

theorem first_free_frame_least:
  "first_free_frame s =
    (if \<exists>f < searched_frames s. \<not> frame_bit (of_nat f) s
     then of_nat (LEAST f. \<not> frame_bit (of_nat f) s) else 0)"
proof (cases "\<exists>f < searched_frames s. \<not> frame_bit (of_nat f) s")
  case True
  then obtain g where "first_free_frame s = of_nat g" "\<not> frame_bit (of_nat g) s"
      "\<forall>h<g. frame_bit (of_nat h) s"
    using first_free_frame_Some by blast
  moreover from this have "(LEAST f. \<not> frame_bit (of_nat f) s) = g"
    by (intro Least_equality) (auto simp: not_less [symmetric])
  ultimately show ?thesis using True by simp
next
  case False
  then show ?thesis by (auto intro: first_free_frame_None)
qed

text \<open>
  C37: the out-of-memory check of \<^verbatim>\<open>alloc_frame\<close> is dead code. With a bitmap of at most
  \<^verbatim>\<open>MAX_PAGES\<close> frames \<^verbatim>\<open>alloc_frame\<close> always returns; when no frame is free it hands out frame 0
  once more, which was in use, and maps the page to it.
\<close>

theorem alloc_frame_exhausted:
  assumes "nframes_ok s" "\<not> frame_used fp s" "\<forall>f < searched_frames s. frame_bit (of_nat f) s"
  shows "alloc_frame fp is_kernel is_writeable s =
    Some (map_page 0 fp (MEMORY_PRESENT OR (if is_writeable then MEMORY_READWRITE else 0)
            OR (if \<not> is_kernel then MEMORY_USER else 0))
          (set_used_fields fp is_kernel (set_frame 0 s)))"
  using assms by (simp add: alloc_frame_def first_free_frame_None Let_def)

text \<open>A machine with 32 frames, all of them in use.\<close>

definition kmem_full :: kmem where
  "kmem_full = kmem_paged\<lparr>nframes := 32, frames := (\<lambda>_. 0xFFFFFFFF)\<rparr>"

theorem alloc_frame_exhausted_witness:
  "\<exists>t. alloc_frame 0x3000 True True kmem_full = Some t \<and> frame_bit 0 kmem_full
    \<and> frames t 0 = 0xFFFFFFFF"
proof -
  have full: "\<forall>f < searched_frames kmem_full. frame_bit (of_nat f) kmem_full"
    using full_word_bit unat_mod32 by (simp add: frame_bit_def kmem_full_def)
  have "nframes_ok kmem_full" "\<not> frame_used 0x3000 kmem_full"
    by (simp_all add: nframes_ok_def frame_used_def kmem_full_def kmem_paged_def kmem0_def
        read32_def write32_def)
  from alloc_frame_exhausted [OF this full, of True True] show ?thesis
    using full_word_bit [of 0]
    by (simp add: frame_bit_def set_frame_def kmem_full_def Let_def)
qed

text \<open>
  C13: \<^verbatim>\<open>free_frame\<close> gives back what \<^verbatim>\<open>alloc_frame\<close> took. If a frame is free, the page table of
  the frame structure's address is present, and the table words do not overlap the structure,
  allocating and freeing a frame leaves the set of frames in use as it was.
\<close>

theorem alloc_free_frame:
  assumes "nframes_ok s" "\<not> frame_used fp s"
    and "\<exists>f < searched_frames s. \<not> frame_bit (of_nat f) s"
    and "table_present fp s"
    and "block (fp + 4) 4 \<inter> block (pde_addr fp s) 4 = {}"
    and "block (fp + 4) 4 \<inter> block (pte_addr fp s) 4 = {}"
  shows "\<exists>t. alloc_frame fp is_kernel is_writeable s = Some t \<and> frame_used fp t \<and>
    (\<forall>f. frame_bit f (free_frame fp t) = frame_bit f s)"
proof -
  let ?a = "first_free_frame s * PAGE_SIZE"
  let ?f = "MEMORY_PRESENT OR (if is_writeable then MEMORY_READWRITE else 0)
    OR (if \<not> is_kernel then MEMORY_USER else 0)"
  let ?u = "set_used_fields fp is_kernel (set_frame ?a s)"
  let ?t = "map_page ?a fp ?f ?u"
  have bound: "unat (first_free_frame s) < 2 ^ 20" by (rule first_free_frame_bound [OF assms(1)])
  have free: "\<not> frame_bit (first_free_frame s) s"
    using assms(3) first_free_frame_Some by metis
  from bound have "first_free_frame s \<noteq> 0xFFFFFFFF" by auto
  then have alloc: "alloc_frame fp is_kernel is_writeable s = Some ?t"
    using assms(2) by (simp add: alloc_frame_def Let_def)
  note tab = table_after_used [OF assms(5,4), of is_kernel ?a]
  obtain w where w: "bytes ?u = write32 (fp + 4) w (bytes s)" "w AND 1 \<noteq> 0"
    using set_used_fields_bytes [of fp is_kernel "set_frame ?a s"] by auto
  have dis: "block (pte_addr fp s) 4 \<inter> block (fp + 4) 4 = {}" using assms(6) by blast
  have used: "frame_used fp ?t"
    using w by (simp add: frame_used_def bytes_map_page tab read32_write32_other [OF dis])
  have "get_physaddr fp ?t = ?a + (fp AND 0xFFF)"
    by (rule get_physaddr_map_page [OF tab(3) frame_addr_low])
  then have key: "get_physaddr fp ?t div PAGE_SIZE = first_free_frame s"
    using frame_addr_offset_div [OF bound] by simp
  have "frame_bit f (free_frame fp ?t) = frame_bit f s" for f
  proof -
    have "frame_bit f (free_frame fp ?t) = frame_bit f (clear_frame (get_physaddr fp ?t) ?t)"
      using used by (intro frame_bit_cong) (simp add: free_frame_def)
    also have "\<dots> \<longleftrightarrow> f \<noteq> first_free_frame s \<and> frame_bit f ?t"
      by (simp only: fr.mem_del key)
    also have "frame_bit f ?t = frame_bit f (set_frame ?a s)"
      by (rule frame_bit_cong) simp
    also have "f \<noteq> first_free_frame s \<and> frame_bit f (set_frame ?a s) \<longleftrightarrow>
        f \<noteq> first_free_frame s \<and> frame_bit f s"
      by (auto simp: fr.mem_ins frame_addr_div [OF bound])
    also have "\<dots> = frame_bit f s"
      using free by auto
    finally show ?thesis .
  qed
  with alloc used show ?thesis by blast
qed

text \<open>A machine with 32 frames of which the first two are in use.\<close>

definition kmem_two :: kmem where
  "kmem_two = kmem_paged\<lparr>nframes := 32, frames := (\<lambda>_. 3)\<rparr>"

theorem alloc_free_frame_witness:
  "\<exists>t. alloc_frame 0x3000 True False kmem_two = Some t
    \<and> frame_bit 2 (free_frame 0x3000 t) = frame_bit 2 kmem_two"
proof -
  have addrs: "pde_addr 0x3000 kmem_two = 0x8000" "pte_addr 0x3000 kmem_two = 0x900C"
    by (simp_all add: pde_addr_def pte_addr_def pdindex_def ptindex_def kmem_two_def kmem_paged_def
        kmem0_def)
  have "table_present 0x3000 kmem_two"
    by (simp add: table_present_def addrs block4) (simp add: kmem_two_def kmem_paged_def)
  moreover have "nframes_ok kmem_two" "\<not> frame_used 0x3000 kmem_two"
    by (simp_all add: nframes_ok_def frame_used_def kmem_two_def kmem_paged_def kmem0_def
        read32_def write32_def)
  moreover have "\<exists>f < searched_frames kmem_two. \<not> frame_bit (of_nat f) kmem_two"
    by (rule exI [of _ 2]) (simp add: searched_frames_def frame_bit_def kmem_two_def)
  ultimately show ?thesis
    using alloc_free_frame [of kmem_two "0x3000" True False] by (fastforce simp: addrs block4)
qed

end
