(* ===== verification/MemoryInit.thy ===== *)
theory MemoryInit
  imports Paging
begin

text \<open>
  Start-up of the memory manager (\<^verbatim>\<open>src/kernel/mm/memory.c\<close>): \<^verbatim>\<open>init_memory\<close>, which fills
  the region table and the frame bitmap, \<^verbatim>\<open>get_page\<close>, which looks a page-table entry up and
  creates its table on demand, \<^verbatim>\<open>init_paging\<close>, and the reports \<^verbatim>\<open>memory_info\<close> and
  \<^verbatim>\<open>handle_page_fault\<close>.
\<close>

section \<open>Page directories\<close>

text \<open>
  \<^verbatim>\<open>page_directory_t\<close> in memory: 1024 table pointers, 1024 physical entries at offset 4096 and
  the physical address of the directory at offset 8192.
\<close>

definition dir_table :: "u32 \<Rightarrow> u32 \<Rightarrow> u32" where
  "dir_table d i = d + 4 * i"

definition dir_table_physical :: "u32 \<Rightarrow> u32 \<Rightarrow> u32" where
  "dir_table_physical d i = d + 4096 + 4 * i"

definition get_page :: "u32 \<Rightarrow> bool \<Rightarrow> u32 \<Rightarrow> 'a kmem_scheme \<Rightarrow> u32 \<times> 'a kmem_scheme" where
  "get_page address mk d s =
     (let page = address div PAGE_SIZE; ti = page div 1024; off = 4 * (page mod 1024)
      in if mk \<and> read32 (bytes s) (dir_table d ti) = 0
         then let (t, phys, s1) = kmalloc_aligned_physical 4096 s;
                  m1 = write32 (dir_table d ti) t (bytes s1);
                  m2 = write32 (dir_table_physical d ti)
                    (the phys OR MEMORY_PRESENT OR MEMORY_READWRITE OR MEMORY_USER) m1;
                  s2 = memset (read32 m2 (dir_table d ti)) 0 4096 (s1\<lparr>bytes := m2\<rparr>)
              in (read32 (bytes s2) (dir_table d ti) + off, s2)
         else let t = read32 (bytes s) (dir_table d ti)
              in (if t \<noteq> 0 then t + off else 0, s))"

text \<open>
  What the processor does with an address once paging is on: the walk through the directory at
  \<open>dir\<close> (the upper twenty bits of CR3) and a page table, each entry with its present bit; no
  large pages, which nothing switches on.
\<close>

definition pde_word :: "u32 \<Rightarrow> u32 \<Rightarrow> u32" where
  "pde_word dir v = (dir AND NOT 0xFFF) + 4 * drop_bit 22 v"

definition pte_word :: "(u32 \<Rightarrow> u8) \<Rightarrow> u32 \<Rightarrow> u32 \<Rightarrow> u32" where
  "pte_word mem dir v = (read32 mem (pde_word dir v) AND NOT 0xFFF) + 4 * (drop_bit 12 v AND 0x3FF)"

definition translate :: "(u32 \<Rightarrow> u8) \<Rightarrow> u32 \<Rightarrow> u32 \<Rightarrow> u32 option" where
  "translate mem dir v =
     (if read32 mem (pde_word dir v) AND 1 = 0 then None
      else let pte = read32 mem (pte_word mem dir v)
        in if pte AND 1 = 0 then None else Some ((pte AND NOT 0xFFF) + (v AND 0xFFF)))"

text \<open>
  The pages the running kernel needs: the text screen, and the image with its stack and heap,
  which \<^verbatim>\<open>scripts/link.ld\<close> puts at 1 MB.
\<close>

definition kernel_pages :: "u32 \<Rightarrow> u32 list" where
  "kernel_pages image_end = 0xB8000 # map (\<lambda>i. of_nat i * PAGE_SIZE) [0x100..<(unat image_end + 4095) div 4096]"

definition maps_kernel :: "(u32 \<Rightarrow> u8) \<Rightarrow> u32 \<Rightarrow> u32 \<Rightarrow> bool" where
  "maps_kernel mem dir image_end \<longleftrightarrow> list_all (\<lambda>v. translate mem dir v = Some v) (kernel_pages image_end)"

text \<open>
  \<^verbatim>\<open>switch_page_directory\<close> loads CR3 and sets the paging bit of CR0. \<^const>\<open>None\<close> is the processor
  that cannot go on: with a page of the kernel or the screen not mapped to itself the next
  instruction, or the next access, faults, and no fault handler is mapped either.
\<close>

definition switch_page_directory :: "u32 \<Rightarrow> 'a kmem_scheme \<Rightarrow> 'a kmem_scheme option" where
  "switch_page_directory d s =
     (let s1 = s\<lparr>current_directory := d, cr3 := read32 (bytes s) (d + 8192), cr0 := cr0 s OR 0x80000000\<rparr>
      in if maps_kernel (bytes s1) (cr3 s1) (kernel_end s1) then Some s1 else None)"

text \<open>The loop of \<^verbatim>\<open>init_paging\<close> over the first 1024 pages.\<close>

fun map_kernel :: "u32 \<Rightarrow> nat list \<Rightarrow> 'a kmem_scheme \<Rightarrow> 'a kmem_scheme option" where
  "map_kernel d [] s = Some s"
| "map_kernel d (i # is) s =
     (let (page, s1) = get_page (of_nat i * PAGE_SIZE) True d s
      in alloc_frame page True False s1 \<bind> map_kernel d is)"

definition init_paging :: "'a kmem_scheme \<Rightarrow> 'a kmem_scheme option" where
  "init_paging s =
     (let s1 = puts (''Sayfalama sistemi baslatiliyor...'' @ newline) s;
          (d, s2) = kmalloc_aligned 8196 s1;
          s3 = memset d 0 8196 (s2\<lparr>kernel_directory := d\<rparr>);
          s4 = s3\<lparr>current_directory := d\<rparr>
      in do {
        s5 \<leftarrow> map_kernel d [0..<1024] s4;
        s6 \<leftarrow> switch_page_directory (kernel_directory s5) s5;
        Some (puts (''Sayfalama sistemi baslatildi.'' @ newline) s6)
      })"

section \<open>Start-up\<close>

definition boot_regions :: "memory_region list \<Rightarrow> memory_region list" where
  "boot_regions rs =
     rs[0 := \<lparr>mr_base_addr = 0x100000, mr_length = 96 * 1024 * 1024, mr_type = 1\<rparr>,
        1 := \<lparr>mr_base_addr = 96 * 1024 * 1024 + 0x100000, mr_length = 32 * 1024 * 1024, mr_type = 2\<rparr>]"

definition boot_pmm :: physical_memory_manager where
  "boot_pmm = \<lparr>total_memory = 128 * 1024, usable_memory = 96 * 1024, free_memory = 96 * 1024,
     used_memory = 0, reserved_memory = 32 * 1024, num_regions = 2\<rparr>"

definition report_kb :: "string \<Rightarrow> u32 \<Rightarrow> string \<Rightarrow> 'a kmem_scheme \<Rightarrow> 'a kmem_scheme" where
  "report_kb label n unit s = puts unit (emit (Print_int n) (puts label s))"

text \<open>The two loops over the bitmap: clear the words in use, then reserve the first megabyte.\<close>

definition init_frames :: "'a kmem_scheme \<Rightarrow> 'a kmem_scheme" where
  "init_frames s =
     (let s1 = s\<lparr>nframes := total_memory (phys_mem_mgr s) * 1024 div PAGE_SIZE\<rparr>;
          s2 = fold (\<lambda>i t. t\<lparr>frames := (frames t)(of_nat i := 0)\<rparr>) [0..<unat (nframes s1 div 32)] s1
      in fold (\<lambda>i. set_frame (of_nat i * PAGE_SIZE)) [0..<256] s2)"

definition init_memory :: "'a kmem_scheme \<Rightarrow> 'a kmem_scheme option" where
  "init_memory s =
     (let s1 = puts (''Fiziksel bellek yoneticisi baslatiliyor...'' @ newline) s;
          s2 = s1\<lparr>heap_end := kernel_heap s1, phys_mem_mgr := boot_pmm,
            memory_regions := boot_regions (memory_regions s1)\<rparr>;
          s3 = report_kb ''  Toplam Bellek: '' (total_memory (phys_mem_mgr s2)) ('' KB'' @ newline) s2;
          s4 = report_kb ''  Kullanilabilir Bellek: '' (usable_memory (phys_mem_mgr s3))
            ('' KB'' @ newline) s3;
          s5 = report_kb ''  Ayrilmis Bellek: '' (reserved_memory (phys_mem_mgr s4))
            ('' KB'' @ newline @ newline) s4
      in init_paging (init_frames s5) \<bind> (\<lambda>s6.
         Some (puts (''Bellek yonetimi baslatildi.'' @ newline) s6)))"

section \<open>Reports\<close>

definition memory_info :: "'a kmem_scheme \<Rightarrow> 'a kmem_scheme" where
  "memory_info s =
     (let kb = '' KB'' @ newline;
          s1 = emit Reset_color (puts (''----------------'' @ newline)
            (puts (newline @ ''Bellek Bilgileri:'' @ newline) (emit (Set_fg VGA_COLOR_LIGHT_CYAN) s)));
          s2 = report_kb ''Toplam Bellek: '' (total_memory (phys_mem_mgr s)) kb s1;
          s3 = report_kb ''Kullanilabilir Bellek: '' (usable_memory (phys_mem_mgr s)) kb s2;
          s4 = report_kb ''Bos Bellek: '' (free_memory (phys_mem_mgr s)) kb s3;
          s5 = report_kb ''Kullanilan Bellek: '' (used_memory (phys_mem_mgr s)) kb s4;
          s6 = report_kb ''Ayrilmis Bellek: '' (reserved_memory (phys_mem_mgr s)) kb s5;
          s7 = report_kb ''Cekirdek Yigin Durumu: '' (heap_end s - kernel_heap s) '' / '' s6
      in puts newline (puts ('' byte kullaniliyor'' @ newline) (emit (Print_int HEAP_SIZE) s7)))"

text \<open>\<^verbatim>\<open>handle_page_fault\<close> ends in an endless loop; this is the state it hangs in.\<close>

definition handle_page_fault :: "u32 \<Rightarrow> u32 \<Rightarrow> 'a kmem_scheme \<Rightarrow> 'a kmem_scheme" where
  "handle_page_fault error_code address s =
     (let s1 = puts '' ('' (emit (Print_hex address) (puts ''SAYFA HATASI: 0x''
            (emit (Set_fg VGA_COLOR_RED) s)));
          s2 = puts (if error_code AND 1 = 0 then ''sayfa mevcut degil''
            else ''sayfa koruma ihlali'') s1;
          s3 = puts (if error_code AND 2 \<noteq> 0 then '', yazma'' else '', okuma'') s2;
          s4 = puts (if error_code AND 4 \<noteq> 0 then '', kullanici modu'' else '', cekirdek modu'') s3
      in emit Reset_color (puts ('')'' @ newline) s4))"

section \<open>Lemmas\<close>

lemma read32_memset_outside:
  "block p n \<inter> block a 4 = {} \<Longrightarrow> read32 (memset_bytes p c n m) a = read32 m a"
  unfolding block4 by (auto simp: read32_def memset_bytes_eq)

lemma frames_fold_clear:
  "frames (fold (\<lambda>i t. t\<lparr>frames := (frames t)(of_nat i := 0)\<rparr>) is s) w
    = (if w \<in> of_nat ` set is then 0 else frames s w)"
  by (induction "is" arbitrary: s) auto

lemma fold_set_frame_of_nat:
  "fold (\<lambda>i. set_frame (of_nat i * PAGE_SIZE)) is s = fold set_frame (map (\<lambda>i. of_nat i * PAGE_SIZE) is) s"
  by (simp add: fold_map comp_def)

lemma nframes_set_frames: "nframes (fold (\<lambda>i. set_frame (h i)) is s) = nframes s"
  by (induction "is" arbitrary: s) (simp_all add: set_frame_def Let_def)

lemma nframes_fold_clear:
  "nframes (fold (\<lambda>i t. t\<lparr>frames := (frames t)(of_nat i := 0)\<rparr>) is s) = nframes s"
  by (induction "is" arbitrary: s) auto

section \<open>Properties\<close>

text \<open>
  The bitmap that \<^verbatim>\<open>init_memory\<close> sets up describes 128 MB: 32768 frames, of which exactly
  the 256 frames of the first megabyte are in use.
\<close>

theorem init_frames_reserves_first_mb:
  assumes "total_memory (phys_mem_mgr s) = 128 * 1024"
  shows "nframes (init_frames s) = 32768 \<and>
    (\<forall>f < 32768. frame_bit (of_nat f) (init_frames s) \<longleftrightarrow> f < 256)"
proof -
  let ?s1 = "s\<lparr>nframes := total_memory (phys_mem_mgr s) * 1024 div PAGE_SIZE\<rparr>"
  let ?s2 = "fold (\<lambda>i t. t\<lparr>frames := (frames t)(of_nat i := 0)\<rparr>) [0..<1024] ?s1"
  have n: "total_memory (phys_mem_mgr s) * 1024 div PAGE_SIZE = 32768"
    by (simp add: assms PAGE_SIZE_def)
  then have init: "init_frames s = fold (\<lambda>i. set_frame (of_nat i * PAGE_SIZE)) [0..<256] ?s2"
    by (simp add: init_frames_def Let_def)
  have clear: "\<not> frame_bit (of_nat f) ?s2" if "f < 32768" for f
  proof -
    have "f div 32 \<in> {0..<1024}" using that by auto
    then show ?thesis using that by (simp add: frame_bit_of_nat frames_fold_clear)
  qed
  have "frame_bit (of_nat f) (init_frames s) \<longleftrightarrow> f < 256" if "f < 32768" for f
  proof -
    have "frame_bit (of_nat f) (init_frames s) \<longleftrightarrow>
        (of_nat f :: u32) \<in> (\<lambda>a. a div PAGE_SIZE) ` (\<lambda>i. of_nat i * PAGE_SIZE) ` {0..<256}"
      using clear [OF that] by (simp add: init fold_set_frame_of_nat fr.mem_fold_ins)
    also have "(\<lambda>a. a div PAGE_SIZE) ` (\<lambda>i. of_nat i * PAGE_SIZE) ` {0..<256} = of_nat ` {0..<256}"
      unfolding image_image by (intro image_cong refl frame_addr_div) (simp add: unat_of_nat32)
    also have "of_nat f \<in> (of_nat ` {0..<256} :: u32 set) \<longleftrightarrow> f < 256"
      using that by (auto simp: of_nat32_eq_iff)
    finally show ?thesis .
  qed
  moreover have "nframes (init_frames s) = 32768"
    using n by (simp add: init nframes_set_frames nframes_fold_clear)
  ultimately show ?thesis by blast
qed

theorem init_frames_reserves_first_mb_witness:
  "frame_bit 255 (init_frames (kmem0\<lparr>phys_mem_mgr := boot_pmm\<rparr>))
    \<and> \<not> frame_bit 256 (init_frames (kmem0\<lparr>phys_mem_mgr := boot_pmm\<rparr>))"
proof -
  have "total_memory (phys_mem_mgr (kmem0\<lparr>phys_mem_mgr := boot_pmm\<rparr>)) = 128 * 1024"
    by (simp add: boot_pmm_def)
  from init_frames_reserves_first_mb [OF this]
  have "\<forall>f < 32768. frame_bit (of_nat f) (init_frames (kmem0\<lparr>phys_mem_mgr := boot_pmm\<rparr>)) \<longleftrightarrow> f < 256"
    by blast
  from this [rule_format, of 255] this [rule_format, of 256] show ?thesis by simp
qed

text \<open>
  \<^verbatim>\<open>get_page\<close> with \<^verbatim>\<open>make\<close> leaves a table behind that the next lookup finds: it returns the
  same entry and changes nothing, provided the heap pointer is not null and the fresh table
  and the directory's two slots are disjoint memory.
\<close>

theorem get_page_then_lookup:
  assumes "get_page a True d s = (e, t)"
    and "ti = a div PAGE_SIZE div 1024" and "page_up (heap_end s) \<noteq> 0"
    and "block (page_up (heap_end s)) 4096 \<inter> block (dir_table d ti) 4 = {}"
    and "block (dir_table_physical d ti) 4 \<inter> block (dir_table d ti) 4 = {}"
  shows "get_page a False d t = (e, t) \<and> get_page a True d t = (e, t) \<and>
    read32 (bytes t) (dir_table d ti) \<noteq> 0"
proof (cases "read32 (bytes s) (dir_table d ti) = 0")
  case False
  with assms(1,2) show ?thesis by (auto simp: get_page_def Let_def split: if_splits)
next
  case True
  let ?T = "page_up (heap_end s)"
  have km: "\<exists>p s1. kmalloc_aligned_physical 4096 s = (?T, Some p, s1)"
    by (simp add: kmalloc_aligned_physical_def kmalloc_internal_def page_up_def Let_def)
  then obtain p s1 where k: "kmalloc_aligned_physical 4096 s = (?T, Some p, s1)" by blast
  let ?m2 = "write32 (dir_table_physical d ti)
    (p OR MEMORY_PRESENT OR MEMORY_READWRITE OR MEMORY_USER) (write32 (dir_table d ti) ?T (bytes s1))"
  have r2: "read32 ?m2 (dir_table d ti) = ?T"
    by (simp add: read32_write32_other [OF assms(5)])
  have r3: "read32 (memset_bytes ?T 0 4096 ?m2) (dir_table d ti) = ?T"
    using r2 by (simp add: read32_memset_outside [OF assms(4)])
  from assms(1) True k have e: "e = ?T + 4 * (a div PAGE_SIZE mod 1024)"
      and t: "bytes t = memset_bytes ?T 0 4096 ?m2"
    using r3 by (auto simp: get_page_def Let_def assms(2) [symmetric] r2 memset_def)
  have "read32 (bytes t) (dir_table d ti) = ?T" by (simp add: t r3)
  with assms(3) e show ?thesis
    by (simp add: get_page_def Let_def assms(2) [symmetric])
qed

theorem get_page_then_lookup_witness:
  "\<exists>e t. get_page 0x5000 True 0x20000 kmem0 = (e, t) \<and> get_page 0x5000 False 0x20000 t = (e, t)"
proof -
  obtain e t where g: "get_page 0x5000 True 0x20000 kmem0 = (e, t)" by fastforce
  have up: "page_up (heap_end kmem0) = 0x100000"
    by (simp add: page_up_def kmem0_def)
  have "block 0x100000 4096 \<inter> block 0x20000 4 = ({} :: u32 set)"
    by (auto simp: in_block_interval)
  then show ?thesis
    using get_page_then_lookup [OF g, of 0] g
    by (simp add: up PAGE_SIZE_def dir_table_def dir_table_physical_def block4)
qed

section \<open>The frame loop\<close>

lemma alloc_frame_Some:
  assumes "nframes_ok s"
  shows "\<exists>t. alloc_frame fp k w s = Some t \<and> nframes t = nframes s \<and> kmem.more t = kmem.more s"
proof -
  have "unat (first_free_frame s) < 2 ^ 20" by (rule first_free_frame_bound [OF assms])
  then have "first_free_frame s \<noteq> 0xFFFFFFFF" by auto
  then show ?thesis
    by (simp add: alloc_frame_def Let_def set_frame_def set_used_fields_def map_page_def)
qed

lemma get_page_frame:
  "nframes (snd (get_page a mk d s)) = nframes s" "kmem.more (snd (get_page a mk d s)) = kmem.more s"
  by (simp_all add: get_page_def Let_def kmalloc_aligned_physical_def kmalloc_internal_def memset_def)

lemma map_kernel_Some:
  "nframes_ok s \<Longrightarrow> \<exists>t. map_kernel d is s = Some t \<and> kmem.more t = kmem.more s"
proof (induction "is" arbitrary: s)
  case (Cons i "is")
  let ?s1 = "snd (get_page (of_nat i * PAGE_SIZE) True d s)"
  have "nframes_ok ?s1" using Cons.prems by (simp add: nframes_ok_def get_page_frame)
  then obtain t where t: "alloc_frame (fst (get_page (of_nat i * PAGE_SIZE) True d s)) True False ?s1 = Some t"
    "nframes t = nframes ?s1" "kmem.more t = kmem.more ?s1"
    using alloc_frame_Some by blast
  then have "nframes_ok t" using \<open>nframes_ok ?s1\<close> by (simp add: nframes_ok_def)
  with Cons.IH [OF this] t show ?case by (auto simp: case_prod_beta Let_def get_page_frame)
qed simp

lemma more_simps [simp]:
  "kmem.more (emit c s) = kmem.more s" "kmem.more (report_kb l n u s) = kmem.more s"
  "kmem.more (set_frame a s) = kmem.more s" "kmem.more (memset p b k s) = kmem.more s"
  "phys_mem_mgr (report_kb l n u s) = phys_mem_mgr s"
  by (simp_all add: emit_def report_kb_def set_frame_def memset_def Let_def)

lemma more_fold: "(\<And>i s. kmem.more (f i s) = kmem.more s) \<Longrightarrow> kmem.more (fold f is s) = kmem.more s"
  by (induction "is" arbitrary: s) simp_all

lemma init_frames_frame: "kmem.more (init_frames s) = kmem.more s"
  "nframes (init_frames s) = total_memory (phys_mem_mgr s) * 1024 div PAGE_SIZE"
  by (simp_all add: init_frames_def Let_def more_fold nframes_set_frames nframes_fold_clear del: upt_rec_numeral)


section \<open>Enabling paging\<close>

lemma read32_cong: "\<forall>a \<in> block p 4. m' a = m a \<Longrightarrow> read32 m' p = read32 m p"
  by (simp add: read32_def block4)

lemma sub_block: "a + n \<le> N \<Longrightarrow> block (p + of_nat a) n \<subseteq> block p N"
proof
  fix x assume "x \<in> block (p + of_nat a) n" and le: "a + n \<le> N"
  then obtain i where "i < n" "x = p + of_nat (a + i)" by (auto simp: block_def add.assoc)
  with le show "x \<in> block p N" unfolding block_def by (intro image_eqI [of _ _ "a + i"]) auto
qed

lemma sub_blocks_disjoint:
  assumes "a + n \<le> b" "b + k \<le> 2 ^ 32"
  shows "block (p + of_nat a) n \<inter> block (p + of_nat b) k = {}"
proof (rule ccontr)
  assume "block (p + of_nat a) n \<inter> block (p + of_nat b) k \<noteq> {}"
  then obtain i j where "i < n" "j < k" "(of_nat (a + i) :: u32) = of_nat (b + j)"
    by (auto simp: block_def add.assoc)
  with assms show False by (simp only: of_nat32_eq_iff)
qed

text \<open>The bytes a walk of the processor reads.\<close>

definition walk_bytes :: "(u32 \<Rightarrow> u8) \<Rightarrow> u32 \<Rightarrow> u32 \<Rightarrow> u32 set" where
  "walk_bytes mem dir v = block (pde_word dir v) 4 \<union>
     (if read32 mem (pde_word dir v) AND 1 = 0 then {} else block (pte_word mem dir v) 4)"

lemma translate_cong:
  assumes "\<forall>a \<in> walk_bytes m dir v. m' a = m a"
  shows "translate m' dir v = translate m dir v"
proof -
  have d: "read32 m' (pde_word dir v) = read32 m (pde_word dir v)"
    using assms by (intro read32_cong) (simp add: walk_bytes_def)
  then have p: "pte_word m' dir v = pte_word m dir v" by (simp add: pte_word_def)
  have "read32 m' (pte_word m dir v) = read32 m (pte_word m dir v)"
    if "read32 m (pde_word dir v) AND 1 \<noteq> 0"
    using assms that by (intro read32_cong) (simp add: walk_bytes_def)
  with d p show ?thesis by (auto simp: translate_def)
qed

lemma maps_kernel_cong:
  assumes "\<forall>v \<in> set (kernel_pages e). \<forall>a \<in> walk_bytes m dir v. m' a = m a"
  shows "maps_kernel m' dir e = maps_kernel m dir e"
proof -
  have "translate m' dir v = translate m dir v" if "v \<in> set (kernel_pages e)" for v
    using assms that translate_cong by blast
  then show ?thesis by (simp add: maps_kernel_def list_all_iff)
qed

text \<open>
  Where \<^verbatim>\<open>init_paging\<close> puts the directory and its first table, and the one word that all its
  calls of \<^verbatim>\<open>map_page\<close> write: the frame structures are the words of one table, so one page.
\<close>

definition boot_directory :: "'a kmem_scheme \<Rightarrow> u32" where
  "boot_directory s = page_up (kernel_heap s)"

definition stray_word :: "'a kmem_scheme \<Rightarrow> u32" where
  "stray_word s = pte_addr (boot_directory s + 0x3000) s"

definition boot_written :: "'a kmem_scheme \<Rightarrow> u32 set" where
  "boot_written s = block (boot_directory s) 0x4004 \<union> block (stray_word s) 4"

text \<open>
  The layout in which the start-up code does not overwrite what it reads: the heap does not wrap
  around, the stray word is not in the new tables, and neither covers the entry of
  \<^verbatim>\<open>page_directory\<close> it is found through, or the words at which the processor will look.
\<close>

definition start_layout :: "'a kmem_scheme \<Rightarrow> bool" where
  "start_layout s \<longleftrightarrow> unat (kernel_heap s) + 0x6000 < 2 ^ 32 \<and>
     block (stray_word s) 4 \<inter> block (boot_directory s) 0x4004 = {} \<and>
     block (pde_addr (boot_directory s + 0x3000) s) 4 \<inter> boot_written s = {} \<and>
     (\<forall>v \<in> set (kernel_pages (kernel_end s)). walk_bytes (bytes s) 0 v \<inter> boot_written s = {})"

definition paging_inv :: "'a kmem_scheme \<Rightarrow> 'a kmem_scheme \<Rightarrow> bool" where
  "paging_inv s0 s \<longleftrightarrow> page_directory s = page_directory s0 \<and> kernel_end s = kernel_end s0 \<and>
     kernel_directory s = boot_directory s0 \<and> nframes_ok s \<and>
     (\<forall>a. a \<notin> boot_written s0 \<longrightarrow> bytes s a = bytes s0 a) \<and>
     read32 (bytes s) (boot_directory s0) = boot_directory s0 + 0x3000 \<and>
     read32 (bytes s) (boot_directory s0 + 0x2000) = 0"

lemma boot_directory_bounds:
  assumes "start_layout s"
  shows "boot_directory s AND 0xFFF = 0" "unat (boot_directory s) + 0x5000 < 2 ^ 32"
    "boot_directory s + 0x3000 \<noteq> 0"
proof -
  have "unat (boot_directory s) \<le> unat (kernel_heap s) + 4096"
    using assms page_up_bounds(2) [of "kernel_heap s"] by (simp add: start_layout_def boot_directory_def)
  with assms show b: "unat (boot_directory s) + 0x5000 < 2 ^ 32" by (simp add: start_layout_def)
  then have "unat (boot_directory s + 0x3000) = unat (boot_directory s) + 0x3000"
    by (subst unat_plus_no_wrap) simp_all
  then show "boot_directory s + 0x3000 \<noteq> 0" by auto
qed (simp add: boot_directory_def page_up_aligned)

lemma same_page:
  assumes "(t :: u32) AND 0xFFF = 0" "i < 1024"
  shows "pdindex (t + 4 * of_nat i) = pdindex t" "ptindex (t + 4 * of_nat i) = ptindex t"
proof -
  have m: "(0xFFF :: u32) = mask 12" by (simp add: mask_eq_exp_minus_1)
  have o: "(4 * of_nat i :: u32) = of_nat (4 * i)" by simp
  have small: "unat (4 * of_nat i :: u32) < 2 ^ 12" unfolding o using assms(2) by (subst unat_of_nat32) auto
  have d: "drop_bit 12 (4 * of_nat i :: u32) = 0"
    using small by (simp add: word_unat_eq_iff drop_bit_eq_div unat_div)
  have "t AND (4 * of_nat i) = 0"
  proof (rule bit_word_eqI)
    fix n assume "n < LENGTH(32)"
    have "\<not> bit (t AND mask 12) n" using assms(1) m by simp
    moreover have "\<not> bit (4 * of_nat i :: u32) n" if "12 \<le> n"
    proof -
      have "take_bit 12 (4 * of_nat i :: u32) = 4 * of_nat i"
        using d by (simp add: take_bit_eq_self_iff_drop_bit_eq_0)
      then show ?thesis using that by (metis bit_take_bit_iff linorder_not_less)
    qed
    ultimately show "bit (t AND (4 * of_nat i)) n = bit (0 :: u32) n"
      by (cases "n < 12") (auto simp: bit_simps)
  qed
  then have plus: "t + 4 * of_nat i = t OR 4 * of_nat i" by (rule disjunctive_add_eq_or)
  then have d12: "drop_bit 12 (t + 4 * of_nat i) = drop_bit 12 t"
    by (simp only: plus drop_bit_or d or.right_neutral)
  have "drop_bit 22 x = drop_bit 10 (drop_bit 12 x)" for x :: u32 by simp
  with d12 show "pdindex (t + 4 * of_nat i) = pdindex t" "ptindex (t + 4 * of_nat i) = ptindex t"
    by (simp_all add: pdindex_def ptindex_def del: drop_bit_drop_bit)
qed

lemma boot_slots:
  "block (boot_directory s) 4 \<subseteq> block (boot_directory s) 0x4004"
  "block (boot_directory s + 0x2000) 4 \<subseteq> block (boot_directory s) 0x4004"
  "i < 1024 \<Longrightarrow> block (boot_directory s + 0x3000 + 4 * of_nat i + 4) 4 \<subseteq> block (boot_directory s) 0x4004"
  "i < 1024 \<Longrightarrow> block (boot_directory s + 0x3000 + 4 * of_nat i + 4) 4 \<inter> block (boot_directory s) 4 = {}"
  "i < 1024 \<Longrightarrow> block (boot_directory s + 0x3000 + 4 * of_nat i + 4) 4 \<inter> block (boot_directory s + 0x2000) 4 = {}"
proof -
  let ?H = "boot_directory s"
  have e: "?H + 0x3000 + 4 * of_nat i + 4 = ?H + of_nat (0x3004 + 4 * i)" for i by (simp add: algebra_simps)
  show "block ?H 4 \<subseteq> block ?H 0x4004" using sub_block [where p = ?H and a = 0 and n = 4 and N = "0x4004"] by simp
  show "block (?H + 0x2000) 4 \<subseteq> block ?H 0x4004" using sub_block [where p = ?H and a = "0x2000" and n = 4 and N = "0x4004"] by simp
  assume i: "i < 1024"
  then show "block (?H + 0x3000 + 4 * of_nat i + 4) 4 \<subseteq> block ?H 0x4004"
    unfolding e by (intro sub_block) simp
  show "block (?H + 0x3000 + 4 * of_nat i + 4) 4 \<inter> block ?H 4 = {}"
    unfolding e using i sub_blocks_disjoint [where p = ?H and a = 0 and n = 4 and b = "0x3004 + 4 * i" and k = 4] by (simp add: Int_commute)
  show "block (?H + 0x3000 + 4 * of_nat i + 4) 4 \<inter> block (?H + 0x2000) 4 = {}"
    unfolding e using i sub_blocks_disjoint [where p = ?H and a = "0x2000" and n = 4 and b = "0x3004 + 4 * i" and k = 4] by (simp add: Int_commute)
qed

lemma low12_mod: "unat (x AND 0xFFF :: u32) = unat x mod 4096"
proof -
  have "x AND 0xFFF = take_bit 12 x" by (simp add: take_bit_eq_mask mask_eq_exp_minus_1)
  then have "unat (x AND 0xFFF) = take_bit 12 (unat x)" by (simp only: unsigned_take_bit_eq)
  then show ?thesis by (simp add: take_bit_eq_mod)
qed

lemma add_aligned:
  assumes "(x :: u32) AND 0xFFF = 0" "unat x + n < 2 ^ 32"
  shows "unat ((x + of_nat n) AND 0xFFF) = n mod 4096"
proof -
  have "unat x mod 4096 = 0" using arg_cong [OF assms(1), of unat] by (simp only: low12_mod unsigned_0)
  then show ?thesis
    unfolding low12_mod unat_add_of_nat [OF assms(2)] using mod_add_left_eq [of "unat x" 4096 n] by simp
qed

lemma first_table_aligned:
  assumes "start_layout s"
  shows "(boot_directory s + 0x3000) AND 0xFFF = 0"
  using add_aligned [of "boot_directory s" "0x3000"] boot_directory_bounds [OF assms]
  by (simp add: word_unat_eq_iff)

lemma frame_word:
  assumes "start_layout s0" "paging_inv s0 s" "i < 1024"
  shows "pte_addr (boot_directory s0 + 0x3000 + 4 * of_nat i) s = stray_word s0"
    "pde_addr (boot_directory s0 + 0x3000 + 4 * of_nat i) s = pde_addr (boot_directory s0 + 0x3000) s0"
proof -
  let ?T = "boot_directory s0 + 0x3000"
  have low: "?T AND 0xFFF = 0" by (rule first_table_aligned [OF assms(1)])
  note page = same_page [OF low assms(3)]
  show pde: "pde_addr (?T + 4 * of_nat i) s = pde_addr ?T s0"
    using assms(2) by (simp add: pde_addr_def page paging_inv_def)
  have "read32 (bytes s) (pde_addr ?T s0) = read32 (bytes s0) (pde_addr ?T s0)"
    using assms(1,2) by (intro read32_cong) (auto simp: paging_inv_def start_layout_def)
  then show "pte_addr (?T + 4 * of_nat i) s = stray_word s0"
    unfolding pte_addr_def pde by (simp add: page stray_word_def pte_addr_def)
qed

lemma get_page_kept:
  assumes "start_layout s0" "paging_inv s0 s" "i < 1024"
  shows "get_page (of_nat i * PAGE_SIZE) True (boot_directory s0) s =
    (boot_directory s0 + 0x3000 + 4 * of_nat i, s)"
proof -
  have u: "unat (of_nat i :: u32) = i" using assms(3) by (simp add: unat_of_nat32)
  then have "of_nat i * PAGE_SIZE div PAGE_SIZE = (of_nat i :: u32)"
    using assms(3) by (intro frame_addr_div) simp
  moreover have "(of_nat i :: u32) div 1024 = 0" "(of_nat i :: u32) mod 1024 = of_nat i"
    using u assms(3) by (simp_all add: word_unat_eq_iff unat_div unat_mod)
  ultimately show ?thesis
    using assms(2) boot_directory_bounds(3) [OF assms(1)]
    by (simp add: get_page_def Let_def dir_table_def paging_inv_def)
qed

lemma alloc_frame_kept:
  assumes "start_layout s0" "paging_inv s0 s" "i < 1024"
  shows "\<exists>t. alloc_frame (boot_directory s0 + 0x3000 + 4 * of_nat i) True False s = Some t \<and> paging_inv s0 t"
proof (cases "frame_used (boot_directory s0 + 0x3000 + 4 * of_nat i) s")
  case True
  with assms(2) show ?thesis by (simp add: alloc_frame_def)
next
  case False
  let ?H = "boot_directory s0" and ?W = "stray_word s0"
  let ?fp = "?H + 0x3000 + 4 * of_nat i" and ?idx = "first_free_frame s"
  let ?u = "set_used_fields ?fp True (set_frame (?idx * PAGE_SIZE) s)"
  have inv: "page_directory s = page_directory s0" "kernel_end s = kernel_end s0" "kernel_directory s = ?H"
    "nframes_ok s" "\<forall>a. a \<notin> boot_written s0 \<longrightarrow> bytes s a = bytes s0 a"
    "read32 (bytes s) ?H = ?H + 0x3000" "read32 (bytes s) (?H + 0x2000) = 0"
    using assms(2) by (simp_all add: paging_inv_def)
  have lay: "block ?W 4 \<inter> block ?H 0x4004 = {}"
    "block (pde_addr (?H + 0x3000) s0) 4 \<inter> boot_written s0 = {}"
    using assms(1) by (simp_all add: start_layout_def)
  have "?idx \<noteq> 0xFFFFFFFF" using first_free_frame_bound [OF inv(4)] by auto
  then obtain fl where t: "alloc_frame ?fp True False s = Some (map_page (?idx * PAGE_SIZE) ?fp fl ?u)" (is "_ = Some ?t")
    using False by (simp add: alloc_frame_def Let_def)
  obtain w where u: "bytes ?u = write32 (?fp + 4) w (bytes s)"
    using set_used_fields_bytes [of ?fp True "set_frame (?idx * PAGE_SIZE) s"] by auto
  note slots = boot_slots(1,2) [of s0] boot_slots(3-5) [where s = s0, OF assms(3)]
  have "pde_addr ?fp ?u = pde_addr ?fp s" by (simp add: pde_addr_def)
  moreover have "block (?fp + 4) 4 \<inter> block (pde_addr (?H + 0x3000) s0) 4 = {}"
    using lay(2) slots(3) by (auto simp: boot_written_def)
  ultimately have "pte_addr ?fp ?u = ?W"
    using frame_word [OF assms] by (simp add: pte_addr_def u read32_write32_other)
  then obtain v where b: "bytes ?t = write32 ?W v (write32 (?fp + 4) w (bytes s))"
    by (auto simp: bytes_map_page u)
  have "bytes ?t a = bytes s a" if "a \<notin> boot_written s0" for a
    using that slots(3) unfolding b boot_written_def by (auto simp: write32_def block4)
  then have "\<forall>a. a \<notin> boot_written s0 \<longrightarrow> bytes ?t a = bytes s0 a" using inv(5) by simp
  moreover have "block ?W 4 \<inter> block ?H 4 = {}" "block ?W 4 \<inter> block (?H + 0x2000) 4 = {}"
    using lay(1) slots(1,2) by blast+
  then have "read32 (bytes ?t) ?H = ?H + 0x3000" "read32 (bytes ?t) (?H + 0x2000) = 0"
    using inv(6,7) slots(4,5) by (simp_all add: b read32_write32_other)
  moreover have "page_directory ?t = page_directory s" "kernel_end ?t = kernel_end s"
    "kernel_directory ?t = kernel_directory s" "nframes ?t = nframes s"
    by (simp_all add: map_page_def set_used_fields_def set_frame_def Let_def)
  ultimately show ?thesis using t inv by (auto simp: paging_inv_def nframes_ok_def)
qed

lemma map_kernel_kept:
  "start_layout s0 \<Longrightarrow> paging_inv s0 s \<Longrightarrow> \<forall>i \<in> set is. i < 1024 \<Longrightarrow>
    \<exists>t. map_kernel (boot_directory s0) is s = Some t \<and> paging_inv s0 t"
proof (induction "is" arbitrary: s)
  case (Cons i "is")
  then obtain t where "alloc_frame (boot_directory s0 + 0x3000 + 4 * of_nat i) True False s = Some t" "paging_inv s0 t"
    using alloc_frame_kept [of s0 s i] by auto
  with Cons show ?case by (simp add: get_page_kept)
qed simp

lemma next_page:
  assumes "start_layout s"
  shows "page_up (boot_directory s + 8196) = boot_directory s + 0x3000"
proof -
  let ?H = "boot_directory s" and ?x = "boot_directory s + 8196"
  note H = boot_directory_bounds [OF assms]
  have "unat (?x AND 0xFFF) = 4" using add_aligned [OF H(1), of 8196] H(2) by simp
  then have ne: "?x AND 0xFFF \<noteq> 0" by auto
  have "unat ((?x + 0x1000) AND 0xFFF) = unat (4 :: u32)" using add_aligned [OF H(1), of 12292] H(2) by (simp add: add.assoc)
  then have "(?x + 0x1000) AND 0xFFF = 4" by (simp only: word_unat_eq_iff)
  then show ?thesis using ne by (simp add: page_up_def page_round(1))
qed

lemma write32_outside: "a \<notin> block p 4 \<Longrightarrow> write32 p v m a = m a"
  by (auto simp: write32_def block4)

lemma read32_memset_inside: "block a 4 \<subseteq> block p n \<Longrightarrow> read32 (memset_bytes p 0 n m) a = 0"
  by (simp add: read32_def memset_bytes_eq block4)

text \<open>The first call of \<^verbatim>\<open>get_page\<close> creates the table.\<close>

lemma first_page:
  fixes s s0 :: "'a kmem_scheme"
  assumes "start_layout s0" "bytes s = memset_bytes (boot_directory s0) 0 8196 (bytes s0)"
    and "heap_end s = boot_directory s0 + 8196" "page_directory s = page_directory s0"
    and "kernel_end s = kernel_end s0" "kernel_directory s = boot_directory s0" "nframes_ok s"
  shows "\<exists>t. get_page 0 True (boot_directory s0) s = (boot_directory s0 + 0x3000, t) \<and> paging_inv s0 t"
proof -
  let ?H = "boot_directory s0" and ?T = "boot_directory s0 + 0x3000"
  have zero: "block ?H 4 \<subseteq> block ?H 8196" "block (?H + 0x2000) 4 \<subseteq> block ?H 8196"
    using sub_block [where p = ?H and a = 0 and n = 4 and N = 8196]
      sub_block [where p = ?H and a = "0x2000" and n = 4 and N = 8196] by simp_all
  have dis: "block ?T 4096 \<inter> block ?H 4 = {}" "block ?T 4096 \<inter> block (?H + 0x2000) 4 = {}"
    "block (?H + 4096) 4 \<inter> block ?H 4 = {}" "block (?H + 4096) 4 \<inter> block (?H + 0x2000) 4 = {}"
    "block ?H 4 \<inter> block (?H + 0x2000) 4 = {}"
    using sub_blocks_disjoint [where p = ?H and a = 0 and n = 4 and b = "0x3000" and k = 4096]
      sub_blocks_disjoint [where p = ?H and a = "0x2000" and n = 4 and b = "0x3000" and k = 4096]
      sub_blocks_disjoint [where p = ?H and a = 0 and n = 4 and b = 4096 and k = 4]
      sub_blocks_disjoint [where p = ?H and a = 4096 and n = 4 and b = "0x2000" and k = 4]
      sub_blocks_disjoint [where p = ?H and a = 0 and n = 4 and b = "0x2000" and k = 4]
    by (simp_all add: Int_commute)
  have sub: "block ?H 8196 \<subseteq> boot_written s0" "block ?T 4096 \<subseteq> boot_written s0"
    "block (?H + 4096) 4 \<subseteq> boot_written s0" "block ?H 4 \<subseteq> boot_written s0"
    using sub_block [where p = ?H and a = 0 and n = 8196 and N = "0x4004"]
      sub_block [where p = ?H and a = "0x3000" and n = 4096 and N = "0x4004"]
      sub_block [where p = ?H and a = 4096 and n = 4 and N = "0x4004"]
      sub_block [where p = ?H and a = 0 and n = 4 and N = "0x4004"]
    by (auto simp: boot_written_def)
  obtain p s1 where k: "kmalloc_aligned_physical 4096 s = (?T, Some p, s1)" "bytes s1 = bytes s"
      "page_directory s1 = page_directory s" "kernel_end s1 = kernel_end s"
      "kernel_directory s1 = kernel_directory s" "nframes s1 = nframes s"
    using next_page [OF assms(1)]
    by (simp add: kmalloc_aligned_physical_def kmalloc_internal_def Let_def assms(3) page_up_def split: if_splits)
  define m where "m = write32 (?H + 4096) (p OR MEMORY_PRESENT OR MEMORY_READWRITE OR MEMORY_USER)
    (write32 ?H ?T (bytes s))"
  have m: "read32 m ?H = ?T" "read32 m (?H + 0x2000) = 0"
    using zero dis by (simp_all add: m_def read32_write32_other assms(2) read32_memset_inside)
  have r: "read32 (bytes s) ?H = 0" using zero by (simp add: assms(2) read32_memset_inside)
  let ?t = "memset ?T 0 4096 (s1\<lparr>bytes := m\<rparr>)"
  have b: "bytes ?t = memset_bytes ?T 0 4096 m" by (simp add: memset_def)
  have e: "get_page 0 True ?H s = (?T, ?t)"
    using k(1,2) r m(1) by (simp add: get_page_def Let_def dir_table_def dir_table_physical_def b
      read32_memset_outside [OF dis(1)] flip: m_def)
  have out: "bytes ?t a = bytes s0 a" if "a \<notin> boot_written s0" for a
  proof -
    have "a \<notin> block ?T 4096" "a \<notin> block (?H + 4096) 4" "a \<notin> block ?H 4" "a \<notin> block ?H 8196"
      using that sub by blast+
    note outside = this write32_outside [OF this(2)] write32_outside [OF this(3)]
    then have "bytes ?t a = m a" by (simp only: b memset_bytes_eq if_False)
    also have "m a = bytes s0 a" unfolding m_def assms(2) using outside by (simp add: memset_bytes_eq)
    finally show ?thesis .
  qed
  have t: "page_directory ?t = page_directory s0" "kernel_end ?t = kernel_end s0" "kernel_directory ?t = ?H" "nframes_ok ?t"
    using k assms(4-7) by (simp_all add: memset_def nframes_ok_def)
  have "read32 (bytes ?t) ?H = ?T" "read32 (bytes ?t) (?H + 0x2000) = 0"
    unfolding b using m by (simp_all add: read32_memset_outside dis)
  then have "paging_inv s0 ?t" unfolding paging_inv_def using out t by blast
  with e show ?thesis by blast
qed

lemma init_paging_outcome:
  fixes s s0 :: "'a kmem_scheme"
  assumes "start_layout s0" "bytes s = bytes s0" "heap_end s = kernel_heap s0"
    and "page_directory s = page_directory s0" "kernel_end s = kernel_end s0" "nframes_ok s"
  shows "init_paging s \<noteq> None \<longleftrightarrow> maps_kernel (bytes s0) 0 (kernel_end s0)"
proof -
  let ?H = "boot_directory s0"
  let ?s1 = "puts (''Sayfalama sistemi baslatiliyor...'' @ newline) s"
  let ?s4 = "(memset ?H 0 8196 (?s1\<lparr>heap_end := ?H + 8196, kernel_directory := ?H\<rparr>))\<lparr>current_directory := ?H\<rparr>"
  have "kmalloc_aligned 8196 ?s1 = (?H, ?s1\<lparr>heap_end := ?H + 8196\<rparr>)"
    by (simp add: kmalloc_aligned_eq assms(3) boot_directory_def)
  then have i: "init_paging s = do {
      s5 \<leftarrow> map_kernel ?H [0..<1024] ?s4;
      s6 \<leftarrow> switch_page_directory (kernel_directory s5) s5;
      Some (puts (''Sayfalama sistemi baslatildi.'' @ newline) s6) }"
    by (simp add: init_paging_def del: upt_rec_numeral)
  have "nframes_ok ?s4" using assms(6) by (simp add: nframes_ok_def memset_def)
  then obtain t where t: "get_page 0 True ?H ?s4 = (?H + 0x3000, t)" "paging_inv s0 t"
    using first_page [OF assms(1), of ?s4] assms by (auto simp: memset_def)
  have again: "get_page 0 True ?H t = (?H + 0x3000, t)" using get_page_kept [OF assms(1) t(2), of 0] by simp
  have "map_kernel ?H [0..<1024] ?s4 = map_kernel ?H [0..<1024] t"
    using t(1) again by (subst (1 2) upt_conv_Cons) (simp_all del: upt_rec_numeral)
  moreover obtain u where u: "map_kernel ?H [0..<1024] t = Some u" "paging_inv s0 u"
    using map_kernel_kept [OF assms(1) t(2), of "[0..<1024]"] by (auto simp del: upt_rec_numeral)
  moreover have "maps_kernel (bytes u) 0 (kernel_end s0) = maps_kernel (bytes s0) 0 (kernel_end s0)"
  proof (rule maps_kernel_cong)
    have "\<forall>v \<in> set (kernel_pages (kernel_end s0)). walk_bytes (bytes s0) 0 v \<inter> boot_written s0 = {}"
      "\<forall>a. a \<notin> boot_written s0 \<longrightarrow> bytes u a = bytes s0 a"
      using u(2) assms(1) unfolding paging_inv_def start_layout_def by blast+
    then show "\<forall>v \<in> set (kernel_pages (kernel_end s0)). \<forall>a \<in> walk_bytes (bytes s0) 0 v. bytes u a = bytes s0 a"
      by blast
  qed
  ultimately show ?thesis
    using u(2) by (simp add: i paging_inv_def switch_page_directory_def Let_def del: upt_rec_numeral)
qed

lemma report_kb_same [simp]:
  "bytes (report_kb l n u s) = bytes s" "heap_end (report_kb l n u s) = heap_end s"
  "page_directory (report_kb l n u s) = page_directory s" "kernel_end (report_kb l n u s) = kernel_end s"
  by (simp_all add: report_kb_def)

lemma fold_same: "(\<And>i s. g (f i s) = g s) \<Longrightarrow> g (fold f is s) = g s"
  by (induction "is" arbitrary: s) simp_all

lemma init_frames_same:
  "bytes (init_frames s) = bytes s" "heap_end (init_frames s) = heap_end s"
  "page_directory (init_frames s) = page_directory s" "kernel_end (init_frames s) = kernel_end s"
  by (simp_all add: init_frames_def set_frame_def Let_def fold_same [where g = bytes] fold_same [where g = heap_end]
    fold_same [where g = page_directory] fold_same [where g = kernel_end] del: upt_rec_numeral)

lemma init_memory_outcome:
  assumes "start_layout s"
  shows "init_memory s \<noteq> None \<longleftrightarrow> maps_kernel (bytes s) 0 (kernel_end s)"
proof -
  have "\<exists>s5. init_memory s = init_paging (init_frames s5) \<bind> (\<lambda>s6.
      Some (puts (''Bellek yonetimi baslatildi.'' @ newline) s6)) \<and> phys_mem_mgr s5 = boot_pmm \<and>
    bytes s5 = bytes s \<and> heap_end s5 = kernel_heap s \<and> page_directory s5 = page_directory s \<and> kernel_end s5 = kernel_end s"
    unfolding init_memory_def Let_def by (intro exI conjI, rule refl) simp_all
  then obtain s5 where s5: "init_memory s = init_paging (init_frames s5) \<bind> (\<lambda>s6.
      Some (puts (''Bellek yonetimi baslatildi.'' @ newline) s6))" "phys_mem_mgr s5 = boot_pmm"
    "bytes s5 = bytes s" "heap_end s5 = kernel_heap s" "page_directory s5 = page_directory s" "kernel_end s5 = kernel_end s"
    by blast
  have "nframes (init_frames s5) = 32768" by (simp add: init_frames_frame s5 boot_pmm_def PAGE_SIZE_def)
  then have "nframes_ok (init_frames s5)" by (simp add: nframes_ok_def)
  then have "init_paging (init_frames s5) \<noteq> None \<longleftrightarrow> maps_kernel (bytes s) 0 (kernel_end s)"
    using s5 by (intro init_paging_outcome [OF assms]) (simp_all add: init_frames_same)
  then show ?thesis by (cases "init_paging (init_frames s5)") (simp_all add: s5(1))
qed

lemma init_paging_more:
  assumes "init_paging s = Some t" "nframes_ok s"
  shows "kmem.more t = kmem.more s"
proof -
  obtain d s2 where k: "kmalloc_aligned 8196 (puts (''Sayfalama sistemi baslatiliyor...'' @ newline) s) = (d, s2)"
    by fastforce
  let ?s4 = "(memset d 0 8196 (s2\<lparr>kernel_directory := d\<rparr>))\<lparr>current_directory := d\<rparr>"
  have "nframes s2 = nframes s" "kmem.more s2 = kmem.more s"
    using k by (auto simp: kmalloc_aligned_eq emit_def)
  then have "nframes_ok ?s4" "kmem.more ?s4 = kmem.more s" using assms(2) by (simp_all add: nframes_ok_def memset_def)
  then obtain u where "map_kernel d [0..<1024] ?s4 = Some u" "kmem.more u = kmem.more s"
    using map_kernel_Some by metis
  with assms(1) show ?thesis
    unfolding init_paging_def Let_def k prod.case
    by (auto simp: switch_page_directory_def Let_def split: if_splits simp del: upt_rec_numeral)
qed

lemma init_memory_more:
  assumes "init_memory s = Some t"
  shows "kmem.more t = kmem.more s"
proof -
  have "\<exists>s5. init_memory s = init_paging (init_frames s5) \<bind> (\<lambda>s6.
      Some (puts (''Bellek yonetimi baslatildi.'' @ newline) s6)) \<and>
    phys_mem_mgr s5 = boot_pmm \<and> kmem.more s5 = kmem.more s"
    unfolding init_memory_def Let_def by (intro exI conjI, rule refl) simp_all
  then obtain s5 where i: "init_memory s = init_paging (init_frames s5) \<bind> (\<lambda>s6.
      Some (puts (''Bellek yonetimi baslatildi.'' @ newline) s6))"
    and s5: "phys_mem_mgr s5 = boot_pmm" "kmem.more s5 = kmem.more s" by blast
  have "nframes_ok (init_frames s5)" by (simp add: nframes_ok_def init_frames_frame s5 boot_pmm_def PAGE_SIZE_def)
  moreover obtain u where "init_paging (init_frames s5) = Some u" "t = puts (''Bellek yonetimi baslatildi.'' @ newline) u"
    using assms i by (cases "init_paging (init_frames s5)") auto
  ultimately show ?thesis using init_paging_more [of "init_frames s5" u] by (simp add: init_frames_frame s5)
qed

subsection \<open>Two memories\<close>

text \<open>
  The addresses of the example machine (heap at 1 MB, the directory that \<^verbatim>\<open>map_page\<close> writes through
  at 0x8000 and empty), first with nothing at address 0, then with a directory there whose first
  entry is a table at 0x11000 that maps the first 4 MB to themselves.
\<close>

definition example_layout :: "'a kmem_scheme \<Rightarrow> bool" where
  "example_layout s \<longleftrightarrow> kernel_heap s = 0x100000 \<and> kernel_end s = 0x210000 \<and> page_directory s = 0x8000"

definition identity_tables :: "u32 \<Rightarrow> u8" where
  "identity_tables = fold (\<lambda>i. write32 (0x11000 + of_nat (4 * i)) (of_nat i * PAGE_SIZE OR 3)) [0..<1024]
     (write32 0 0x11003 (\<lambda>_. 0))"

lemma fold_write32_outside:
  "a \<notin> block t (4 * n) \<Longrightarrow> fold (\<lambda>i. write32 (t + of_nat (4 * i)) (f i)) [0..<n] m a = m a"
proof (induction n)
  case (Suc n)
  have "block t (4 * n) \<subseteq> block t (4 * Suc n)" "block (t + of_nat (4 * n)) 4 \<subseteq> block t (4 * Suc n)"
    using sub_block [where p = t and a = 0 and n = "4 * n" and N = "4 * Suc n"]
      sub_block [where p = t and a = "4 * n" and n = 4 and N = "4 * Suc n"] by simp_all
  with Suc have "a \<notin> block t (4 * n)" "a \<notin> block (t + of_nat (4 * n)) 4" by blast+
  with Suc.IH show ?case by (simp add: write32_outside del: of_nat_mult)
qed simp

lemma fold_write32_inside:
  "j < n \<Longrightarrow> n \<le> 1024 \<Longrightarrow> read32 (fold (\<lambda>i. write32 (t + of_nat (4 * i)) (f i)) [0..<n] m) (t + of_nat (4 * j)) = f j"
proof (induction n)
  case (Suc n)
  show ?case
  proof (cases "j = n")
    case False
    then have "block (t + of_nat (4 * j)) 4 \<inter> block (t + of_nat (4 * n)) 4 = {}"
      using Suc.prems by (intro sub_blocks_disjoint) simp_all
    then have "block (t + of_nat (4 * n)) 4 \<inter> block (t + of_nat (4 * j)) 4 = {}" by blast
    with Suc False show ?thesis by (simp add: read32_write32_other del: of_nat_mult)
  qed (simp del: of_nat_mult)
qed simp

lemma identity_dir: "read32 identity_tables 0 = 0x11003" "read32 identity_tables 0x8000 = 0"
proof -
  have out: "identity_tables a = write32 0 0x11003 (\<lambda>_. 0) a" if "a \<notin> block 0x11000 (4 * 1024)" for a
    unfolding identity_tables_def by (rule fold_write32_outside [OF that])
  have "\<forall>a \<in> block 0 4. identity_tables a = write32 0 0x11003 (\<lambda>_. 0) a"
    "\<forall>a \<in> block 0x8000 4. identity_tables a = write32 0 0x11003 (\<lambda>_. 0) a"
    by (intro ballI out, simp add: in_block_interval)+
  then have "read32 identity_tables 0 = read32 (write32 0 0x11003 (\<lambda>_. 0)) 0"
    "read32 identity_tables 0x8000 = read32 (write32 0 0x11003 (\<lambda>_. 0)) 0x8000"
    by (intro read32_cong, blast)+
  moreover have "read32 (write32 0 0x11003 (\<lambda>_. 0)) 0x8000 = read32 (\<lambda>_. 0) 0x8000"
    by (rule read32_write32_other) (simp add: block4)
  ultimately show "read32 identity_tables 0 = 0x11003" "read32 identity_tables 0x8000 = 0"
    by (simp_all only: read32_write32) (simp add: read32_def)
qed

lemma low_page:
  assumes "i < 1024"
  shows "drop_bit 22 (of_nat i * PAGE_SIZE) = 0" "drop_bit 12 (of_nat i * PAGE_SIZE) AND 0x3FF = of_nat i"
proof -
  have u: "unat (of_nat i * PAGE_SIZE) = i * 4096"
    using assms by (simp add: PAGE_SIZE_def unat_word_ariths unat_of_nat32)
  then show "drop_bit 22 (of_nat i * PAGE_SIZE) = 0"
    using assms by (simp add: drop_bit_eq_div word_unat_eq_iff unat_div)
  have "drop_bit 12 (of_nat i * PAGE_SIZE) = of_nat i"
    using assms u by (simp add: drop_bit_eq_div word_unat_eq_iff unat_div unat_of_nat32)
  moreover have "(of_nat i :: u32) AND 0x3FF = of_nat i"
  proof -
    have "(of_nat i :: u32) AND 0x3FF = take_bit 10 (of_nat i)" by (simp add: take_bit_eq_mask mask_eq_exp_minus_1)
    moreover have "drop_bit 10 (of_nat i :: u32) = 0"
      using assms by (simp add: drop_bit_eq_div word_unat_eq_iff unat_div unat_of_nat32)
    ultimately show ?thesis by (metis take_bit_eq_self_iff_drop_bit_eq_0)
  qed
  ultimately show "drop_bit 12 (of_nat i * PAGE_SIZE) AND 0x3FF = of_nat i" by simp
qed

lemma low_walk:
  assumes "i < 1024"
  shows "pde_word 0 (of_nat i * PAGE_SIZE) = 0"
    "pte_word identity_tables 0 (of_nat i * PAGE_SIZE) = 0x11000 + of_nat (4 * i)"
    "translate identity_tables 0 (of_nat i * PAGE_SIZE) = Some (of_nat i * PAGE_SIZE)"
proof -
  let ?v = "of_nat i * PAGE_SIZE"
  show d: "pde_word 0 ?v = 0" by (simp add: pde_word_def low_page [OF assms])
  then show p: "pte_word identity_tables 0 ?v = 0x11000 + of_nat (4 * i)"
    by (simp add: pte_word_def low_page [OF assms] identity_dir)
  have three: "?v OR 3 = ?v OR (2 AND 0xFFF) OR 1" by simp
  have r: "read32 identity_tables (0x11000 + of_nat (4 * i)) = ?v OR 3"
    unfolding identity_tables_def using assms by (intro fold_write32_inside) simp_all
  have "(?v OR 3) AND NOT 0xFFF = ?v" "(?v OR 3) AND 1 = 1" "?v AND 0xFFF = 0"
    unfolding three using page_bits [OF frame_addr_low [of "of_nat i"], of 2] frame_addr_low [of "of_nat i"] by simp_all
  then show "translate identity_tables 0 ?v = Some ?v"
    unfolding translate_def d p r Let_def by (simp add: identity_dir)
qed

lemma example_pages: "set (kernel_pages 0x210000) \<subseteq> (\<lambda>i. of_nat i * PAGE_SIZE) ` {..<1024}"
proof
  fix v assume "v \<in> set (kernel_pages 0x210000)"
  then consider "v = 0xB8000" | i where "v = of_nat i * PAGE_SIZE" "i < 0x210"
    by (auto simp: kernel_pages_def simp del: upt_rec_numeral)
  then show "v \<in> (\<lambda>i. of_nat i * PAGE_SIZE) ` {..<1024}"
  proof cases
    case 1
    then show ?thesis by (intro image_eqI [of _ _ "0xB8"]) (simp_all add: PAGE_SIZE_def)
  qed auto
qed

lemma example_stray:
  assumes "example_layout s" "read32 (bytes s) 0x8000 = 0"
  shows "boot_directory s = 0x100000" "stray_word s = 0x40C" "pde_addr (boot_directory s + 0x3000) s = 0x8000"
  using assms by (simp_all add: example_layout_def boot_directory_def page_up_def stray_word_def pte_addr_def
    pde_addr_def pdindex_def ptindex_def)

lemma zero_memory_not_mapped:
  assumes "example_layout s" "bytes s = (\<lambda>_. 0)"
  shows "start_layout s" "\<not> maps_kernel (bytes s) 0 (kernel_end s)"
proof -
  have r: "read32 (\<lambda>_. 0) a = 0" for a by (simp add: read32_def)
  note ex = example_stray [OF assms(1), unfolded assms(2), OF r]
  have w: "walk_bytes (bytes s) 0 v = block 0 4" if "v \<in> set (kernel_pages (kernel_end s))" for v
    using that example_pages assms by (auto simp: example_layout_def walk_bytes_def low_walk r)
  show "start_layout s" unfolding start_layout_def boot_written_def
    using assms(1) w ex by (auto simp: example_layout_def in_block_interval)
  have "translate (bytes s) 0 0xB8000 = None" by (simp add: translate_def assms(2) r)
  then show "\<not> maps_kernel (bytes s) 0 (kernel_end s)" by (simp add: maps_kernel_def kernel_pages_def)
qed

lemma identity_tables_mapped:
  assumes "example_layout s" "bytes s = identity_tables"
  shows "start_layout s" "maps_kernel (bytes s) 0 (kernel_end s)"
proof -
  note ex = example_stray [OF assms(1), unfolded assms(2), OF identity_dir(2)]
  have w: "\<exists>i < 1024. walk_bytes (bytes s) 0 v = block 0 4 \<union> block (0x11000 + of_nat (4 * i)) 4"
    if v: "v \<in> set (kernel_pages (kernel_end s))" for v
  proof -
    obtain i where "i < 1024" "v = of_nat i * PAGE_SIZE"
      using v example_pages assms(1) by (auto simp: example_layout_def)
    then show ?thesis using assms(2) by (auto simp: walk_bytes_def low_walk identity_dir simp del: of_nat_mult)
  qed
  have "block (0x11000 + of_nat (4 * i)) 4 \<subseteq> block 0x11000 4096" if "i < 1024" for i
    using that by (intro sub_block) simp
  moreover have "(block 0 4 \<union> block 0x11000 4096) \<inter> (block 0x100000 0x4004 \<union> block 0x40C 4) = ({} :: u32 set)"
    by (auto simp: in_block_interval)
  ultimately have "walk_bytes (bytes s) 0 v \<inter> (block 0x100000 0x4004 \<union> block 0x40C 4) = {}"
    if "v \<in> set (kernel_pages (kernel_end s))" for v
    using w [OF that] by blast
  then show "start_layout s" unfolding start_layout_def boot_written_def
    using assms(1) ex by (auto simp: example_layout_def in_block_interval)
  show "maps_kernel (bytes s) 0 (kernel_end s)"
    using example_pages low_walk(3) assms by (auto simp: maps_kernel_def list_all_iff example_layout_def)
qed

end
