(* ===== verification/Interrupts.thy ===== *)
theory Interrupts
  imports Heap
begin

text \<open>
  Interrupt set-up and dispatch: the descriptor table and handler table of
  \<^verbatim>\<open>src/kernel/interrupt.c\<close>, its fuller twin \<^verbatim>\<open>src/kernel/interrupt/idt.c\<close> (both files define
  \<^verbatim>\<open>register_interrupt_handler\<close>, \<^verbatim>\<open>isr_handler\<close> and \<^verbatim>\<open>irq_handler\<close>), and the PIC driver
  \<^verbatim>\<open>src/kernel/interrupt/pic.c\<close>. Port writes are recorded in order; the value a port
  read returns comes from a device function, which is a parameter. The addresses of the assembly
  stubs are a parameter too.
\<close>

section \<open>State\<close>

text \<open>The handlers that the kernel registers.\<close>

datatype isr =
    Isr_scheduler_tick
  | Isr_keyboard_handler
  | Isr_pit_handler
  | Isr_syscall_handler

record idt_entry =
  ie_base_low :: u16
  ie_selector :: u16
  ie_zero :: u8
  ie_flags :: u8
  ie_base_high :: u16

text \<open>
  \<open>handlers\<close> is the static array \<^verbatim>\<open>interrupt_handlers\<close>, \<open>port_out\<close> the port writes so far,
  oldest first, and \<open>int_enabled\<close> the interrupt flag of the processor.
\<close>

record kintr = kmem +
  idt_entries :: "idt_entry list"
  idt_limit :: u16
  idt_base :: u32
  handlers :: "isr option list"
  port_out :: "(u16 \<times> u8) list"
  pic1_mask :: u8
  pic2_mask :: u8
  int_enabled :: bool

definition IDT_ENTRIES :: nat where
  "IDT_ENTRIES = 256"

definition outb :: "u16 \<Rightarrow> u8 \<Rightarrow> 'a kintr_scheme \<Rightarrow> 'a kintr_scheme" where
  "outb port v s = s\<lparr>port_out := port_out s @ [(port, v)]\<rparr>"

lemma emit_kintr [simp]:
  "idt_entries (emit c s) = idt_entries s" "handlers (emit c s) = handlers s"
  "port_out (emit c s) = port_out s" "pic1_mask (emit c s) = pic1_mask s"
  "pic2_mask (emit c s) = pic2_mask s" "int_enabled (emit c s) = int_enabled s"
  by (simp_all add: emit_def)

lemma outb_simps [simp]:
  "idt_entries (outb p v s) = idt_entries s" "handlers (outb p v s) = handlers s"
  "port_out (outb p v s) = port_out s @ [(p, v)]" "pic1_mask (outb p v s) = pic1_mask s"
  "pic2_mask (outb p v s) = pic2_mask s" "con_out (outb p v s) = con_out s"
  by (simp_all add: outb_def)

section \<open>Descriptor table\<close>

definition gate :: "u32 \<Rightarrow> u16 \<Rightarrow> u8 \<Rightarrow> idt_entry" where
  "gate base sel fl = \<lparr>ie_base_low = ucast (base AND 0xFFFF), ie_selector = sel, ie_zero = 0, ie_flags = fl,
     ie_base_high = ucast (drop_bit 16 base AND 0xFFFF)\<rparr>"

definition set_idt_gate :: "u8 \<Rightarrow> u32 \<Rightarrow> u16 \<Rightarrow> u8 \<Rightarrow> 'a kintr_scheme \<Rightarrow> 'a kintr_scheme" where
  "set_idt_gate num base sel fl s =
     s\<lparr>idt_entries := (idt_entries s)[unat num := gate base sel fl]\<rparr>"

definition register_interrupt_handler :: "u8 \<Rightarrow> isr \<Rightarrow> 'a kintr_scheme \<Rightarrow> 'a kintr_scheme" where
  "register_interrupt_handler num h s = s\<lparr>handlers := (handlers s)[unat num := Some h]\<rparr>"

text \<open>The stub addresses, which the assembly files define: \<open>isr_addr n\<close> serves interrupt \<open>n\<close>.\<close>

definition init_idt :: "(nat \<Rightarrow> u32) \<Rightarrow> u32 \<Rightarrow> 'a kintr_scheme \<Rightarrow> 'a kintr_scheme" where
  "init_idt isr_addr table s =
     (let s1 = puts (''Kesme sistemi baslatiliyor...'' @ newline) s;
          s2 = s1\<lparr>idt_limit := 8 * of_nat IDT_ENTRIES - 1, idt_base := table\<rparr>;
          s3 = fold (\<lambda>i t. (set_idt_gate (of_nat i) 0 0 0 t)\<lparr>handlers := (handlers t)[i := None]\<rparr>)
            [0..<IDT_ENTRIES] s2;
          s4 = set_idt_gate 0 (isr_addr 0) 0x08 0x8E s3;
          s5 = set_idt_gate 1 (isr_addr 1) 0x08 0x8E s4;
          s6 = set_idt_gate 32 (isr_addr 32) 0x08 0x8E s5;
          s7 = set_idt_gate 33 (isr_addr 33) 0x08 0x8E s6
      in puts (''Kesme sistemi baslatildi.'' @ newline) (s7\<lparr>int_enabled := True\<rparr>))"

section \<open>The interrupt controller\<close>

definition PIC1_COMMAND :: u16 where "PIC1_COMMAND = 0x20"
definition PIC1_DATA :: u16 where "PIC1_DATA = 0x21"
definition PIC2_COMMAND :: u16 where "PIC2_COMMAND = 0xA0"
definition PIC2_DATA :: u16 where "PIC2_DATA = 0xA1"

definition io_wait :: "'a kintr_scheme \<Rightarrow> 'a kintr_scheme" where
  "io_wait = outb 0x80 0"

text \<open>\<open>inb\<close> is the value the device answers a read of a port with.\<close>

definition pic_init :: "(u16 \<Rightarrow> u8) \<Rightarrow> u8 \<Rightarrow> u8 \<Rightarrow> 'a kintr_scheme \<Rightarrow> 'a kintr_scheme" where
  "pic_init inb offset1 offset2 s =
     (let s0 = s\<lparr>pic1_mask := inb PIC1_DATA, pic2_mask := inb PIC2_DATA\<rparr>;
          cmd = (\<lambda>p v t. io_wait (outb p v t));
          s1 = cmd PIC2_COMMAND 0x11 (cmd PIC1_COMMAND 0x11 s0);
          s2 = cmd PIC2_DATA offset2 (cmd PIC1_DATA offset1 s1);
          s3 = cmd PIC2_DATA 2 (cmd PIC1_DATA 4 s2);
          s4 = cmd PIC2_DATA 0x01 (cmd PIC1_DATA 0x01 s3)
      in outb PIC2_DATA 0xFF (outb PIC1_DATA 0xFF s4))"

definition pic_send_eoi :: "u8 \<Rightarrow> 'a kintr_scheme \<Rightarrow> 'a kintr_scheme" where
  "pic_send_eoi irq s =
     outb PIC1_COMMAND 0x20 (if 8 \<le> irq then outb PIC2_COMMAND 0x20 s else s)"

definition pic_set_mask :: "u8 \<Rightarrow> 'a kintr_scheme \<Rightarrow> 'a kintr_scheme" where
  "pic_set_mask irq s =
     (if irq < 8
      then let m = pic1_mask s OR push_bit (unat irq) 1
        in outb PIC1_DATA m (s\<lparr>pic1_mask := m\<rparr>)
      else let m = pic2_mask s OR push_bit (unat (irq - 8)) 1
        in outb PIC2_DATA m (s\<lparr>pic2_mask := m\<rparr>))"

definition pic_clear_mask :: "u8 \<Rightarrow> 'a kintr_scheme \<Rightarrow> 'a kintr_scheme" where
  "pic_clear_mask irq s =
     (if irq < 8
      then let m = pic1_mask s AND NOT (push_bit (unat irq) 1)
        in outb PIC1_DATA m (s\<lparr>pic1_mask := m\<rparr>)
      else let m = pic2_mask s AND NOT (push_bit (unat (irq - 8)) 1)
        in outb PIC2_DATA m (s\<lparr>pic2_mask := m\<rparr>))"

definition pic_get_irr :: "(u16 \<Rightarrow> u8) \<Rightarrow> 'a kintr_scheme \<Rightarrow> u16 \<times> 'a kintr_scheme" where
  "pic_get_irr inb s =
     (let s1 = outb PIC2_COMMAND 0x0A (outb PIC1_COMMAND 0x0A s)
      in (push_bit 8 (ucast (inb PIC2_COMMAND)) OR ucast (inb PIC1_COMMAND), s1))"

definition pic_get_isr :: "(u16 \<Rightarrow> u8) \<Rightarrow> 'a kintr_scheme \<Rightarrow> u16 \<times> 'a kintr_scheme" where
  "pic_get_isr inb s =
     (let s1 = outb PIC2_COMMAND 0x0B (outb PIC1_COMMAND 0x0B s)
      in (push_bit 8 (ucast (inb PIC2_COMMAND)) OR ucast (inb PIC1_COMMAND), s1))"

definition pic_disable :: "'a kintr_scheme \<Rightarrow> 'a kintr_scheme" where
  "pic_disable s = outb PIC2_DATA 0xFF (outb PIC1_DATA 0xFF s)"

section \<open>Dispatch\<close>

text \<open>
  \<open>run h err\<close> is the handler \<open>h\<close> called with error code \<open>err\<close>: the handlers belong to
  the components that register them. An interrupt number outside the table is an access outside
  the array.
\<close>

definition isr_handler :: "(isr \<Rightarrow> 'a kintr_scheme \<Rightarrow> 'a kintr_scheme option) \<Rightarrow> u32 \<Rightarrow>
    'a kintr_scheme \<Rightarrow> 'a kintr_scheme option" where
  "isr_handler run int_no s = do {
     h \<leftarrow> arr_get (handlers s) (unat int_no);
     case h of
       Some f \<Rightarrow> run f s
     | None \<Rightarrow> do {
         n \<leftarrow> itoa_buf 4 (unat int_no);
         Some (puts newline (puts n (puts ''Islenmeyen kesme: '' s)))
       }
   }"

definition irq_handler :: "(isr \<Rightarrow> 'a kintr_scheme \<Rightarrow> 'a kintr_scheme option) \<Rightarrow> u32 \<Rightarrow>
    'a kintr_scheme \<Rightarrow> 'a kintr_scheme option" where
  "irq_handler run irq_no s =
     (let s1 = (if 8 \<le> irq_no then outb PIC2_COMMAND 0x20 s else s);
          s2 = outb PIC1_COMMAND 0x20 s1
      in arr_get (handlers s2) (unat (irq_no + 32)) \<bind> (\<lambda>h.
         case h of Some f \<Rightarrow> run f s2 | None \<Rightarrow> Some s2))"

section \<open>The second implementation, \<^verbatim>\<open>interrupt/idt.c\<close>\<close>

definition idt_gate :: "nat \<Rightarrow> u32 \<Rightarrow> 'a kintr_scheme \<Rightarrow> 'a kintr_scheme" where
  "idt_gate n addr s = set_idt_gate (of_nat n) addr 0x08 (0x80 OR 0x00 OR 0x0E) s"

definition idt_init :: "(u16 \<Rightarrow> u8) \<Rightarrow> (nat \<Rightarrow> u32) \<Rightarrow> u32 \<Rightarrow> 'a kintr_scheme \<Rightarrow> 'a kintr_scheme" where
  "idt_init inb isr_addr table s =
     (let s1 = puts (''Kesme sistemi baslatiliyor...'' @ newline) s;
          s2 = s1\<lparr>idt_limit := 8 * of_nat IDT_ENTRIES - 1, idt_base := table,
            idt_entries := map (\<lambda>_. gate 0 0 0) (idt_entries s1)\<rparr>;
          s3 = fold (\<lambda>i. idt_gate i (isr_addr i)) [0..<32] s2;
          s4 = pic_init inb 0x20 0x28 s3;
          s5 = fold (\<lambda>i. idt_gate i (isr_addr i)) [32..<48] s4
      in puts (''Kesme sistemi baslatildi.'' @ newline) (s5\<lparr>int_enabled := True\<rparr>))"

definition isr_handler2 :: "(isr \<Rightarrow> u32 \<Rightarrow> 'a kintr_scheme \<Rightarrow> 'a kintr_scheme option) \<Rightarrow> u32 \<Rightarrow> u32 \<Rightarrow>
    'a kintr_scheme \<Rightarrow> 'a kintr_scheme option" where
  "isr_handler2 run int_no err_code s = do {
     h \<leftarrow> arr_get (handlers s) (unat int_no);
     case h of
       Some f \<Rightarrow> run f err_code s
     | None \<Rightarrow>
         Some (emit Reset_color (puts ('')'' @ newline) (emit (Print_int err_code)
           (puts '' (Hata kodu: '' (emit (Print_int int_no) (puts ''Islenmeyen kesme: ''
             (emit (Set_fg VGA_COLOR_RED) s)))))))
   }"

definition irq_handler2 :: "(isr \<Rightarrow> u32 \<Rightarrow> 'a kintr_scheme \<Rightarrow> 'a kintr_scheme option) \<Rightarrow> u32 \<Rightarrow>
    'a kintr_scheme \<Rightarrow> 'a kintr_scheme option" where
  "irq_handler2 run irq_no s = do {
     h \<leftarrow> arr_get (handlers s) (unat (irq_no + 32));
     s1 \<leftarrow> (case h of Some f \<Rightarrow> run f 0 s | None \<Rightarrow> Some s);
     Some (pic_send_eoi (ucast irq_no) s1)
   }"

section \<open>Gates and the address they hold\<close>

definition gate_base :: "idt_entry \<Rightarrow> u32" where
  "gate_base e = push_bit 16 (ucast (ie_base_high e)) OR ucast (ie_base_low e)"

lemma gate_base_gate [simp]: "gate_base (gate b sel fl) = b"
proof -
  have m: "(0xFFFF :: u32) = mask 16" by (simp add: mask_eq_exp_minus_1)
  show ?thesis
    unfolding gate_base_def gate_def m
  proof (rule bit_word_eqI)
    fix n assume n: "n < LENGTH(32)"
    then consider "n < 16" | "16 \<le> n" "n - 16 < 16" by fastforce
    then show "bit (push_bit 16 (ucast (ie_base_high \<lparr>ie_base_low = ucast (b AND mask 16),
        ie_selector = sel, ie_zero = 0, ie_flags = fl, ie_base_high = ucast (drop_bit 16 b AND mask 16)\<rparr>))
      OR ucast (ie_base_low \<lparr>ie_base_low = ucast (b AND mask 16), ie_selector = sel, ie_zero = 0,
        ie_flags = fl, ie_base_high = ucast (drop_bit 16 b AND mask 16)\<rparr>) :: u32) n = bit b n"
      using n by cases (auto simp: bit_simps)
  qed
qed

lemma gate_fields [simp]: "ie_selector (gate b sel fl) = sel" "ie_flags (gate b sel fl) = fl"
  by (simp_all add: gate_def)

text \<open>A gate takes interrupts when the present bit of its flags is set.\<close>

definition gate_present :: "idt_entry \<Rightarrow> bool" where
  "gate_present e \<longleftrightarrow> bit (ie_flags e) 7"

definition tables_ok :: "'a kintr_scheme \<Rightarrow> bool" where
  "tables_ok s \<longleftrightarrow> length (idt_entries s) = IDT_ENTRIES \<and> length (handlers s) = IDT_ENTRIES"

lemma set_idt_gate_simps [simp]:
  "idt_entries (set_idt_gate n b sel fl s) = (idt_entries s)[unat n := gate b sel fl]"
  "handlers (set_idt_gate n b sel fl s) = handlers s"
  "port_out (set_idt_gate n b sel fl s) = port_out s"
  by (simp_all add: set_idt_gate_def)

lemma unat8 [simp]: "n < 256 \<Longrightarrow> unat (of_nat n :: u8) = n"
  by (simp add: unat_of_nat take_bit_nat_eq_self)

lemma unat8_less: "unat (x :: u8) < 256"
proof -
  have "unat x < 2 ^ LENGTH(8)" by (rule unsigned_less)
  then show ?thesis by simp
qed

lemma tables_ok_steps [invariants]:
  "tables_ok s \<Longrightarrow> tables_ok (set_idt_gate n b sel fl s)"
  "tables_ok s \<Longrightarrow> tables_ok (register_interrupt_handler n h s)"
  "tables_ok s \<Longrightarrow> tables_ok (outb p v s)"
  "tables_ok s \<Longrightarrow> tables_ok (emit c s)"
  by (simp_all add: tables_ok_def register_interrupt_handler_def)

lemma init_idt_clears:
  "n \<le> 256 \<Longrightarrow> tables_ok s \<Longrightarrow>
    idt_entries (fold (\<lambda>i t. (set_idt_gate (of_nat i) 0 0 0 t)\<lparr>handlers := (handlers t)[i := None]\<rparr>)
        [0..<n] s) = map (\<lambda>_. gate 0 0 0) [0..<n] @ drop n (idt_entries s) \<and>
    handlers (fold (\<lambda>i t. (set_idt_gate (of_nat i) 0 0 0 t)\<lparr>handlers := (handlers t)[i := None]\<rparr>)
        [0..<n] s) = map (\<lambda>_. None) [0..<n] @ drop n (handlers s)"
proof (induction n)
  case 0
  then show ?case by simp
next
  case (Suc n)
  then have "n < length (idt_entries s)" "n < length (handlers s)"
    by (simp_all add: tables_ok_def IDT_ENTRIES_def)
  then have "drop n (idt_entries s) = idt_entries s ! n # drop (Suc n) (idt_entries s)"
    "drop n (handlers s) = handlers s ! n # drop (Suc n) (handlers s)"
    by (simp_all add: Cons_nth_drop_Suc)
  with Suc show ?case by (simp add: list_update_append)
qed

lemma idt_gates_fold:
  "j \<le> 256 \<Longrightarrow> n < length (idt_entries s) \<Longrightarrow>
    idt_entries (fold (\<lambda>i. idt_gate i (f i)) [k..<j] s) ! n =
      (if k \<le> n \<and> n < j then gate (f n) 0x08 0x8E else idt_entries s ! n) \<and>
    length (idt_entries (fold (\<lambda>i. idt_gate i (f i)) [k..<j] s)) = length (idt_entries s)"
proof (induction j)
  case 0
  then show ?case by simp
next
  case (Suc j)
  show ?case
  proof (cases "k \<le> j")
    case True
    with Suc show ?thesis
      by (cases "n = j") (auto simp: idt_gate_def nth_list_update less_Suc_eq)
  next
    case False
    then show ?thesis by auto
  qed
qed

lemma pic_init_simps [simp]:
  "idt_entries (pic_init inb o1 o2 s) = idt_entries s"
  "handlers (pic_init inb o1 o2 s) = handlers s"
  by (simp_all add: pic_init_def io_wait_def Let_def)

lemma port_out_idt_gates [simp]:
  "port_out (fold (\<lambda>i. idt_gate i (f i)) is s) = port_out s"
  by (induction "is" arbitrary: s) (simp_all add: idt_gate_def)

text \<open>The gates and the port writes of \<^verbatim>\<open>idt_init\<close>.\<close>

lemma idt_init_entries:
  assumes "tables_ok s" "n < 256"
  shows "idt_entries (idt_init inb isr_addr table s) ! n =
    (if n < 48 then gate (isr_addr n) 8 0x8E else gate 0 0 0)"
proof -
  let ?s2 = "(puts (''Kesme sistemi baslatiliyor...'' @ newline) s)
    \<lparr>idt_limit := 8 * of_nat IDT_ENTRIES - 1, idt_base := table,
     idt_entries := map (\<lambda>_. gate 0 0 0) (idt_entries s)\<rparr>"
  let ?s4 = "pic_init inb 0x20 0x28 (fold (\<lambda>i. idt_gate i (isr_addr i)) [0..<32] ?s2)"
  have len: "length (idt_entries s) = 256" using assms(1) by (simp add: tables_ok_def IDT_ENTRIES_def)
  have first: "idt_entries ?s4 ! n = (if n < 32 then gate (isr_addr n) 8 0x8E else gate 0 0 0)"
    "length (idt_entries ?s4) = 256"
    using idt_gates_fold [of 32 n ?s2 isr_addr 0] len assms(2) by (simp_all del: upt_rec_numeral)
  show ?thesis
    using idt_gates_fold [of 48 n ?s4 isr_addr 32] first assms(2)
    by (simp add: idt_init_def Let_def del: upt_rec_numeral pic_init_simps)
qed

lemma idt_init_ports: "port_out (idt_init inb isr_addr table s) = port_out (pic_init inb 0x20 0x28 s)"
  by (simp add: idt_init_def pic_init_def io_wait_def Let_def del: upt_rec_numeral)

lemma gate_flag_bits: "bit (0x8E :: u8) 7" "\<not> bit (0 :: u8) 7" by simp_all

section \<open>Properties\<close>

text \<open>
  After \<^verbatim>\<open>init_idt\<close> of \<^verbatim>\<open>interrupt.c\<close> exactly the gates 0, 1, 32 and 33 are present, each
  with the full 32-bit address of its stub split over the two halves, and no handler is
  registered. A fault such as 13 or a timer line above 1 finds no gate.
\<close>

theorem init_idt_installs:
  assumes "tables_ok s" "n < 256"
  shows "gate_present (idt_entries (init_idt isr_addr table s) ! n) = (n \<in> {0, 1, 32, 33}) \<and>
    (n \<in> {0, 1, 32, 33} \<longrightarrow> gate_base (idt_entries (init_idt isr_addr table s) ! n) = isr_addr n) \<and>
    handlers (init_idt isr_addr table s) ! n = None \<and> tables_ok (init_idt isr_addr table s)"
proof -
  let ?s2 = "(puts (''Kesme sistemi baslatiliyor...'' @ newline) s)
    \<lparr>idt_limit := 8 * of_nat IDT_ENTRIES - 1, idt_base := table\<rparr>"
  have ok: "tables_ok ?s2" using assms(1) by (simp add: tables_ok_def)
  have len: "length (idt_entries s) = 256" "length (handlers s) = 256"
    using assms(1) by (simp_all add: tables_ok_def IDT_ENTRIES_def)
  have ents: "idt_entries (init_idt isr_addr table s) =
      (map (\<lambda>_. gate 0 0 0) [0..<256])[0 := gate (isr_addr 0) 8 0x8E, 1 := gate (isr_addr 1) 8 0x8E,
        32 := gate (isr_addr 32) 8 0x8E, 33 := gate (isr_addr 33) 8 0x8E]"
    using init_idt_clears [OF _ ok, of 256] len
    by (simp add: init_idt_def Let_def IDT_ENTRIES_def del: upt_rec_numeral upt_conv_Cons_Cons)
  have hs: "handlers (init_idt isr_addr table s) = map (\<lambda>_. None) [0..<256]"
    using init_idt_clears [OF _ ok, of 256] len
    by (simp add: init_idt_def Let_def IDT_ENTRIES_def del: upt_rec_numeral upt_conv_Cons_Cons)
  have bits: "bit (0x8E :: u8) 7" "\<not> bit (0 :: u8) 7" by simp_all
  show ?thesis
    using assms(2) bits
    by (auto simp: ents hs tables_ok_def IDT_ENTRIES_def gate_present_def nth_list_update
        simp del: upt_rec_numeral upt_conv_Cons_Cons)
qed

text \<open>A machine with both tables in place, and no handlers.\<close>

definition kintr0 :: kintr where
  "kintr0 = kmem.extend kmem0 \<lparr>idt_entries = replicate 256 (gate 0 0 0), idt_limit = 0,
     idt_base = 0, handlers = replicate 256 None, port_out = [], pic1_mask = 0xFF,
     pic2_mask = 0xFF, int_enabled = False\<rparr>"

lemma kintr0_simps [simp]:
  "idt_entries kintr0 = replicate 256 (gate 0 0 0)" "handlers kintr0 = replicate 256 None"
  "port_out kintr0 = []" "pic1_mask kintr0 = 0xFF" "pic2_mask kintr0 = 0xFF"
  "con_out kintr0 = []"
  by (simp_all add: kintr0_def kmem.defs kmem0_def)

lemma tables_ok_kintr0: "tables_ok kintr0"
  by (simp add: tables_ok_def IDT_ENTRIES_def)

theorem init_idt_installs_witness:
  "gate_base (idt_entries (init_idt (\<lambda>n. 0x100000 + of_nat n) 0x5000 kintr0) ! 33) = 0x100021
    \<and> \<not> gate_present (idt_entries (init_idt (\<lambda>n. 0x100000 + of_nat n) 0x5000 kintr0) ! 14)"
  using init_idt_installs [OF tables_ok_kintr0, of 33 "\<lambda>n. 0x100000 + of_nat n" "0x5000"]
    init_idt_installs [OF tables_ok_kintr0, of 14 "\<lambda>n. 0x100000 + of_nat n" "0x5000"]
  by simp

text \<open>
  \<^verbatim>\<open>idt_init\<close> of \<^verbatim>\<open>idt.c\<close> gives the 32 exceptions and the 16 device lines, and no other
  interrupt, a present gate to their stub, and programs the two controllers to raise the
  device lines as interrupts 32 to 47: the offsets 0x20 and 0x28 follow the initialisation
  words on the data ports, and both controllers are left with every line masked.
\<close>

theorem idt_init_installs:
  assumes "tables_ok s" "n < 256"
  shows "gate_present (idt_entries (idt_init inb isr_addr table s) ! n) = (n < 48) \<and>
    (n < 48 \<longrightarrow> gate_base (idt_entries (idt_init inb isr_addr table s) ! n) = isr_addr n) \<and>
    filter (\<lambda>(p, v). p \<noteq> 0x80) (port_out (idt_init inb isr_addr table s)) =
      filter (\<lambda>(p, v). p \<noteq> 0x80) (port_out s) @
      [(PIC1_COMMAND, 0x11), (PIC2_COMMAND, 0x11), (PIC1_DATA, 0x20), (PIC2_DATA, 0x28),
       (PIC1_DATA, 4), (PIC2_DATA, 2), (PIC1_DATA, 1), (PIC2_DATA, 1),
       (PIC1_DATA, 0xFF), (PIC2_DATA, 0xFF)]"
  using gate_flag_bits
  by (simp add: idt_init_entries [OF assms] idt_init_ports gate_present_def pic_init_def io_wait_def Let_def
      PIC1_COMMAND_def PIC2_COMMAND_def PIC1_DATA_def PIC2_DATA_def)

theorem idt_init_installs_witness:
  "gate_present (idt_entries (idt_init (\<lambda>_. 0) (\<lambda>n. of_nat n) 0x5000 kintr0) ! 47)
    \<and> \<not> gate_present (idt_entries (idt_init (\<lambda>_. 0) (\<lambda>n. of_nat n) 0x5000 kintr0) ! 48)"
  using idt_init_installs [OF tables_ok_kintr0, of 47 "\<lambda>_. 0" "\<lambda>n. of_nat n" "0x5000"]
    idt_init_installs [OF tables_ok_kintr0, of 48 "\<lambda>_. 0" "\<lambda>n. of_nat n" "0x5000"]
  by simp

text \<open>
  dispatch of a CPU exception. A number inside the table runs its registered handler and
  nothing else; without one the kernel prints the number in decimal, which always fits the
  four-byte buffer on the stack; a number outside the table is an access outside the array.
\<close>

theorem isr_handler_dispatch:
  assumes "tables_ok s"
  shows "isr_handler run n s =
    (if 256 \<le> unat n then None
     else case handlers s ! unat n of
       Some h \<Rightarrow> run h s
     | None \<Rightarrow> Some (puts newline (puts (dec_str (unat n)) (puts ''Islenmeyen kesme: '' s))))"
proof (cases "unat n < 256")
  case True
  then have "length (dec_str (unat n)) \<le> 3"
    by (intro length_dec_str) simp_all
  with True assms show ?thesis
    by (auto simp: isr_handler_def tables_ok_def IDT_ENTRIES_def itoa_buf_eq split: option.splits)
next
  case False
  with assms show ?thesis
    by (simp add: isr_handler_def tables_ok_def IDT_ENTRIES_def arr_get_def)
qed

theorem isr_handler_dispatch_witness:
  "isr_handler (\<lambda>_ _. None) 13 kintr0 =
    Some (puts newline (puts ''13'' (puts ''Islenmeyen kesme: '' kintr0)))"
proof -
  have "dec_str 13 = ''13''"
    by code_simp
  then show ?thesis
    using isr_handler_dispatch [OF tables_ok_kintr0, of "\<lambda>_ _. None" 13] by simp
qed

text \<open>The end-of-interrupt commands that one device interrupt needs.\<close>

definition eoi_writes :: "nat \<Rightarrow> (u16 \<times> u8) list" where
  "eoi_writes irq = (if 8 \<le> irq then [(PIC2_COMMAND, 0x20)] else []) @ [(PIC1_COMMAND, 0x20)]"

lemma port_out_pic_send_eoi:
  "port_out (pic_send_eoi irq s) = port_out s @ eoi_writes (unat irq)"
proof -
  have "8 \<le> irq \<longleftrightarrow> 8 \<le> unat irq" by (simp add: word_le_nat_alt)
  then show ?thesis by (simp add: pic_send_eoi_def eoi_writes_def)
qed

lemma irq_index:
  "unat n < 16 \<Longrightarrow> unat (n + 32 :: u32) = unat n + 32"
  by (simp add: unat_word_ariths)

text \<open>
  Both interrupt dispatchers acknowledge a device interrupt with the same commands, the
  slave controller before the master and only for the lines 8 to 15. \<^verbatim>\<open>interrupt.c\<close> does so
  before its handler runs, \<^verbatim>\<open>idt.c\<close> after it, so a handler of the latter runs with its line
  still in service. Without a handler the two agree.
\<close>

theorem irq_handler_acknowledges:
  assumes "tables_ok s" "unat n < 16"
  shows "irq_handler run n s =
      (case handlers s ! (unat n + 32) of
        Some h \<Rightarrow> run h (s\<lparr>port_out := port_out s @ eoi_writes (unat n)\<rparr>)
      | None \<Rightarrow> Some (s\<lparr>port_out := port_out s @ eoi_writes (unat n)\<rparr>)) \<and>
    irq_handler2 run2 n s =
      (case (case handlers s ! (unat n + 32) of Some h \<Rightarrow> run2 h 0 s | None \<Rightarrow> Some s) of
        Some t \<Rightarrow> Some (t\<lparr>port_out := port_out t @ eoi_writes (unat n)\<rparr>)
      | None \<Rightarrow> None)"
proof
  have idx: "unat (n + 32) = unat n + 32" using assms(2) by (rule irq_index)
  have len: "unat n + 32 < length (handlers s)"
    using assms by (simp add: tables_ok_def IDT_ENTRIES_def)
  have ge: "8 \<le> n \<longleftrightarrow> 8 \<le> unat n" by (simp add: word_le_nat_alt)
  show "irq_handler run n s =
      (case handlers s ! (unat n + 32) of
        Some h \<Rightarrow> run h (s\<lparr>port_out := port_out s @ eoi_writes (unat n)\<rparr>)
      | None \<Rightarrow> Some (s\<lparr>port_out := port_out s @ eoi_writes (unat n)\<rparr>))"
    using len by (auto simp: irq_handler_def Let_def idx ge outb_def eoi_writes_def
        split: option.splits)
  have n8: "unat (ucast n :: u8) = unat n"
    using assms(2) by (simp add: unsigned_ucast_eq take_bit_nat_eq_self)
  have eoi: "pic_send_eoi (ucast n) t = t\<lparr>port_out := port_out t @ eoi_writes (unat n)\<rparr>"
    for t :: "'b kintr_scheme"
  proof -
    have "8 \<le> (ucast n :: u8) \<longleftrightarrow> 8 \<le> unat n" using n8 by (simp add: word_le_nat_alt)
    then show ?thesis by (simp add: pic_send_eoi_def eoi_writes_def outb_def)
  qed
  show "irq_handler2 run2 n s =
      (case (case handlers s ! (unat n + 32) of Some h \<Rightarrow> run2 h 0 s | None \<Rightarrow> Some s) of
        Some t \<Rightarrow> Some (t\<lparr>port_out := port_out t @ eoi_writes (unat n)\<rparr>)
      | None \<Rightarrow> None)"
    using len by (simp add: irq_handler2_def idx eoi split: option.splits)
qed

theorem irq_handler_acknowledges_witness:
  "irq_handler (\<lambda>_ _. None) 12 kintr0 =
      Some (kintr0\<lparr>port_out := [(0xA0, 0x20), (0x20, 0x20)]\<rparr>)
    \<and> irq_handler2 (\<lambda>_ _ _. None) 1 kintr0 = Some (kintr0\<lparr>port_out := [(0x20, 0x20)]\<rparr>)"
  using irq_handler_acknowledges [OF tables_ok_kintr0, of 12 "\<lambda>_ _. None" "\<lambda>_ _ _. None"]
    irq_handler_acknowledges [OF tables_ok_kintr0, of 1 "\<lambda>_ _. None" "\<lambda>_ _ _. None"]
  by (simp add: eoi_writes_def PIC1_COMMAND_def PIC2_COMMAND_def)

text \<open>A device line is masked when its bit is set in the mask register of its controller.\<close>

definition line_masked :: "nat \<Rightarrow> 'a kintr_scheme \<Rightarrow> bool" where
  "line_masked i s \<longleftrightarrow> (if i < 8 then bit (pic1_mask s) i else bit (pic2_mask s) (i - 8))"

text \<open>
  Masking or unmasking one of the 16 device lines changes that line and no other, and
  writes the new mask, once, to the data port of the controller that owns the line.
\<close>

lemma pic_mask_one_line:
  assumes "unat irq < 16" "i < 16"
  shows "line_masked i (pic_set_mask irq s) = (i = unat irq \<or> line_masked i s) \<and>
    line_masked i (pic_clear_mask irq s) = (i \<noteq> unat irq \<and> line_masked i s) \<and>
    (\<forall>t \<in> {pic_set_mask irq s, pic_clear_mask irq s}.
      port_out t = port_out s @
        [if unat irq < 8 then (PIC1_DATA, pic1_mask t) else (PIC2_DATA, pic2_mask t)])"
proof -
  have lt: "irq < 8 \<longleftrightarrow> unat irq < 8" by (simp add: word_less_nat_alt)
  have sub: "\<not> unat irq < 8 \<Longrightarrow> unat (irq - 8) = unat irq - 8"
    by (subst unat_sub) (simp_all add: word_le_nat_alt)
  show ?thesis
    using assms sub
    by (auto simp: pic_set_mask_def pic_clear_mask_def line_masked_def Let_def lt bit_simps
        simp del: push_bit_of_1)
qed

end
