(* ===== verification/Timer.thy ===== *)
theory Timer
  imports Interrupts
begin

text \<open>
  The interval timer, \<^verbatim>\<open>src/kernel/timer/pit.c\<close>, and its only user, the uptime display
  \<^verbatim>\<open>timer_callback\<close> of \<^verbatim>\<open>src/kernel/init/main.c\<close>. An interrupt of the timer is one step of
  \<open>pit_handler\<close>; the halt in \<^verbatim>\<open>sleep_ms\<close> is left by the next one. What \<^verbatim>\<open>terminal_set_cursor_position\<close>,
  which no file of the repository defines, prints is the parameter \<open>goto\<close>.
\<close>

section \<open>State\<close>

abbreviation PIT_CHANNEL0 :: u16 where "PIT_CHANNEL0 \<equiv> 0x40"
abbreviation PIT_COMMAND :: u16 where "PIT_COMMAND \<equiv> 0x43"
abbreviation PIT_CHANNEL0_SELECT :: u8 where "PIT_CHANNEL0_SELECT \<equiv> 0x00"
abbreviation PIT_MODE3 :: u8 where "PIT_MODE3 \<equiv> 0x06"
abbreviation PIT_BOTH :: u8 where "PIT_BOTH \<equiv> 0x30"
abbreviation PIT_FREQUENCY :: u32 where "PIT_FREQUENCY \<equiv> 1193180"
abbreviation IRQ0 :: u8 where "IRQ0 \<equiv> 32"

text \<open>
  \<^verbatim>\<open>timer_info_t\<close>, the callback pointer (only \<^verbatim>\<open>main.c\<close> registers one), and the static variables
  of \<^verbatim>\<open>timer_callback\<close> and \<^verbatim>\<open>init_complete\<close> of \<^verbatim>\<open>main.c\<close>.
\<close>

record ktimer = kintr +
  tm_ticks :: u32
  tm_frequency :: u32
  tm_ms_per_tick :: u32
  tm_uptime_ms :: u64
  callback_set :: bool
  seconds :: u32
  last_tick :: u32
  init_complete :: bool

section \<open>Operations\<close>

definition get_ticks :: "'a ktimer_scheme \<Rightarrow> u32" where
  "get_ticks s = tm_ticks s"

definition get_uptime_ms :: "'a ktimer_scheme \<Rightarrow> u64" where
  "get_uptime_ms s = tm_uptime_ms s"

definition timer_callback :: "(u16 \<Rightarrow> u16 \<Rightarrow> con_call list) \<Rightarrow> 'a ktimer_scheme \<Rightarrow> 'a ktimer_scheme" where
  "timer_callback goto s =
     (let current_tick = get_ticks s
      in if tm_frequency s \<le> current_tick - last_tick s
         then let s1 = s\<lparr>seconds := seconds s + 1, last_tick := current_tick\<rparr>
           in if init_complete s1
              then fold emit (goto 70 0 @ [Set_fg VGA_COLOR_LIGHT_GREEN, Puts ''Uptime: '',
                Print_int (seconds s1), Puts ''s '', Reset_color]) s1
              else s1
         else s)"

definition pit_handler :: "(u16 \<Rightarrow> u16 \<Rightarrow> con_call list) \<Rightarrow> 'a ktimer_scheme \<Rightarrow> 'a ktimer_scheme" where
  "pit_handler goto s =
     (let s1 = s\<lparr>tm_ticks := tm_ticks s + 1\<rparr>;
          s2 = s1\<lparr>tm_uptime_ms := tm_uptime_ms s1 + ucast (tm_ms_per_tick s1)\<rparr>
      in if callback_set s2 then timer_callback goto s2 else s2)"

definition clamp_frequency :: "u32 \<Rightarrow> u32" where
  "clamp_frequency f = (let f1 = (if f < 18 then 18 else f) in if 1000 < f1 then 1000 else f1)"

definition pit_init :: "u32 \<Rightarrow> 'a ktimer_scheme \<Rightarrow> 'a ktimer_scheme" where
  "pit_init f s =
     (let s1 = puts (''Initializing timer...'' @ newline) s;
          frequency = clamp_frequency f;
          s2 = s1\<lparr>tm_frequency := frequency, tm_ms_per_tick := 1000 div frequency\<rparr>;
          divisor = PIT_FREQUENCY div frequency;
          s3 = outb PIT_COMMAND (PIT_CHANNEL0_SELECT OR PIT_MODE3 OR PIT_BOTH) s2;
          s4 = io_wait (outb PIT_CHANNEL0 (ucast (divisor AND 0xFF)) s3);
          s5 = outb PIT_CHANNEL0 (ucast (drop_bit 8 divisor AND 0xFF)) s4;
          s6 = register_interrupt_handler IRQ0 Isr_pit_handler s5;
          s7 = puts ('' Hz'' @ newline) (emit (Print_int frequency) (puts ''  Frequency: '' s6));
          s8 = puts ('' ms'' @ newline) (emit (Print_int (tm_ms_per_tick s7)) (puts ''  Time slice: '' s7))
      in puts (''Timer initialized.'' @ newline) s8)"

definition register_timer_callback :: "'a ktimer_scheme \<Rightarrow> 'a ktimer_scheme" where
  "register_timer_callback s = s\<lparr>callback_set := True\<rparr>"

partial_function (option) sleep_loop :: "(u16 \<Rightarrow> u16 \<Rightarrow> con_call list) \<Rightarrow> u32 \<Rightarrow> 'a ktimer_scheme \<Rightarrow>
    'a ktimer_scheme option" where
  "sleep_loop goto end s = (if get_ticks s < end then sleep_loop goto end (pit_handler goto s) else Some s)"

text \<open>Before \<^verbatim>\<open>pit_init\<close> the division is by zero.\<close>

definition sleep_ms :: "(u16 \<Rightarrow> u16 \<Rightarrow> con_call list) \<Rightarrow> u32 \<Rightarrow> 'a ktimer_scheme \<Rightarrow> 'a ktimer_scheme option" where
  "sleep_ms goto ms s =
     (if tm_ms_per_tick s = 0 then None
      else let start = get_ticks s;
             ticks_to_wait = (ms + tm_ms_per_tick s - 1) div tm_ms_per_tick s
           in sleep_loop goto (start + ticks_to_wait) s)"

section \<open>The counter of the device\<close>

text \<open>
  The reload value the device takes: the last two bytes written to its channel 0, low byte
  first.
\<close>

definition reload_value :: "(u16 \<times> u8) list \<Rightarrow> nat" where
  "reload_value out = (let ws = map snd (filter (\<lambda>w. fst w = PIT_CHANNEL0) out)
     in unat (last (butlast ws)) + 256 * unat (last ws))"

lemma clamp_bounds: "18 \<le> unat (clamp_frequency f)" "unat (clamp_frequency f) \<le> 1000"
  by (auto simp: clamp_frequency_def Let_def word_less_nat_alt word_le_nat_alt)

lemma unat_low_byte32: "unat (ucast ((w :: u32) AND 0xFF) :: u8) = unat w mod 256"
proof -
  have "w AND 0xFF = take_bit 8 w" by (simp add: take_bit_eq_mask mask_eq_exp_minus_1)
  then show ?thesis
    by (simp add: unsigned_ucast_eq unsigned_take_bit_eq) (simp add: take_bit_eq_mod)
qed

lemma pit_init_fields [simp]:
  "tm_frequency (pit_init f s) = clamp_frequency f" "tm_ms_per_tick (pit_init f s) = 1000 div clamp_frequency f"
  "tm_ticks (pit_init f s) = tm_ticks s" "tm_uptime_ms (pit_init f s) = tm_uptime_ms s"
  "seconds (pit_init f s) = seconds s" "last_tick (pit_init f s) = last_tick s"
  "callback_set (pit_init f s) = callback_set s" "init_complete (pit_init f s) = init_complete s"
  by (simp_all add: pit_init_def Let_def emit_def outb_def io_wait_def register_interrupt_handler_def)

lemma pit_init_out: "port_out (pit_init f s) = port_out s @
    [(PIT_COMMAND, 0x36), (PIT_CHANNEL0, ucast ((PIT_FREQUENCY div clamp_frequency f) AND 0xFF)), (0x80, 0),
     (PIT_CHANNEL0, ucast (drop_bit 8 (PIT_FREQUENCY div clamp_frequency f) AND 0xFF))]"
  by (simp add: pit_init_def Let_def io_wait_def register_interrupt_handler_def)

text \<open>
  C36: \<^verbatim>\<open>pit_init\<close> programs the divisor of the clamped frequency, low byte first. It reaches the
  device whole from 19 Hz on; at the lower bound of 18 Hz it does not fit 16 bits, and the
  timer runs at 1588 Hz instead.
\<close>

theorem pit_init_programs:
  "reload_value (port_out (pit_init f s)) = 1193180 div unat (clamp_frequency f) mod 65536 \<and>
   (reload_value (port_out (pit_init f s)) = 1193180 div unat (clamp_frequency f) \<longleftrightarrow> 18 < f) \<and>
   1193180 div reload_value (port_out (pit_init f s)) =
     (if f \<le> 18 then 1588 else 1193180 div (1193180 div unat (clamp_frequency f))) \<and>
   handlers (pit_init f s) = (handlers s)[32 := Some Isr_pit_handler]"
proof -
  let ?c = "unat (clamp_frequency f)" and ?d = "PIT_FREQUENCY div clamp_frequency f"
  have d: "unat ?d = 1193180 div ?c" by (simp add: unat_div)
  have rv: "reload_value (port_out (pit_init f s)) = 1193180 div ?c mod 65536"
  proof -
    have "reload_value (port_out (pit_init f s)) = unat ?d mod 256 + 256 * (unat ?d div 256 mod 256)"
      unfolding pit_init_out
      by (simp add: reload_value_def Let_def unat_low_byte32 butlast_append drop_bit_eq_div unat_div)
    then show ?thesis unfolding d using mod_mult2_eq [of "1193180 div ?c" 256 256] by simp
  qed
  have small: "18 < f \<Longrightarrow> 1193180 div ?c < 65536"
  proof -
    assume "18 < f"
    then have "19 \<le> ?c"
      by (auto simp: clamp_frequency_def Let_def word_less_nat_alt word_le_nat_alt)
    then have "1193180 div ?c \<le> 1193180 div 19" by (intro div_le_mono2) simp_all
    then show ?thesis by simp
  qed
  have eighteen: "f \<le> 18 \<Longrightarrow> ?c = 18"
    by (auto simp: clamp_frequency_def Let_def word_less_nat_alt word_le_nat_alt)
  have "handlers (pit_init f s) = (handlers s)[32 := Some Isr_pit_handler]"
    by (simp add: pit_init_def Let_def io_wait_def register_interrupt_handler_def)
  with rv small eighteen show ?thesis by (cases "18 < f") (auto simp: not_less)
qed

section \<open>Time\<close>

lemma timer_callback_eq:
  "\<exists>out. timer_callback goto s = (if tm_frequency s \<le> tm_ticks s - last_tick s
    then s\<lparr>seconds := seconds s + 1, last_tick := tm_ticks s, con_out := out\<rparr> else s)"
  by (rule exI [of _ "con_out s @ (if init_complete s then goto 70 0 @ [Set_fg VGA_COLOR_LIGHT_GREEN,
    Puts ''Uptime: '', Print_int (seconds s + 1), Puts ''s '', Reset_color] else [])"])
    (simp add: timer_callback_def get_ticks_def Let_def fold_emit emit_def)

lemma callback_fields [simp]:
  "tm_ticks (timer_callback goto s) = tm_ticks s" "tm_frequency (timer_callback goto s) = tm_frequency s"
  "tm_uptime_ms (timer_callback goto s) = tm_uptime_ms s"
  "tm_ms_per_tick (timer_callback goto s) = tm_ms_per_tick s"
  "callback_set (timer_callback goto s) = callback_set s"
  "seconds (timer_callback goto s) = (if tm_frequency s \<le> tm_ticks s - last_tick s then seconds s + 1 else seconds s)"
  "last_tick (timer_callback goto s) = (if tm_frequency s \<le> tm_ticks s - last_tick s then tm_ticks s else last_tick s)"
  using timer_callback_eq [of goto s] by (auto split: if_splits)

lemma pit_handler_fields [simp]:
  "tm_ticks (pit_handler goto s) = tm_ticks s + 1" "tm_frequency (pit_handler goto s) = tm_frequency s"
  "tm_uptime_ms (pit_handler goto s) = tm_uptime_ms s + ucast (tm_ms_per_tick s)"
  "tm_ms_per_tick (pit_handler goto s) = tm_ms_per_tick s" "callback_set (pit_handler goto s) = callback_set s"
  by (simp_all add: pit_handler_def Let_def)

text \<open>After \<open>n\<close> ticks from zero, the time counted and the seconds displayed.\<close>

definition started :: "u32 \<Rightarrow> 'a ktimer_scheme \<Rightarrow> bool" where
  "started f s \<longleftrightarrow> tm_ticks s = 0 \<and> tm_uptime_ms s = 0 \<and> seconds s = 0 \<and> last_tick s = 0 \<and>
     callback_set s \<and> tm_frequency s = f \<and> tm_ms_per_tick s = 1000 div f"

lemma ticks_counted:
  assumes "started f s" "0 < unat f" "n < 2 ^ 32"
  shows "unat (tm_ticks ((pit_handler goto ^^ n) s)) = n \<and>
    tm_uptime_ms ((pit_handler goto ^^ n) s) = of_nat n * ucast (tm_ms_per_tick s) \<and>
    tm_frequency ((pit_handler goto ^^ n) s) = f \<and> callback_set ((pit_handler goto ^^ n) s) \<and>
    tm_ms_per_tick ((pit_handler goto ^^ n) s) = tm_ms_per_tick s \<and>
    unat (seconds ((pit_handler goto ^^ n) s)) = n div unat f \<and>
    unat (last_tick ((pit_handler goto ^^ n) s)) = n div unat f * unat f"
  using assms(3)
proof (induction n)
  case 0
  then show ?case using assms(1) by (simp add: started_def)
next
  case (Suc n)
  let ?t = "(pit_handler goto ^^ n) s" and ?u = "(pit_handler goto ^^ Suc n) s"
  from Suc have IH: "unat (tm_ticks ?t) = n" "tm_uptime_ms ?t = of_nat n * ucast (tm_ms_per_tick s)"
    "tm_frequency ?t = f" "callback_set ?t" "tm_ms_per_tick ?t = tm_ms_per_tick s"
    "unat (seconds ?t) = n div unat f" "unat (last_tick ?t) = n div unat f * unat f" by auto
  have tk: "unat (tm_ticks ?t + 1) = Suc n" using IH(1) Suc.prems by (simp add: unat_word_ariths)
  have le: "n div unat f * unat f \<le> Suc n" by (metis div_times_less_eq_dividend le_SucI)
  have diff: "unat (tm_ticks ?t + 1 - last_tick ?t) = Suc n - n div unat f * unat f"
    using tk IH(7) le by (simp add: unat_sub_if')
  have cond: "f \<le> tm_ticks ?t + 1 - last_tick ?t \<longleftrightarrow> Suc n div unat f = Suc (n div unat f)"
    using diff assms(2) mod_less_divisor [OF assms(2), of n]
    by (simp add: word_le_nat_alt div_Suc mod_Suc Suc_diff_le minus_div_mult_eq_mod)
  have same: "\<not> f \<le> tm_ticks ?t + 1 - last_tick ?t \<Longrightarrow> Suc n div unat f = n div unat f"
    using cond by (simp add: div_Suc split: if_splits)
  have up: "unat (seconds ?t + 1) = Suc (n div unat f)"
  proof -
    have "n div unat f < 4294967295"
      using Suc.prems by (intro le_less_trans [OF div_le_dividend]) simp
    then show ?thesis using IH(6) by (simp add: unat_word_ariths)
  qed
  have whole: "Suc n div unat f = Suc (n div unat f) \<Longrightarrow> Suc n div unat f * unat f = Suc n"
    by (metis add.right_neutral div_Suc div_mod_decomp n_not_Suc_n)
  have u: "?u = timer_callback goto (?t\<lparr>tm_ticks := tm_ticks ?t + 1,
      tm_uptime_ms := tm_uptime_ms ?t + ucast (tm_ms_per_tick ?t)\<rparr>)"
    using IH(4) by (simp add: pit_handler_def Let_def)
  have time: "tm_uptime_ms ?u = of_nat (Suc n) * ucast (tm_ms_per_tick s)"
    unfolding u using IH by (simp add: distrib_right)
  have rest: "tm_frequency ?u = f" "callback_set ?u" "tm_ms_per_tick ?u = tm_ms_per_tick s"
    "tm_ticks ?u = tm_ticks ?t + 1" unfolding u using IH by simp_all
  have sec: "seconds ?u = (if f \<le> tm_ticks ?t + 1 - last_tick ?t then seconds ?t + 1 else seconds ?t)"
    and lt: "last_tick ?u = (if f \<le> tm_ticks ?t + 1 - last_tick ?t then tm_ticks ?t + 1 else last_tick ?t)"
    unfolding u using IH(3) by simp_all
  have "unat (seconds ?u) = Suc n div unat f \<and> unat (last_tick ?u) = Suc n div unat f * unat f"
  proof (cases "f \<le> tm_ticks ?t + 1 - last_tick ?t")
    case True
    with cond whole have d: "Suc n div unat f = Suc (n div unat f)" "Suc n div unat f * unat f = Suc n" by blast+
    show ?thesis unfolding sec lt if_P [OF True] using d tk up by (simp only: simp_thms)
  next
    case False
    show ?thesis unfolding sec lt if_not_P [OF False] using same [OF False] IH(6,7) by (simp only: simp_thms)
  qed
  with time rest IH(3) tk show ?case by (simp only: simp_thms)
qed

lemma sleep_loop_ticks:
  "unat end = unat (tm_ticks s) + k \<Longrightarrow> sleep_loop goto end s = Some ((pit_handler goto ^^ k) s)"
proof (induction k arbitrary: s)
  case 0
  then show ?case by (subst sleep_loop.simps) (simp add: get_ticks_def word_less_nat_alt)
next
  case (Suc k)
  have lt: "tm_ticks s < end" using Suc.prems by (simp add: word_less_nat_alt)
  then have "unat (tm_ticks s + 1) = Suc (unat (tm_ticks s))"
    using unat_less32 [of "end"] Suc.prems by (simp add: unat_word_ariths)
  with Suc.prems Suc.IH [of "pit_handler goto s"] lt show ?case
    by (subst sleep_loop.simps) (simp add: get_ticks_def funpow_swap1)
qed

text \<open>
  C35: from \<^verbatim>\<open>pit_init\<close> and the registration of the callback on, \<open>n\<close> timer interrupts count \<open>n\<close>
  ticks, \<open>n\<close> times the whole milliseconds of a tick (which is never more than the time passed,
  and less when the frequency does not divide 1000), and one displayed second for every
  \<open>frequency\<close> ticks.
\<close>

theorem pit_counts_time:
  fixes f :: u32 and goto :: "u16 \<Rightarrow> u16 \<Rightarrow> con_call list" and s :: "'a ktimer_scheme"
  assumes "tm_ticks s = 0" "tm_uptime_ms s = 0" "seconds s = 0" "last_tick s = 0" "n < 2 ^ 32"
  defines "t \<equiv> (pit_handler goto ^^ n) (register_timer_callback (pit_init f s))"
  shows "unat (get_ticks t) = n \<and>
    unat (get_uptime_ms t) = n * (1000 div unat (clamp_frequency f)) \<and>
    unat (get_uptime_ms t) * unat (clamp_frequency f) \<le> 1000 * n \<and>
    unat (seconds t) = n div unat (clamp_frequency f)"
proof -
  let ?c = "unat (clamp_frequency f)"
  have st: "started (clamp_frequency f) (register_timer_callback (pit_init f s))"
    using assms(1-4) by (simp add: started_def register_timer_callback_def)
  have "0 < ?c" using clamp_bounds(1) [of f] by simp
  note cnt = ticks_counted [OF st this assms(5), of goto, folded t_def]
  have "tm_ms_per_tick (register_timer_callback (pit_init f s)) = 1000 div clamp_frequency f"
    by (simp add: register_timer_callback_def)
  with cnt have t: "unat (tm_ticks t) = n" "tm_uptime_ms t = of_nat n * ucast (1000 div clamp_frequency f)"
    "unat (seconds t) = n div ?c" by simp_all
  have ms: "unat (1000 div clamp_frequency f) = 1000 div ?c" by (simp add: unat_div)
  have "n * (1000 div ?c) \<le> n * 1000" by (intro mult_le_mono) simp_all
  then have "n * (1000 div ?c) < 2 ^ 64" by (rule le_less_trans) (use assms(5) in simp)
  moreover have "unat (ucast (1000 div clamp_frequency f) :: u64) = 1000 div ?c"
    using ms le_less_trans [OF div_le_dividend [of 1000 ?c], of "2 ^ 64"]
    by (simp add: unsigned_ucast_eq take_bit_nat_eq_self)
  ultimately have up: "unat (tm_uptime_ms t) = n * (1000 div ?c)"
    unfolding t(2) using assms(5) by (simp add: unat_word_ariths unat_of_nat take_bit_nat_eq_self)
  have "n * (1000 div ?c) * ?c \<le> 1000 * n"
    using mult_le_mono2 [OF div_times_less_eq_dividend [of 1000 ?c], of n] by (simp add: ac_simps)
  with t up show ?thesis by (simp add: get_ticks_def get_uptime_ms_def)
qed

text \<open>A machine that has just booted, with a cursor call that prints nothing.\<close>

definition ktimer0 :: ktimer where
  "ktimer0 = kintr.extend kintr0 \<lparr>tm_ticks = 0, tm_frequency = 0, tm_ms_per_tick = 0, tm_uptime_ms = 0,
     callback_set = False, seconds = 0, last_tick = 0, init_complete = False\<rparr>"

lemma ktimer0_simps [simp]:
  "tm_ticks ktimer0 = 0" "tm_frequency ktimer0 = 0" "tm_ms_per_tick ktimer0 = 0" "tm_uptime_ms ktimer0 = 0"
  "seconds ktimer0 = 0" "last_tick ktimer0 = 0"
  by (simp_all add: ktimer0_def kintr.defs)

lemma clamp_100: "unat (clamp_frequency 100) = 100" by (simp add: clamp_frequency_def)

theorem pit_counts_time_witness:
  "unat (get_uptime_ms ((pit_handler (\<lambda>_ _. []) ^^ 2599) (register_timer_callback (pit_init 100 ktimer0)))) = 25990 \<and>
   unat (seconds ((pit_handler (\<lambda>_ _. []) ^^ 2599) (register_timer_callback (pit_init 100 ktimer0)))) = 25"
  using pit_counts_time [where s = ktimer0 and n = 2599 and f = 100 and goto = "\<lambda>_ _. []"] unfolding clamp_100 by simp

text \<open>
  \<^verbatim>\<open>sleep_ms\<close> waits for the number of ticks that covers the time, rounded up; when the tick
  counter would pass its 32 bits meanwhile, it does not wait at all, and before \<^verbatim>\<open>pit_init\<close> it
  divides by zero.
\<close>

theorem sleep_ms_ticks:
  fixes goto :: "u16 \<Rightarrow> u16 \<Rightarrow> con_call list" and s :: "'a ktimer_scheme"
  defines "m \<equiv> unat (tm_ms_per_tick s)"
  assumes "unat ms + m \<le> 2 ^ 32"
  shows "sleep_ms goto ms s = (if m = 0 then None
    else if unat (tm_ticks s) + (unat ms + m - 1) div m < 2 ^ 32
    then Some ((pit_handler goto ^^ ((unat ms + m - 1) div m)) s) else Some s)"
proof (cases "m = 0")
  case True
  then show ?thesis by (simp add: sleep_ms_def m_def unat_eq_zero)
next
  case False
  let ?w = "(ms + tm_ms_per_tick s - 1) div tm_ms_per_tick s"
  have "tm_ms_per_tick s \<noteq> 0" using False by (auto simp: m_def)
  have "ms + tm_ms_per_tick s - 1 = ms + (tm_ms_per_tick s - 1)" by simp
  moreover have "unat (tm_ms_per_tick s - 1) = m - 1"
    using \<open>tm_ms_per_tick s \<noteq> 0\<close> by (simp add: m_def unat_minus_one)
  moreover have "(unat ms + (m - 1)) mod 2 ^ LENGTH(32) = unat ms + (m - 1)"
    using assms(2) False by (intro mod_less) simp
  ultimately have "unat (ms + tm_ms_per_tick s - 1) = unat ms + (m - 1)"
    by (simp only: unat_word_ariths(1))
  then have "unat (ms + tm_ms_per_tick s - 1) = unat ms + m - 1" using False by simp
  then have w: "unat ?w = (unat ms + m - 1) div m" by (simp add: unat_div m_def)
  show ?thesis
  proof (cases "unat (tm_ticks s) + (unat ms + m - 1) div m < 2 ^ 32")
    case True
    then have "unat (tm_ticks s + ?w) = unat (tm_ticks s) + (unat ms + m - 1) div m"
      using w by (simp add: unat_word_ariths)
    from sleep_loop_ticks [OF this] show ?thesis
      using False True \<open>tm_ms_per_tick s \<noteq> 0\<close> by (simp add: sleep_ms_def get_ticks_def Let_def)
  next
    case wrap: False
    have "unat ?w < 2 ^ 32" by (rule unat_less32)
    then have "unat (tm_ticks s + ?w) = unat (tm_ticks s) + unat ?w - 2 ^ 32"
      using wrap w unat_less32 [of "tm_ticks s"] by (simp add: unat_word_ariths mod_if)
    then have "\<not> tm_ticks s < tm_ticks s + ?w"
      using \<open>unat ?w < 2 ^ 32\<close> by (simp add: word_less_nat_alt)
    then have "sleep_loop goto (tm_ticks s + ?w) s = Some s"
      by (subst sleep_loop.simps) (simp add: get_ticks_def)
    then show ?thesis
      using False wrap \<open>tm_ms_per_tick s \<noteq> 0\<close> by (simp add: sleep_ms_def get_ticks_def Let_def)
  qed
qed

theorem sleep_ms_ticks_witness:
  "sleep_ms (\<lambda>_ _. []) 25 (pit_init 100 ktimer0) = Some ((pit_handler (\<lambda>_ _. []) ^^ 3) (pit_init 100 ktimer0)) \<and>
   sleep_ms (\<lambda>_ _. []) 25 ktimer0 = None"
  using sleep_ms_ticks [where ms = 25 and s = "pit_init 100 ktimer0" and goto = "\<lambda>_ _. []"]
    sleep_ms_ticks [where ms = 25 and s = ktimer0 and goto = "\<lambda>_ _. []"]
  by (simp add: clamp_frequency_def)

end
