(* ===== verification/Keyboard.thy ===== *)
theory Keyboard
  imports Interrupts
begin

text \<open>
  The PS/2 keyboard driver, \<^verbatim>\<open>src/drivers/keyboard.c\<close>: the 256-character ring buffer, the
  translation of scancodes under the modifier keys, the interrupt handler with its three
  modes, and the reading functions. A read of the data port delivers the scancode of the
  interrupt being handled; \<^verbatim>\<open>keyboard_getchar\<close>, which halts the processor until an interrupt
  has filled the buffer, takes the scancodes still to arrive as an argument.
\<close>

section \<open>Bounded queues\<close>

text \<open>
  What a client of a bounded first-in-first-out buffer relies on: \<open>items\<close> is its contents,
  oldest first; a push into a full buffer is dropped; a pop of an empty one returns \<open>nothing\<close>.
\<close>

locale bounded_queue =
  fixes wf :: "'s \<Rightarrow> bool"
    and items :: "'s \<Rightarrow> 'x list"
    and push :: "'x \<Rightarrow> 's \<Rightarrow> 's"
    and pop :: "'s \<Rightarrow> 'x \<times> 's"
    and cap :: nat
    and nothing :: 'x
  assumes wf_push: "wf s \<Longrightarrow> wf (push x s)"
    and wf_pop: "wf s \<Longrightarrow> wf (snd (pop s))"
    and items_cap: "wf s \<Longrightarrow> length (items s) \<le> cap"
    and items_push: "wf s \<Longrightarrow>
      items (push x s) = (if length (items s) < cap then items s @ [x] else items s)"
    and pop_empty: "wf s \<Longrightarrow> items s = [] \<Longrightarrow> pop s = (nothing, s)"
    and pop_items: "wf s \<Longrightarrow> items s = x # xs \<Longrightarrow> fst (pop s) = x \<and> items (snd (pop s)) = xs"
begin

lemma items_push_take: "wf s \<Longrightarrow> items (push x s) = take cap (items s @ [x])"
  using items_cap [of s] by (auto simp: items_push)

lemma wf_pushes: "wf s \<Longrightarrow> wf (fold push xs s)"
  by (induction xs arbitrary: s) (auto intro: wf_push)

lemma items_pushes: "wf s \<Longrightarrow> items (fold push xs s) = take cap (items s @ xs)"
proof (induction xs arbitrary: s)
  case Nil
  then show ?case using items_cap by simp
next
  case (Cons x xs)
  have "take cap (take cap (items s @ [x]) @ xs) = take cap (items s @ x # xs)"
  proof (cases "length (items s) < cap")
    case True
    then show ?thesis by simp
  next
    case False
    with items_cap [OF Cons.prems] show ?thesis by simp
  qed
  with Cons show ?case by (simp add: wf_push items_push_take)
qed

lemma items_pop: "wf s \<Longrightarrow> items (snd (pop s)) = tl (items s)"
  by (cases "items s") (auto simp: pop_empty pop_items)

lemma pop_result: "wf s \<Longrightarrow> fst (pop s) = (case items s of [] \<Rightarrow> nothing | x # xs \<Rightarrow> x)"
  by (cases "items s") (auto simp: pop_empty pop_items)

end

section \<open>State\<close>

abbreviation KEYCODE_ESCAPE :: u8 where "KEYCODE_ESCAPE \<equiv> 0x01"
abbreviation KEYCODE_BACKSPACE :: u8 where "KEYCODE_BACKSPACE \<equiv> 0x0E"
abbreviation KEYCODE_TAB :: u8 where "KEYCODE_TAB \<equiv> 0x0F"
abbreviation KEYCODE_ENTER :: u8 where "KEYCODE_ENTER \<equiv> 0x1C"
abbreviation KEYCODE_LCTRL :: u8 where "KEYCODE_LCTRL \<equiv> 0x1D"
abbreviation KEYCODE_LSHIFT :: u8 where "KEYCODE_LSHIFT \<equiv> 0x2A"
abbreviation KEYCODE_RSHIFT :: u8 where "KEYCODE_RSHIFT \<equiv> 0x36"
abbreviation KEYCODE_LALT :: u8 where "KEYCODE_LALT \<equiv> 0x38"
abbreviation KEYCODE_CAPSLOCK :: u8 where "KEYCODE_CAPSLOCK \<equiv> 0x3A"
abbreviation KEYCODE_NUMLOCK :: u8 where "KEYCODE_NUMLOCK \<equiv> 0x45"
abbreviation KEYCODE_SCROLLLOCK :: u8 where "KEYCODE_SCROLLLOCK \<equiv> 0x46"
abbreviation KEYCODE_HOME :: u8 where "KEYCODE_HOME \<equiv> 0x47"
abbreviation KEYCODE_UP :: u8 where "KEYCODE_UP \<equiv> 0x48"
abbreviation KEYCODE_PGUP :: u8 where "KEYCODE_PGUP \<equiv> 0x49"
abbreviation KEYCODE_LEFT :: u8 where "KEYCODE_LEFT \<equiv> 0x4B"
abbreviation KEYCODE_RIGHT :: u8 where "KEYCODE_RIGHT \<equiv> 0x4D"
abbreviation KEYCODE_END :: u8 where "KEYCODE_END \<equiv> 0x4F"
abbreviation KEYCODE_DOWN :: u8 where "KEYCODE_DOWN \<equiv> 0x50"
abbreviation KEYCODE_PGDN :: u8 where "KEYCODE_PGDN \<equiv> 0x51"
abbreviation KEYCODE_INSERT :: u8 where "KEYCODE_INSERT \<equiv> 0x52"
abbreviation KEYCODE_DELETE :: u8 where "KEYCODE_DELETE \<equiv> 0x53"

datatype keyboard_mode = KEYBOARD_MODE_RAW | KEYBOARD_MODE_ASCII | KEYBOARD_MODE_ECHO

datatype keyboard_layout = KEYBOARD_LAYOUT_US | KEYBOARD_LAYOUT_TR

record key_state =
  shift_pressed :: bool
  ctrl_pressed :: bool
  alt_pressed :: bool
  capslock_on :: bool
  numlock_on :: bool
  scrolllock_on :: bool

record kkbd = kintr +
  kb_buffer :: "char list"
  buffer_start :: u32
  buffer_end :: u32
  buffer_count :: u32
  kb_keys :: key_state
  current_mode :: keyboard_mode
  current_layout :: keyboard_layout

definition KEYBOARD_BUFFER_SIZE :: nat where
  "KEYBOARD_BUFFER_SIZE = 256"

section \<open>The ring buffer\<close>

definition buffer_push :: "char \<Rightarrow> 'a kkbd_scheme \<Rightarrow> 'a kkbd_scheme" where
  "buffer_push c s =
     (if buffer_count s < of_nat KEYBOARD_BUFFER_SIZE
      then s\<lparr>kb_buffer := (kb_buffer s)[unat (buffer_end s) := c],
        buffer_end := (buffer_end s + 1) mod of_nat KEYBOARD_BUFFER_SIZE,
        buffer_count := buffer_count s + 1\<rparr>
      else s)"

definition buffer_pop :: "'a kkbd_scheme \<Rightarrow> char \<times> 'a kkbd_scheme" where
  "buffer_pop s =
     (if buffer_count s = 0 then (NUL, s)
      else (kb_buffer s ! unat (buffer_start s),
        s\<lparr>buffer_start := (buffer_start s + 1) mod of_nat KEYBOARD_BUFFER_SIZE,
          buffer_count := buffer_count s - 1\<rparr>))"

section \<open>Scancodes\<close>

text \<open>The keymaps have 120 initialisers each; the remaining entries are zero.\<close>

definition us_keymap_lower :: "char list" where
  "us_keymap_lower =
     [NUL, KEY_ESCAPE] @ ''1234567890-='' @ [KEY_BACKSPACE] @
     [KEY_TAB] @ ''qwertyuiop[]'' @ [KEY_ENTER] @
     [NUL] @ ''asdfghjkl;'' @ [CHR 0x27, CHR 0x60] @
     [NUL, CHR 0x5C] @ ''zxcvbnm,./'' @ [NUL] @
     ''*'' @ [NUL] @ '' '' @ replicate 70 NUL"

definition us_keymap_upper :: "char list" where
  "us_keymap_upper =
     [NUL, KEY_ESCAPE] @ ''!@#$%^&*()_+'' @ [KEY_BACKSPACE] @
     [KEY_TAB] @ ''QWERTYUIOP{}'' @ [KEY_ENTER] @
     [NUL] @ ''ASDFGHJKL:'' @ [CHR 0x22, CHR 0x7E] @
     [NUL, CHR 0x7C] @ ''ZXCVBNM<>?'' @ [NUL] @
     ''*'' @ [NUL] @ '' '' @ replicate 70 NUL"

definition tr_keymap_lower :: "char list" where
  "tr_keymap_lower =
     [NUL, KEY_ESCAPE] @ ''1234567890*-'' @ [KEY_BACKSPACE] @
     [KEY_TAB] @ ''qwertyuiopgu'' @ [KEY_ENTER] @
     [NUL] @ ''asdfghjklsi'' @ [CHR 0x22] @
     [NUL] @ '',zxcvbnmoc.'' @ [NUL] @
     ''*'' @ [NUL] @ '' '' @ replicate 70 NUL"

definition tr_keymap_upper :: "char list" where
  "tr_keymap_upper =
     [NUL, KEY_ESCAPE] @ ''!'' @ [CHR 0x27] @ ''^+%&/()=?_'' @ [KEY_BACKSPACE] @
     [KEY_TAB] @ ''QWERTYUIOPGU'' @ [KEY_ENTER] @
     [NUL] @ ''ASDFGHJKLSI'' @ ''E'' @
     [NUL] @ '';ZXCVBNMOC:'' @ [NUL] @
     ''*'' @ [NUL] @ '' '' @ replicate 70 NUL"

definition key_release :: "u8 \<Rightarrow> key_state \<Rightarrow> key_state" where
  "key_release key k =
     (if key = KEYCODE_LSHIFT \<or> key = KEYCODE_RSHIFT then k\<lparr>shift_pressed := False\<rparr>
      else if key = KEYCODE_LCTRL then k\<lparr>ctrl_pressed := False\<rparr>
      else if key = KEYCODE_LALT then k\<lparr>alt_pressed := False\<rparr>
      else k)"

text \<open>The first \<^verbatim>\<open>switch\<close> of a key press: the keys that only change the state.\<close>

definition modifier_press :: "u8 \<Rightarrow> key_state \<Rightarrow> key_state option" where
  "modifier_press key k =
     (if key = KEYCODE_LSHIFT \<or> key = KEYCODE_RSHIFT then Some (k\<lparr>shift_pressed := True\<rparr>)
      else if key = KEYCODE_LCTRL then Some (k\<lparr>ctrl_pressed := True\<rparr>)
      else if key = KEYCODE_LALT then Some (k\<lparr>alt_pressed := True\<rparr>)
      else if key = KEYCODE_CAPSLOCK then Some (k\<lparr>capslock_on := \<not> capslock_on k\<rparr>)
      else if key = KEYCODE_NUMLOCK then Some (k\<lparr>numlock_on := \<not> numlock_on k\<rparr>)
      else if key = KEYCODE_SCROLLLOCK then Some (k\<lparr>scrolllock_on := \<not> scrolllock_on k\<rparr>)
      else None)"

definition special_key :: "u8 \<Rightarrow> char option" where
  "special_key key =
     (if key = KEYCODE_ENTER then Some KEY_ENTER
      else if key = KEYCODE_BACKSPACE then Some KEY_BACKSPACE
      else if key = KEYCODE_TAB then Some KEY_TAB
      else if key = KEYCODE_ESCAPE then Some KEY_ESCAPE
      else if key = KEYCODE_HOME then Some KEY_HOME
      else if key = KEYCODE_END then Some KEY_END
      else if key = KEYCODE_INSERT then Some NUL
      else if key = KEYCODE_DELETE then Some KEY_DELETE
      else if key = KEYCODE_PGUP then Some KEY_PAGE_UP
      else if key = KEYCODE_PGDN then Some KEY_PAGE_DOWN
      else if key = KEYCODE_LEFT then Some KEY_ARROW_LEFT
      else if key = KEYCODE_RIGHT then Some KEY_ARROW_RIGHT
      else if key = KEYCODE_UP then Some KEY_ARROW_UP
      else if key = KEYCODE_DOWN then Some KEY_ARROW_DOWN
      else None)"

definition keymap :: "keyboard_layout \<Rightarrow> bool \<Rightarrow> char list" where
  "keymap lay use_uppercase =
     (if lay = KEYBOARD_LAYOUT_US
      then (if use_uppercase then us_keymap_upper else us_keymap_lower)
      else (if use_uppercase then tr_keymap_upper else tr_keymap_lower))"

definition keycode_to_ascii :: "u8 \<Rightarrow> 'a kkbd_scheme \<Rightarrow> char \<times> 'a kkbd_scheme" where
  "keycode_to_ascii keycode s =
     (let is_key_release = (keycode AND 0x80 \<noteq> 0);
          key = keycode AND 0x7F
      in if is_key_release then (NUL, s\<lparr>kb_keys := key_release key (kb_keys s)\<rparr>)
         else case modifier_press key (kb_keys s) of
           Some k \<Rightarrow> (NUL, s\<lparr>kb_keys := k\<rparr>)
         | None \<Rightarrow>
           (case special_key key of
             Some c \<Rightarrow> (c, s)
           | None \<Rightarrow>
             (let use_uppercase = (shift_pressed (kb_keys s) \<noteq> capslock_on (kb_keys s))
              in (keymap (current_layout s) use_uppercase ! unat key, s))))"

section \<open>Interrupt handler and set-up\<close>

definition ack_irq :: "u8 \<Rightarrow> 'a kintr_scheme \<Rightarrow> 'a kintr_scheme" where
  "ack_irq irq s =
     (let s1 = outb 0x20 0x20 s in if 7 < irq then outb 0xA0 0x20 s1 else s1)"

definition keyboard_read_scancode :: "(u16 \<Rightarrow> u8) \<Rightarrow> u8" where
  "keyboard_read_scancode inb = inb 0x60"

definition keyboard_handler :: "(u16 \<Rightarrow> u8) \<Rightarrow> 'a kkbd_scheme \<Rightarrow> 'a kkbd_scheme" where
  "keyboard_handler inb s =
     (let s1 = ack_irq 1 s;
          scancode = keyboard_read_scancode inb
      in if current_mode s1 = KEYBOARD_MODE_RAW then buffer_push (char_of (unat scancode)) s1
         else let (ascii, s2) = keycode_to_ascii scancode s1
           in if ascii \<noteq> NUL
              then let s3 = buffer_push ascii s2
                in if current_mode s3 = KEYBOARD_MODE_ECHO then emit (Putc ascii) s3 else s3
              else s2)"

definition IRQ1 :: u8 where
  "IRQ1 = 33"

definition keyboard_init :: "'a kkbd_scheme \<Rightarrow> 'a kkbd_scheme" where
  "keyboard_init s =
     (let s1 = register_interrupt_handler IRQ1 Isr_keyboard_handler s
      in puts (''Keyboard driver initialized.'' @ newline)
        (s1\<lparr>kb_keys := (kb_keys s1)\<lparr>capslock_on := False, numlock_on := False,
              scrolllock_on := False\<rparr>,
            buffer_start := 0, buffer_end := 0, buffer_count := 0,
            current_mode := KEYBOARD_MODE_ASCII, current_layout := KEYBOARD_LAYOUT_US\<rparr>))"

definition keyboard_set_mode :: "keyboard_mode \<Rightarrow> 'a kkbd_scheme \<Rightarrow> 'a kkbd_scheme" where
  "keyboard_set_mode mode s = s\<lparr>current_mode := mode\<rparr>"

definition keyboard_set_layout :: "keyboard_layout \<Rightarrow> 'a kkbd_scheme \<Rightarrow> 'a kkbd_scheme" where
  "keyboard_set_layout layout s = s\<lparr>current_layout := layout\<rparr>"

definition keyboard_data_available :: "'a kkbd_scheme \<Rightarrow> bool" where
  "keyboard_data_available s \<longleftrightarrow> 0 < buffer_count s"

definition keyboard_read :: "'a kkbd_scheme \<Rightarrow> char \<times> 'a kkbd_scheme" where
  "keyboard_read s = (if 0 < buffer_count s then buffer_pop s else (NUL, s))"

text \<open>
  \<open>pending\<close> lists the scancodes of the interrupts still to come, one for each \<^verbatim>\<open>hlt\<close>; when it
  is used up the processor stays halted.
\<close>

fun keyboard_getchar :: "u8 list \<Rightarrow> 'a kkbd_scheme \<Rightarrow> (char \<times> 'a kkbd_scheme) option" where
  "keyboard_getchar [] s = (if keyboard_data_available s then Some (buffer_pop s) else None)"
| "keyboard_getchar (sc # pending) s =
     (if keyboard_data_available s then Some (buffer_pop s)
      else keyboard_getchar pending (keyboard_handler (\<lambda>_. sc) s))"

definition keyboard_connect_terminal :: "'a kkbd_scheme \<Rightarrow> 'a kkbd_scheme" where
  "keyboard_connect_terminal s = s"

section \<open>The ring is a bounded queue\<close>

definition kbd_ok :: "'a kkbd_scheme \<Rightarrow> bool" where
  "kbd_ok s \<longleftrightarrow> length (kb_buffer s) = 256 \<and> unat (buffer_start s) < 256 \<and>
     unat (buffer_count s) \<le> 256 \<and>
     unat (buffer_end s) = (unat (buffer_start s) + unat (buffer_count s)) mod 256"

definition kb_queue :: "'a kkbd_scheme \<Rightarrow> char list" where
  "kb_queue s = map (\<lambda>i. kb_buffer s ! ((unat (buffer_start s) + i) mod 256))
     [0..<unat (buffer_count s)]"

lemma length_kb_queue [simp]: "length (kb_queue s) = unat (buffer_count s)"
  by (simp add: kb_queue_def)

lemma unat_step_mod256: "unat ((x + 1) mod 256 :: u32) = Suc (unat x) mod 256"
  by (simp add: unat_mod unat_word_ariths mod_mod_cancel)

lemma count_less: "(x :: u32) < 256 \<longleftrightarrow> unat x < 256"
  by (simp add: word_less_nat_alt)

lemma unat_Suc_count: "unat (x :: u32) < 256 \<Longrightarrow> unat (x + 1) = Suc (unat x)"
  by (simp add: unat_word_ariths)

lemma kbd_ok_push: "kbd_ok s \<Longrightarrow> kbd_ok (buffer_push c s)"
  by (auto simp: kbd_ok_def buffer_push_def KEYBOARD_BUFFER_SIZE_def count_less unat_step_mod256
      unat_Suc_count mod_Suc_eq)

lemma kb_queue_push:
  assumes "kbd_ok s"
  shows "kb_queue (buffer_push c s)
    = (if length (kb_queue s) < 256 then kb_queue s @ [c] else kb_queue s)"
proof (cases "unat (buffer_count s) < 256")
  case False
  then show ?thesis by (simp add: buffer_push_def KEYBOARD_BUFFER_SIZE_def count_less)
next
  case True
  let ?a = "unat (buffer_start s)" and ?n = "unat (buffer_count s)"
  have e: "unat (buffer_end s) = (?a + ?n) mod 256" and len: "length (kb_buffer s) = 256"
    and a: "?a < 256" using assms by (simp_all add: kbd_ok_def)
  have old: "(?a + i) mod 256 \<noteq> (?a + ?n) mod 256" if "i < ?n" for i
  proof
    assume "(?a + i) mod 256 = (?a + ?n) mod 256"
    then have "(256 :: nat) dvd (?a + ?n) - (?a + i)"
      using that by (intro mod_eq_dvd_iff_nat [THEN iffD1]) auto
    then have "256 dvd ?n - i" by simp
    with that True show False by (auto dest: dvd_imp_le)
  qed
  have "buffer_push c s = s\<lparr>kb_buffer := (kb_buffer s)[(?a + ?n) mod 256 := c],
      buffer_end := (buffer_end s + 1) mod 256, buffer_count := buffer_count s + 1\<rparr>"
    using True e by (simp add: buffer_push_def KEYBOARD_BUFFER_SIZE_def count_less)
  then have "kb_queue (buffer_push c s)
      = map (\<lambda>i. (kb_buffer s)[(?a + ?n) mod 256 := c] ! ((?a + i) mod 256)) [0..<?n] @ [c]"
    using True len by (simp add: kb_queue_def unat_Suc_count)
  also have "\<dots> = kb_queue s @ [c]"
    unfolding kb_queue_def using old by (intro arg_cong2 [where f = append] map_cong refl)
      (auto intro!: nth_list_update_neq dest: not_sym)
  finally show ?thesis using True by simp
qed

lemma unat_pred_count: "(x :: u32) \<noteq> 0 \<Longrightarrow> unat (x - 1) = unat x - 1"
  by (metis unat_minus_one)

lemma kbd_ok_pop: "kbd_ok s \<Longrightarrow> kbd_ok (snd (buffer_pop s))"
proof -
  assume ok: "kbd_ok s"
  show ?thesis
  proof (cases "buffer_count s = 0")
    case False
    then obtain n where "unat (buffer_count s) = Suc n"
      by (metis gr0_conv_Suc unat_gt_0)
    then have "(Suc (unat (buffer_start s)) mod 256 + (unat (buffer_count s) - 1)) mod 256
        = (unat (buffer_start s) + unat (buffer_count s)) mod 256"
      by (simp add: mod_add_left_eq)
    with ok False show ?thesis
      by (auto simp: kbd_ok_def buffer_pop_def KEYBOARD_BUFFER_SIZE_def unat_step_mod256
          unat_pred_count)
  qed (use ok in \<open>simp add: buffer_pop_def\<close>)
qed

lemma kb_queue_pop:
  assumes "kbd_ok s" "kb_queue s = x # xs"
  shows "fst (buffer_pop s) = x \<and> kb_queue (snd (buffer_pop s)) = xs"
proof -
  let ?a = "unat (buffer_start s)"
  have ne: "buffer_count s \<noteq> 0" using assms(2) by (auto simp: kb_queue_def)
  then obtain n where n: "unat (buffer_count s) = Suc n"
    by (metis gr0_conv_Suc unat_gt_0)
  have "kb_queue s = kb_buffer s ! (?a mod 256)
      # map (\<lambda>i. kb_buffer s ! ((?a + Suc i) mod 256)) [0..<n]"
    unfolding kb_queue_def n by (subst upt_conv_Cons) (simp_all add: map_Suc_upt [symmetric] del: upt_Suc)
  moreover have "(Suc ?a mod 256 + i) mod 256 = (?a + Suc i) mod 256" for i
    by (simp add: mod_add_left_eq)
  ultimately show ?thesis
    using assms ne n
    by (simp add: buffer_pop_def KEYBOARD_BUFFER_SIZE_def unat_step_mod256 unat_pred_count
        kb_queue_def kbd_ok_def)
qed

interpretation ring: bounded_queue kbd_ok kb_queue buffer_push buffer_pop 256 NUL
proof unfold_locales
  show "kb_queue s = [] \<Longrightarrow> buffer_pop s = (NUL, s)" for s :: "'a kkbd_scheme"
    by (simp add: kb_queue_def buffer_pop_def unat_eq_0)
  show "kbd_ok s \<Longrightarrow> length (kb_queue s) \<le> 256" for s :: "'a kkbd_scheme"
    by (simp add: kbd_ok_def)
qed (simp_all add: kbd_ok_push kbd_ok_pop kb_queue_push kb_queue_pop)

section \<open>Translating a sequence of scancodes\<close>

text \<open>
  What the driver types, as a function of the scancodes received: the shift state is the last
  shift event, whichever of the two keys it was of; caps lock is the parity of its presses; a
  press of any other key gives the character of the keymap they select.
\<close>

definition is_release :: "u8 \<Rightarrow> bool" where
  "is_release sc \<longleftrightarrow> bit sc 7"

definition is_shift :: "u8 \<Rightarrow> bool" where
  "is_shift sc \<longleftrightarrow> sc AND 0x7F \<in> {KEYCODE_LSHIFT, KEYCODE_RSHIFT}"

definition shift_after :: "bool \<Rightarrow> u8 list \<Rightarrow> bool" where
  "shift_after b h = (case filter is_shift (rev h) of [] \<Rightarrow> b | sc # _ \<Rightarrow> \<not> is_release sc)"

definition caps_after :: "u8 list \<Rightarrow> bool" where
  "caps_after h \<longleftrightarrow> odd (count_list h KEYCODE_CAPSLOCK)"

definition key_char :: "keyboard_layout \<Rightarrow> bool \<Rightarrow> u8 \<Rightarrow> char" where
  "key_char lay upper sc =
     (if is_release sc \<or> sc \<in> {KEYCODE_LSHIFT, KEYCODE_RSHIFT, KEYCODE_LCTRL, KEYCODE_LALT,
         KEYCODE_CAPSLOCK, KEYCODE_NUMLOCK, KEYCODE_SCROLLLOCK}
      then NUL
      else case special_key sc of Some c \<Rightarrow> c | None \<Rightarrow> keymap lay upper ! unat sc)"

definition typed :: "keyboard_layout \<Rightarrow> bool \<Rightarrow> u8 list \<Rightarrow> char list" where
  "typed lay b h = filter (\<lambda>c. c \<noteq> NUL)
     (map (\<lambda>i. key_char lay (shift_after b (take i h) \<noteq> caps_after (take i h)) (h ! i))
       [0..<length h])"

lemma release_bit: "(sc :: u8) AND 0x80 \<noteq> 0 \<longleftrightarrow> is_release sc"
proof -
  have "sc AND 2 ^ 7 = 0 \<longleftrightarrow> \<not> bit sc 7" by (rule and_exp_eq_0_iff_not_bit)
  then show ?thesis by (simp add: is_release_def)
qed

lemma press_key:
  assumes "\<not> is_release sc"
  shows "(sc :: u8) AND 0x7F = sc"
proof -
  have m: "(0x7F :: u8) = mask 7" by (simp add: mask_eq_exp_minus_1)
  show ?thesis
  proof (rule bit_word_eqI)
    fix n assume "n < LENGTH(8)"
    then have "n < 7 \<or> n = 7" by auto
    with assms show "bit (sc AND 0x7F) n = bit sc n"
      unfolding m is_release_def by (auto simp: bit_simps)
  qed
qed

lemma keymap_length: "length (keymap lay upper) = 128"
  by (simp add: keymap_def us_keymap_lower_def us_keymap_upper_def tr_keymap_lower_def
      tr_keymap_upper_def)

lemma keymap_index: "unat ((sc :: u8) AND 0x7F) < 128"
proof -
  have "(sc AND 0x7F) \<le> 0x7F" by (rule word_and_le1)
  then show ?thesis by (simp add: word_le_nat_alt)
qed

lemma typed_snoc:
  "typed lay b (h @ [sc]) = typed lay b h @
    filter (\<lambda>c. c \<noteq> NUL) [key_char lay (shift_after b h \<noteq> caps_after h) sc]"
proof -
  have "map (\<lambda>i. key_char lay (shift_after b (take i (h @ [sc])) \<noteq> caps_after (take i (h @ [sc])))
        ((h @ [sc]) ! i)) [0..<length h]
      = map (\<lambda>i. key_char lay (shift_after b (take i h) \<noteq> caps_after (take i h)) (h ! i))
        [0..<length h]"
    by (intro map_cong) (simp_all add: nth_append)
  note prefix = this
  show ?thesis
    unfolding typed_def length_append_singleton upt_Suc_append [OF le0] map_append filter_append prefix
    by simp
qed

lemma shift_after_snoc:
  "shift_after b (h @ [sc]) = (if is_shift sc then \<not> is_release sc else shift_after b h)"
  by (simp add: shift_after_def)

lemma caps_after_snoc:
  "caps_after (h @ [sc]) = (caps_after h \<noteq> (sc = KEYCODE_CAPSLOCK))"
  by (simp add: caps_after_def)

text \<open>The translation of one scancode.\<close>

lemma keycode_release:
  "is_release sc \<Longrightarrow>
    keycode_to_ascii sc s = (NUL, s\<lparr>kb_keys := key_release (sc AND 0x7F) (kb_keys s)\<rparr>)"
  using release_bit [of sc] by (simp add: keycode_to_ascii_def)

lemma keycode_press:
  "\<not> is_release sc \<Longrightarrow> keycode_to_ascii sc s =
    (case modifier_press sc (kb_keys s) of
       Some k \<Rightarrow> (NUL, s\<lparr>kb_keys := k\<rparr>)
     | None \<Rightarrow> (case special_key sc of Some c \<Rightarrow> (c, s)
       | None \<Rightarrow> (keymap (current_layout s) (shift_pressed (kb_keys s) \<noteq> capslock_on (kb_keys s))
           ! unat sc, s)))"
  using release_bit [of sc] by (simp add: keycode_to_ascii_def press_key Let_def split: option.splits)

definition keys_after :: "u8 \<Rightarrow> key_state \<Rightarrow> key_state" where
  "keys_after sc k =
     (if is_release sc then key_release (sc AND 0x7F) k
      else case modifier_press sc k of Some k' \<Rightarrow> k' | None \<Rightarrow> k)"

lemma keycode_to_ascii_eq:
  "keycode_to_ascii sc s =
    (key_char (current_layout s) (shift_pressed (kb_keys s) \<noteq> capslock_on (kb_keys s)) sc,
     s\<lparr>kb_keys := keys_after sc (kb_keys s)\<rparr>)"
proof (cases "is_release sc")
  case True
  then show ?thesis by (simp add: keycode_release key_char_def keys_after_def)
next
  case False
  show ?thesis
  proof (cases "modifier_press sc (kb_keys s)")
    case None
    then have "sc \<notin> {KEYCODE_LSHIFT, KEYCODE_RSHIFT, KEYCODE_LCTRL, KEYCODE_LALT,
        KEYCODE_CAPSLOCK, KEYCODE_NUMLOCK, KEYCODE_SCROLLLOCK}"
      by (auto simp: modifier_press_def split: if_splits)
    with None False show ?thesis
      by (simp add: keycode_press key_char_def keys_after_def split: option.splits)
  next
    case (Some k)
    then have "sc \<in> {KEYCODE_LSHIFT, KEYCODE_RSHIFT, KEYCODE_LCTRL, KEYCODE_LALT,
        KEYCODE_CAPSLOCK, KEYCODE_NUMLOCK, KEYCODE_SCROLLLOCK}"
      by (auto simp: modifier_press_def split: if_splits)
    with Some False show ?thesis by (simp add: keycode_press key_char_def keys_after_def)
  qed
qed

lemma keys_after_shift:
  "shift_pressed (keys_after sc k) = (if is_shift sc then \<not> is_release sc else shift_pressed k)"
  by (auto simp: keys_after_def key_release_def modifier_press_def is_shift_def press_key)

lemma keys_after_caps:
  "capslock_on (keys_after sc k) = (capslock_on k \<noteq> (sc = KEYCODE_CAPSLOCK))"
proof (cases "is_release sc")
  case True
  then have "sc \<noteq> KEYCODE_CAPSLOCK" by (auto simp: is_release_def)
  with True show ?thesis by (simp add: keys_after_def key_release_def)
qed (simp add: keys_after_def modifier_press_def)

section \<open>One interrupt\<close>

text \<open>The characters that one scancode puts into the buffer.\<close>

definition produced :: "u8 \<Rightarrow> key_state \<Rightarrow> keyboard_mode \<Rightarrow> keyboard_layout \<Rightarrow> char list" where
  "produced sc k mode lay =
     (if mode = KEYBOARD_MODE_RAW then [char_of (unat sc)]
      else filter (\<lambda>c. c \<noteq> NUL) [key_char lay (shift_pressed k \<noteq> capslock_on k) sc])"

lemma ack_irq_1: "ack_irq 1 s = outb 0x20 0x20 s"
  by (simp add: ack_irq_def)

lemma ack_fields [simp]:
  "kb_buffer (outb p v s) = kb_buffer s" "buffer_start (outb p v s) = buffer_start s"
  "buffer_end (outb p v s) = buffer_end s" "buffer_count (outb p v s) = buffer_count s"
  "kb_keys (outb p v s) = kb_keys s" "current_mode (outb p v s) = current_mode s"
  "current_layout (outb p v s) = current_layout s"
  by (simp_all add: outb_def)

lemma emit_fields [simp]:
  "kb_buffer (emit c s) = kb_buffer s" "buffer_start (emit c s) = buffer_start s"
  "buffer_end (emit c s) = buffer_end s" "buffer_count (emit c s) = buffer_count s"
  "kb_keys (emit c s) = kb_keys s" "current_mode (emit c s) = current_mode s"
  "current_layout (emit c s) = current_layout s"
  by (simp_all add: emit_def)

lemma kb_queue_cong:
  assumes "kb_buffer s = kb_buffer t" "buffer_start s = buffer_start t"
    "buffer_count s = buffer_count t" "buffer_end s = buffer_end t"
  shows "kb_queue s = kb_queue t \<and> kbd_ok s = kbd_ok t"
  using assms by (simp add: kb_queue_def kbd_ok_def)

lemma kb_queue_frame [simp]:
  "kb_queue (outb p v s) = kb_queue s" "kbd_ok (outb p v s) = kbd_ok s"
  "kb_queue (emit c s) = kb_queue s" "kbd_ok (emit c s) = kbd_ok s"
  "kb_queue (s\<lparr>kb_keys := k\<rparr>) = kb_queue s" "kbd_ok (s\<lparr>kb_keys := k\<rparr>) = kbd_ok s"
  using kb_queue_cong [of "outb p v s" s] kb_queue_cong [of "emit c s" s]
    kb_queue_cong [of "s\<lparr>kb_keys := k\<rparr>" s] by simp_all

lemma push_fields [simp]:
  "kb_keys (buffer_push c s) = kb_keys s" "current_mode (buffer_push c s) = current_mode s"
  "current_layout (buffer_push c s) = current_layout s" "con_out (buffer_push c s) = con_out s"
  "port_out (buffer_push c s) = port_out s"
  by (simp_all add: buffer_push_def)

lemma pop_fields [simp]:
  "kb_keys (snd (buffer_pop s)) = kb_keys s" "current_mode (snd (buffer_pop s)) = current_mode s"
  "current_layout (snd (buffer_pop s)) = current_layout s"
  by (simp_all add: buffer_pop_def)

lemma keyboard_handler_eq:
  "keyboard_handler (\<lambda>_. sc) s =
    (let k = kb_keys s; cs = produced sc k (current_mode s) (current_layout s);
         t = fold buffer_push cs (if current_mode s = KEYBOARD_MODE_RAW then outb 0x20 0x20 s
           else (outb 0x20 0x20 s)\<lparr>kb_keys := keys_after sc k\<rparr>)
     in if current_mode s = KEYBOARD_MODE_ECHO then fold (\<lambda>c. emit (Putc c)) cs t else t)"
proof (cases "current_mode s")
  case KEYBOARD_MODE_RAW
  then show ?thesis
    by (simp add: keyboard_handler_def keyboard_read_scancode_def ack_irq_1 produced_def)
qed (simp_all add: keyboard_handler_def keyboard_read_scancode_def ack_irq_1 produced_def
    keycode_to_ascii_eq Let_def)

lemma pushes_fields [simp]:
  "kb_keys (fold buffer_push cs s) = kb_keys s"
  "current_mode (fold buffer_push cs s) = current_mode s"
  "current_layout (fold buffer_push cs s) = current_layout s"
  "con_out (fold buffer_push cs s) = con_out s" "port_out (fold buffer_push cs s) = port_out s"
  by (induction cs arbitrary: s) simp_all

lemma echoes_fields [simp]:
  "kb_keys (fold (\<lambda>c. emit (Putc c)) cs s) = kb_keys s"
  "current_mode (fold (\<lambda>c. emit (Putc c)) cs s) = current_mode s"
  "current_layout (fold (\<lambda>c. emit (Putc c)) cs s) = current_layout s"
  "con_out (fold (\<lambda>c. emit (Putc c)) cs s) = con_out s @ map Putc cs"
  "port_out (fold (\<lambda>c. emit (Putc c)) cs s) = port_out s"
  "kb_queue (fold (\<lambda>c. emit (Putc c)) cs s) = kb_queue s"
  "kbd_ok (fold (\<lambda>c. emit (Putc c)) cs s) = kbd_ok s"
  by (induction cs arbitrary: s) simp_all

lemma keyboard_handler_effect:
  fixes s :: "'a kkbd_scheme" and sc :: u8
  assumes "kbd_ok s"
  defines "t \<equiv> keyboard_handler (\<lambda>_. sc) s"
    and "cs \<equiv> produced sc (kb_keys s) (current_mode s) (current_layout s)"
  shows "kbd_ok t" "kb_queue t = take 256 (kb_queue s @ cs)"
    "kb_keys t = (if current_mode s = KEYBOARD_MODE_RAW then kb_keys s else keys_after sc (kb_keys s))"
    "current_mode t = current_mode s" "current_layout t = current_layout s"
    "port_out t = port_out s @ [(0x20, 0x20)]"
    "con_out t = con_out s @ (if current_mode s = KEYBOARD_MODE_ECHO then map Putc cs else [])"
proof -
  let ?u = "if current_mode s = KEYBOARD_MODE_RAW then outb 0x20 0x20 s
    else (outb 0x20 0x20 s)\<lparr>kb_keys := keys_after sc (kb_keys s)\<rparr>"
  have t: "t = (if current_mode s = KEYBOARD_MODE_ECHO
      then fold (\<lambda>c. emit (Putc c)) cs (fold buffer_push cs ?u) else fold buffer_push cs ?u)"
    unfolding t_def cs_def keyboard_handler_eq Let_def ..
  have u: "kbd_ok ?u" "kb_queue ?u = kb_queue s" using assms(1) by simp_all
  have q: "kbd_ok (fold buffer_push cs ?u)"
    "kb_queue (fold buffer_push cs ?u) = take 256 (kb_queue s @ cs)"
    using ring.wf_pushes [OF u(1)] ring.items_pushes [OF u(1)] u(2) by simp_all
  show "kbd_ok t" "kb_queue t = take 256 (kb_queue s @ cs)"
    unfolding t using q by (cases "current_mode s"; simp)+
  show "kb_keys t = (if current_mode s = KEYBOARD_MODE_RAW then kb_keys s
      else keys_after sc (kb_keys s))"
    "current_mode t = current_mode s" "current_layout t = current_layout s"
    "port_out t = port_out s @ [(0x20, 0x20)]"
    "con_out t = con_out s @ (if current_mode s = KEYBOARD_MODE_ECHO then map Putc cs else [])"
    unfolding t by (cases "current_mode s"; simp)+
qed

section \<open>Properties\<close>

text \<open>What programs and the hardware do with the driver.\<close>

datatype kbd_op =
    Arrive u8
  | Read
  | Mode keyboard_mode
  | Layout keyboard_layout

primrec kbd_step :: "kbd_op \<Rightarrow> 'a kkbd_scheme \<Rightarrow> char list \<times> 'a kkbd_scheme" where
  "kbd_step (Arrive sc) s = ([], keyboard_handler (\<lambda>_. sc) s)"
| "kbd_step Read s = (let (c, t) = keyboard_read s in ([c], t))"
| "kbd_step (Mode m) s = ([], keyboard_set_mode m s)"
| "kbd_step (Layout l) s = ([], keyboard_set_layout l s)"

text \<open>
  The specification: a queue of at most 256 characters instead of the ring, with the keys, the
  mode and the layout beside it.
\<close>

record kbd_spec =
  sp_queue :: "char list"
  sp_keys :: key_state
  sp_mode :: keyboard_mode
  sp_layout :: keyboard_layout

primrec spec_step :: "kbd_op \<Rightarrow> kbd_spec \<Rightarrow> char list \<times> kbd_spec" where
  "spec_step (Arrive sc) a =
     ([], a\<lparr>sp_queue := take 256 (sp_queue a @ produced sc (sp_keys a) (sp_mode a) (sp_layout a)),
        sp_keys := (if sp_mode a = KEYBOARD_MODE_RAW then sp_keys a else keys_after sc (sp_keys a))\<rparr>)"
| "spec_step Read a =
     (case sp_queue a of [] \<Rightarrow> ([NUL], a) | c # cs \<Rightarrow> ([c], a\<lparr>sp_queue := cs\<rparr>))"
| "spec_step (Mode m) a = ([], a\<lparr>sp_mode := m\<rparr>)"
| "spec_step (Layout l) a = ([], a\<lparr>sp_layout := l\<rparr>)"

fun run_ops :: "('o \<Rightarrow> 's \<Rightarrow> 'x list \<times> 's) \<Rightarrow> 'o list \<Rightarrow> 's \<Rightarrow> 'x list \<times> 's" where
  "run_ops step [] s = ([], s)"
| "run_ops step (x # xs) s =
     (let (ys, t) = step x s; (zs, u) = run_ops step xs t in (ys @ zs, u))"

definition kbd_abs :: "'a kkbd_scheme \<Rightarrow> kbd_spec" where
  "kbd_abs s = \<lparr>sp_queue = kb_queue s, sp_keys = kb_keys s, sp_mode = current_mode s,
     sp_layout = current_layout s\<rparr>"

lemma keyboard_read_pop: "keyboard_read s = buffer_pop s"
  by (auto simp: keyboard_read_def buffer_pop_def word_gt_0)

lemma kbd_step_simulates:
  assumes "kbd_ok s"
  shows "fst (kbd_step x s) = fst (spec_step x (kbd_abs s))"
    "kbd_abs (snd (kbd_step x s)) = snd (spec_step x (kbd_abs s))"
    "kbd_ok (snd (kbd_step x s))"
proof -
  have "fst (kbd_step x s) = fst (spec_step x (kbd_abs s)) \<and>
    kbd_abs (snd (kbd_step x s)) = snd (spec_step x (kbd_abs s)) \<and> kbd_ok (snd (kbd_step x s))"
  proof (cases x)
    case (Arrive sc)
    then show ?thesis by (simp add: kbd_abs_def keyboard_handler_effect [OF assms])
  next
    case Read
    then show ?thesis
      using ring.pop_result [OF assms] ring.items_pop [OF assms] ring.wf_pop [OF assms]
        ring.pop_empty [OF assms]
      by (auto simp: kbd_abs_def keyboard_read_pop split_beta split: list.splits)
  next
    case (Mode m)
    then show ?thesis
      using assms kb_queue_cong [of "keyboard_set_mode m s" s]
      by (simp add: kbd_abs_def keyboard_set_mode_def)
  next
    case (Layout l)
    then show ?thesis
      using assms kb_queue_cong [of "keyboard_set_layout l s" s]
      by (simp add: kbd_abs_def keyboard_set_layout_def)
  qed
  then show "fst (kbd_step x s) = fst (spec_step x (kbd_abs s))"
    "kbd_abs (snd (kbd_step x s)) = snd (spec_step x (kbd_abs s))"
    "kbd_ok (snd (kbd_step x s))" by simp_all
qed

text \<open>
  C3: the driver refines its specification. Whatever scancodes arrive, in whatever order with
  reads, mode and layout changes, a reader gets the characters that a plain queue of at most
  256 characters would give, in order of arrival; what arrives while 256 characters are
  waiting is lost, and a read of the empty buffer gives 0.
\<close>

theorem keyboard_refines_queue:
  assumes "kbd_ok s"
  shows "fst (run_ops kbd_step ops s) = fst (run_ops spec_step ops (kbd_abs s)) \<and>
    kbd_abs (snd (run_ops kbd_step ops s)) = snd (run_ops spec_step ops (kbd_abs s)) \<and>
    kbd_ok (snd (run_ops kbd_step ops s))"
  using assms
proof (induction ops arbitrary: s)
  case Nil
  then show ?case by simp
next
  case (Cons x xs)
  from Cons.IH [OF kbd_step_simulates(3) [OF Cons.prems], of x] kbd_step_simulates [OF Cons.prems, of x]
  show ?case by (simp add: split_beta)
qed

text \<open>A machine with an empty keyboard buffer.\<close>

definition kkbd0 :: kkbd where
  "kkbd0 = kintr.extend kintr0 \<lparr>kb_buffer = replicate 256 NUL, buffer_start = 0, buffer_end = 0,
     buffer_count = 0, kb_keys = \<lparr>shift_pressed = False, ctrl_pressed = False, alt_pressed = False,
       capslock_on = False, numlock_on = False, scrolllock_on = False\<rparr>,
     current_mode = KEYBOARD_MODE_ASCII, current_layout = KEYBOARD_LAYOUT_US\<rparr>"

lemma kkbd0_fields [simp]:
  "kb_buffer kkbd0 = replicate 256 NUL" "buffer_start kkbd0 = 0" "buffer_end kkbd0 = 0"
  "buffer_count kkbd0 = 0" "current_mode kkbd0 = KEYBOARD_MODE_ASCII"
  "current_layout kkbd0 = KEYBOARD_LAYOUT_US" "shift_pressed (kb_keys kkbd0) = False"
  "capslock_on (kb_keys kkbd0) = False"
  by (simp_all add: kkbd0_def kintr.defs)

lemma kbd_ok_kkbd0: "kbd_ok kkbd0" and kb_queue_kkbd0: "kb_queue kkbd0 = []"
  by (simp_all add: kbd_ok_def kb_queue_def)

text \<open>One interrupt of the typing 'a', one read: the queue hands the character over.\<close>

theorem keyboard_refines_queue_witness:
  "fst (run_ops kbd_step [Arrive 0x1E, Read, Read] kkbd0) = [CHR ''a'', NUL]"
proof -
  have k: "produced 0x1E (kb_keys kkbd0) KEYBOARD_MODE_ASCII KEYBOARD_LAYOUT_US = [CHR ''a'']"
    by (simp add: produced_def key_char_def is_release_def special_key_def keymap_def
        us_keymap_lower_def)
  have "fst (run_ops kbd_step [Arrive 0x1E, Read, Read] kkbd0)
      = fst (run_ops spec_step [Arrive 0x1E, Read, Read] (kbd_abs kkbd0))"
    using keyboard_refines_queue [OF kbd_ok_kkbd0, of "[Arrive 0x1E, Read, Read]"] by simp
  then show ?thesis by (simp add: kbd_abs_def kb_queue_kkbd0 k)
qed

primrec chars :: "keyboard_layout \<Rightarrow> key_state \<Rightarrow> u8 list \<Rightarrow> char list" where
  "chars lay k [] = []"
| "chars lay k (sc # h) = produced sc k KEYBOARD_MODE_ASCII lay @ chars lay (keys_after sc k) h"

lemma chars_snoc:
  "chars lay k (h @ [sc]) =
    chars lay k h @ produced sc (fold keys_after h k) KEYBOARD_MODE_ASCII lay"
  by (induction h arbitrary: k) simp_all

lemma keys_after_history:
  "shift_pressed (fold keys_after h k) = shift_after (shift_pressed k) h"
  "capslock_on (fold keys_after h k) = (capslock_on k \<noteq> caps_after h)"
proof (induction h rule: rev_induct)
  case Nil
  { case 1 show ?case by (simp add: shift_after_def) }
  { case 2 show ?case by (simp add: caps_after_def) }
next
  case (snoc sc h)
  { case 1 from snoc show ?case by (simp add: keys_after_shift shift_after_snoc) }
  { case 2 from snoc show ?case by (auto simp: keys_after_caps caps_after_snoc) }
qed

lemma typed_chars:
  "\<not> capslock_on k \<Longrightarrow> typed lay (shift_pressed k) h = chars lay k h"
proof (induction h rule: rev_induct)
  case Nil
  then show ?case by (simp add: typed_def)
next
  case (snoc sc h)
  then show ?case
    by (simp add: typed_snoc chars_snoc produced_def keys_after_history)
qed

lemma produced_ascii:
  "m \<noteq> KEYBOARD_MODE_RAW \<Longrightarrow> produced sc k m lay = produced sc k KEYBOARD_MODE_ASCII lay"
  by (simp add: produced_def)

lemma arrivals_effect:
  assumes "kbd_ok s" "current_mode s \<noteq> KEYBOARD_MODE_RAW"
  shows "kb_queue (fold (\<lambda>sc. keyboard_handler (\<lambda>_. sc)) h s)
    = take 256 (kb_queue s @ chars (current_layout s) (kb_keys s) h)"
  using assms
proof (induction h arbitrary: s)
  case Nil
  then show ?case using ring.items_cap [OF Nil(1)] by simp
next
  case (Cons sc h)
  have eff: "kb_queue (keyboard_handler (\<lambda>_. sc) s) =
      take 256 (kb_queue s @ produced sc (kb_keys s) KEYBOARD_MODE_ASCII (current_layout s))"
    using keyboard_handler_effect(2) [OF Cons.prems(1), of sc] produced_ascii [OF Cons.prems(2)]
    by simp
  have cut: "take 256 (take 256 xs @ ys) = take 256 (xs @ ys)" for xs ys :: string
    by (cases "length xs \<le> 256") simp_all
  show ?case
    using Cons.IH [of "keyboard_handler (\<lambda>_. sc) s"] Cons.prems
      produced_ascii [OF Cons.prems(2), of sc "kb_keys s" "current_layout s"]
    by (simp add: keyboard_handler_effect [OF Cons.prems(1)] eff cut del: take_append
        del: keyboard_handler_effect(2))
qed

lemma available_iff: "keyboard_data_available s \<longleftrightarrow> kb_queue s \<noteq> []"
  by (auto simp: keyboard_data_available_def kb_queue_def unat_gt_0 word_gt_0)

lemma getchar_effect:
  assumes "kbd_ok s" "current_mode s \<noteq> KEYBOARD_MODE_RAW"
  shows "map_option fst (keyboard_getchar h s) =
    (case kb_queue s @ chars (current_layout s) (kb_keys s) h of [] \<Rightarrow> None | c # _ \<Rightarrow> Some c)"
  using assms
proof (induction h arbitrary: s)
  case Nil
  then show ?case by (simp add: available_iff ring.pop_result split: list.splits)
next
  case (Cons sc h)
  show ?case
  proof (cases "kb_queue s")
    case (Cons c cs)
    then show ?thesis using Cons.prems by (simp add: available_iff ring.pop_result)
  next
    case Nil
    let ?t = "keyboard_handler (\<lambda>_. sc) s"
    let ?p = "produced sc (kb_keys s) KEYBOARD_MODE_ASCII (current_layout s)"
    have "length ?p \<le> 1" by (simp add: produced_def)
    then have q: "kb_queue ?t = ?p"
      using keyboard_handler_effect(2) [OF Cons.prems(1), of sc] produced_ascii [OF Cons.prems(2)] Nil
      by simp
    have "keyboard_getchar (sc # h) s = keyboard_getchar h ?t"
      using Nil by (simp add: available_iff)
    with Cons.IH [of ?t] Cons.prems Nil q show ?thesis
      by (simp add: keyboard_handler_effect(1,3,4,5) [OF Cons.prems(1)])
  qed
qed

lemma keyboard_start:
  fixes s :: "'a kkbd_scheme" and m :: keyboard_mode and lay :: keyboard_layout
  assumes "length (kb_buffer s) = 256"
  defines "t \<equiv> keyboard_set_mode m (keyboard_set_layout lay (keyboard_init s))"
  shows "kbd_ok t" "kb_queue t = []" "current_mode t = m" "current_layout t = lay"
    "shift_pressed (kb_keys t) = shift_pressed (kb_keys s)" "\<not> capslock_on (kb_keys t)"
  using assms(1)
  by (simp_all add: t_def keyboard_set_mode_def keyboard_set_layout_def keyboard_init_def
      kbd_ok_def kb_queue_def register_interrupt_handler_def Let_def)

text \<open>
  C22: what the driver types. After \<^verbatim>\<open>keyboard_init\<close>, in either layout and in ASCII or echo
  mode, the buffer holds the first 256 characters of the text the scancodes stand for, where a
  key gives the upper character when exactly one of shift and caps lock is on, on digits and
  punctuation as on letters; shift is on when the last shift event was a press, whichever of
  the two shift keys it came from, and starts as \<^verbatim>\<open>keyboard_init\<close> found it; control and alt
  do not matter. \<^verbatim>\<open>keyboard_getchar\<close> returns the first of these characters, and stays halted
  when the scancodes give none.
\<close>

theorem keyboard_types:
  assumes "length (kb_buffer s) = 256" "m \<noteq> KEYBOARD_MODE_RAW"
  shows "kb_queue (fold (\<lambda>sc. keyboard_handler (\<lambda>_. sc)) h
        (keyboard_set_mode m (keyboard_set_layout lay (keyboard_init s))))
      = take 256 (typed lay (shift_pressed (kb_keys s)) h) \<and>
    map_option fst (keyboard_getchar h
        (keyboard_set_mode m (keyboard_set_layout lay (keyboard_init s))))
      = (case typed lay (shift_pressed (kb_keys s)) h of [] \<Rightarrow> None | c # _ \<Rightarrow> Some c)"
proof -
  let ?t = "keyboard_set_mode m (keyboard_set_layout lay (keyboard_init s))"
  note start = keyboard_start [OF assms(1), of m lay]
  have "typed lay (shift_pressed (kb_keys s)) h = chars lay (kb_keys ?t) h"
    using typed_chars [OF start(6), of lay h] start(5) by simp
  with arrivals_effect [of ?t h] getchar_effect [of ?t h] start assms(2) show ?thesis by simp
qed

text \<open>
  Both shifts down and one released again: the letter comes out small. With caps lock on, the
  key 1 gives an exclamation mark.
\<close>

theorem keyboard_types_witness:
  "kb_queue (fold (\<lambda>sc. keyboard_handler (\<lambda>_. sc)) [0x2A, 0x36, 0xB6, 0x1E, 0xAA, 0x3A, 0x02]
      (keyboard_set_mode KEYBOARD_MODE_ECHO
        (keyboard_set_layout KEYBOARD_LAYOUT_US (keyboard_init kkbd0)))) = ''a!''"
proof -
  have "typed KEYBOARD_LAYOUT_US False [0x2A, 0x36, 0xB6, 0x1E, 0xAA, 0x3A, 0x02] = ''a!''"
    by code_simp
  then show ?thesis
    using keyboard_types [of kkbd0 KEYBOARD_MODE_ECHO "[0x2A, 0x36, 0xB6, 0x1E, 0xAA, 0x3A, 0x02]"
        KEYBOARD_LAYOUT_US]
    by simp
qed

end
