(* ===== verification/Links.thy ===== *)
theory Links
  imports Prelude
begin

text \<open>
  Null-terminated linked lists in a store from addresses to nodes: the process list and the
  children of a directory are both kept this way. \<open>chain nxt ps p xs\<close> says that the list
  that starts at \<open>p\<close> consists of the nodes at the addresses \<open>xs\<close>; \<open>nxt\<close> is the link field.
\<close>

section \<open>Chains\<close>

fun chain :: "('n \<Rightarrow> u32) \<Rightarrow> (u32 \<Rightarrow> 'n option) \<Rightarrow> u32 \<Rightarrow> u32 list \<Rightarrow> bool" where
  "chain nxt ps p [] \<longleftrightarrow> p = 0"
| "chain nxt ps p (x # xs) \<longleftrightarrow> p = x \<and> x \<noteq> 0 \<and>
     (case ps x of None \<Rightarrow> False | Some pr \<Rightarrow> chain nxt ps (nxt pr) xs)"

declare chain.simps(2) [simp del]

lemma chain_Cons [simp]: "chain nxt ps p (x # xs) \<longleftrightarrow>
    p = x \<and> x \<noteq> 0 \<and> (\<exists>pr. ps x = Some pr \<and> chain nxt ps (nxt pr) xs)"
  by (auto simp: chain.simps(2) split: option.splits)

lemma chain_unique: "chain nxt ps p xs \<Longrightarrow> chain nxt ps p ys \<Longrightarrow> xs = ys"
proof (induction xs arbitrary: p ys)
  case Nil
  then show ?case by (cases ys) auto
next
  case (Cons x xs)
  then show ?case by (cases ys) auto
qed

lemma chain_split: "chain nxt ps p (xs @ y # ys) \<Longrightarrow> chain nxt ps y (y # ys)"
  by (induction xs arbitrary: p) auto

lemma chain_distinct: "chain nxt ps p xs \<Longrightarrow> distinct xs"
proof (induction xs arbitrary: p)
  case Nil
  then show ?case by simp
next
  case (Cons x xs)
  then obtain pr where pr: "ps x = Some pr" "chain nxt ps (nxt pr) xs"
    by auto
  have "x \<notin> set xs"
  proof
    assume "x \<in> set xs"
    then obtain us vs where "xs = us @ x # vs" by (meson split_list)
    with pr have "chain nxt ps x (x # vs)" by (metis chain_split)
    moreover have "chain nxt ps x (x # xs)" using Cons.prems by simp
    ultimately have "vs = xs" by (metis chain_unique list.inject)
    with \<open>xs = us @ x # vs\<close> have "length xs = length us + Suc (length xs)" by (metis length_append length_Cons)
    then show False by simp
  qed
  with Cons.IH pr show ?case by simp
qed

lemma chain_in_store: "chain nxt ps p xs \<Longrightarrow> x \<in> set xs \<Longrightarrow> \<exists>pr. ps x = Some pr \<and> x \<noteq> 0"
  by (induction xs arbitrary: p) auto

lemma chain_cong:
  "chain nxt ps p xs \<Longrightarrow> (\<And>x pr. x \<in> set xs \<Longrightarrow> ps x = Some pr \<Longrightarrow> \<exists>pr'. qs x = Some pr' \<and> nxt pr' = nxt pr)
    \<Longrightarrow> chain nxt qs p xs"
proof (induction xs arbitrary: p)
  case Nil
  then show ?case by simp
next
  case (Cons x xs)
  then obtain pr where pr: "ps x = Some pr" "chain nxt ps (nxt pr) xs" "p = x" "x \<noteq> 0"
    by auto
  moreover from Cons.prems(2) pr obtain pr' where "qs x = Some pr'" "nxt pr' = nxt pr"
    by fastforce
  moreover have "chain nxt qs (nxt pr) xs"
    using Cons.prems(2) by (intro Cons.IH [OF pr(2)]) simp
  ultimately show ?case by simp
qed

text \<open>Following links, and starting again at the head after the last node, goes round the list.\<close>

lemma chain_next:
  assumes "chain nxt ps p xs" "k < length xs"
  shows "\<exists>pr. ps (xs ! k) = Some pr \<and>
    (if nxt pr = 0 then p else nxt pr) = xs ! (Suc k mod length xs) \<and>
    (nxt pr = 0 \<longleftrightarrow> Suc k = length xs)"
proof -
  have split: "xs = take k xs @ xs ! k # drop (Suc k) xs"
    using assms(2) by (simp add: id_take_nth_drop)
  then have ch: "chain nxt ps (xs ! k) (xs ! k # drop (Suc k) xs)"
    using assms(1) by (metis chain_split)
  then obtain pr where pr: "ps (xs ! k) = Some pr" "chain nxt ps (nxt pr) (drop (Suc k) xs)"
    by auto
  show ?thesis
  proof (cases "Suc k < length xs")
    case True
    then have "drop (Suc k) xs = xs ! Suc k # drop (Suc (Suc k)) xs"
      by (simp add: Cons_nth_drop_Suc)
    with pr True show ?thesis by auto
  next
    case False
    with assms(2) have "Suc k = length xs" by simp
    moreover have "p = xs ! 0" using assms by (cases xs) auto
    ultimately show ?thesis using pr by simp
  qed
qed

text \<open>The walk to the predecessor of \<open>p\<close>; it does not end on a cyclic list without \<open>p\<close>.\<close>

partial_function (option) find_prev ::
    "('n \<Rightarrow> u32) \<Rightarrow> (u32 \<Rightarrow> 'n option) \<Rightarrow> u32 \<Rightarrow> u32 \<Rightarrow> u32 option" where
  "find_prev nxt ps p temp =
     (if temp = 0 then Some 0
      else ps temp \<bind> (\<lambda>pr. if nxt pr = p then Some temp else find_prev nxt ps p (nxt pr)))"

lemma find_prev_eq:
  "chain nxt ps q (us @ a # p # vs) \<Longrightarrow> find_prev nxt ps p q = Some a"
proof (induction us arbitrary: q)
  case Nil
  then show ?case by (subst find_prev.simps) auto
next
  case (Cons u us)
  then obtain pr where pr: "q = u" "u \<noteq> 0" "ps u = Some pr" "chain nxt ps (nxt pr) (us @ a # p # vs)"
    by auto
  have "distinct (us @ a # p # vs)" by (rule chain_distinct [OF pr(4)])
  moreover have "nxt pr = hd (us @ a # p # vs)" using pr(4) by (cases us) auto
  ultimately have "nxt pr \<noteq> p" by (cases us) auto
  then show ?case using pr Cons.IH [OF pr(4)] by (subst find_prev.simps) simp
qed

text \<open>Taking a node out: its predecessor's link skips it, and the node itself may be rewritten.\<close>

lemma chain_unlink:
  assumes "chain nxt ps q (us @ a # p # vs)" "ps a = Some pa" "ps p = Some pp" "nxt pa' = nxt pp"
  shows "chain nxt (ps(a \<mapsto> pa', p \<mapsto> pp')) q (us @ a # vs)"
proof -
  have dist: "distinct (us @ a # p # vs)" by (rule chain_distinct [OF assms(1)])
  then have out: "a \<notin> set us" "p \<notin> set us" "a \<notin> set vs" "p \<notin> set vs" "a \<noteq> p" by auto
  let ?qs = "ps(a \<mapsto> pa', p \<mapsto> pp')"
  have rest: "chain nxt ps (nxt pp) vs" "a \<noteq> 0"
    using chain_split [OF assms(1)] assms(2,3) by auto
  then have tail: "chain nxt ?qs a (a # vs)"
    using out assms(4) by (auto intro: chain_cong)
  from assms(1) out(1,2) show ?thesis
  proof (induction us arbitrary: q)
    case Nil
    then have "q = a" by simp
    with tail show ?case unfolding append_Nil by blast
  next
    case (Cons u us)
    then show ?case by auto
  qed
qed

lemma find_prev_absent:
  "chain nxt ps q xs \<Longrightarrow> p \<noteq> 0 \<Longrightarrow> p \<notin> set (tl xs) \<Longrightarrow> find_prev nxt ps p q = Some 0"
proof (induction xs arbitrary: q)
  case Nil
  then show ?case by (subst find_prev.simps) simp
next
  case (Cons x xs)
  then obtain pr where pr: "q = x" "x \<noteq> 0" "ps x = Some pr" "chain nxt ps (nxt pr) xs" by auto
  then have "nxt pr \<noteq> p" using Cons.prems by (cases xs) auto
  moreover have "find_prev nxt ps p (nxt pr) = Some 0"
    using Cons.prems by (intro Cons.IH [OF pr(4)]) (cases xs; auto)+
  ultimately show ?case using pr by (subst find_prev.simps) simp
qed

text \<open>The walk to the last node.\<close>

partial_function (option) find_last ::
    "('n \<Rightarrow> u32) \<Rightarrow> (u32 \<Rightarrow> 'n option) \<Rightarrow> u32 \<Rightarrow> u32 option" where
  "find_last nxt ps p =
     ps p \<bind> (\<lambda>pr. if nxt pr = 0 then Some p else find_last nxt ps (nxt pr))"

lemma find_last_eq: "chain nxt ps q xs \<Longrightarrow> xs \<noteq> [] \<Longrightarrow> find_last nxt ps q = Some (last xs)"
proof (induction xs arbitrary: q)
  case Nil
  then show ?case by simp
next
  case (Cons x xs)
  then obtain pr where pr: "q = x" "ps x = Some pr" "chain nxt ps (nxt pr) xs" by auto
  have "nxt pr = 0 \<longleftrightarrow> xs = []" using pr(3) by (cases xs) auto
  then show ?case using pr Cons.IH [OF pr(3)] by (subst find_last.simps) auto
qed

lemma chain_append:
  assumes "chain nxt ps q xs" "xs \<noteq> []" "ps (last xs) = Some pl" "c \<notin> set xs" "c \<noteq> 0"
    "ps c = Some pc" "nxt pc = 0" "nxt pl' = c"
  shows "chain nxt (ps(last xs \<mapsto> pl')) q (xs @ [c])"
  using assms(1-4)
proof (induction xs arbitrary: q)
  case Nil
  then show ?case by simp
next
  case (Cons x xs)
  then have dist: "x \<notin> set xs" using chain_distinct [OF Cons.prems(1)] by simp
  show ?case
  proof (cases "xs = []")
    case True
    with Cons.prems assms show ?thesis by auto
  next
    case False
    with Cons dist show ?thesis by (auto dest: last_in_set)
  qed
qed

end
