(* ===== verification/Process.thy ===== *)
theory Process
  imports Interrupts Links
begin

text \<open>
  Processes and the scheduler, \<^verbatim>\<open>src/kernel/process.c\<close>: process structures linked into a
  null-terminated list, \<open>process_list\<close> its head, and a round-robin scheduler that the timer
  interrupt runs on every tenth tick. The structures live in a store from addresses to
  processes, since the list is updated through pointers and \<^verbatim>\<open>kfree\<close> leaves a freed structure
  readable. A pointer dereference to no structure is \<^const>\<open>None\<close>.
\<close>

section \<open>State\<close>

datatype process_state = PROCESS_READY | PROCESS_RUNNING | PROCESS_BLOCKED | PROCESS_TERMINATED

record process_context =
  eax :: u32
  ebx :: u32
  ecx :: u32
  edx :: u32
  esi :: u32
  edi :: u32
  ebp :: u32
  esp :: u32
  eip :: u32
  eflags :: u32
  ctx_cr3 :: u32

record process =
  p_pid :: u32
  p_name :: "char list"
  p_state :: process_state
  p_context :: process_context
  p_kernel_stack :: u32
  p_kernel_stack_size :: u32
  p_user_stack :: u32
  p_user_stack_size :: u32
  p_next :: u32

record kproc = kintr +
  procs :: "u32 \<Rightarrow> process option"
  current_process :: u32
  process_list :: u32
  next_pid :: u32
  tick_count :: u32

text \<open>\<^verbatim>\<open>sizeof(process_t)\<close>, and the scheduler's slice, which no code changes.\<close>

definition PROCESS_SIZE :: u32 where
  "PROCESS_SIZE = 104"

definition time_slice :: u32 where
  "time_slice = 10"

definition upd_proc :: "u32 \<Rightarrow> (process \<Rightarrow> process) \<Rightarrow> 'a kproc_scheme \<Rightarrow> 'a kproc_scheme option" where
  "upd_proc p f s = procs s p \<bind> (\<lambda>pr. Some (s\<lparr>procs := (procs s)(p \<mapsto> f pr)\<rparr>))"

section \<open>Operations\<close>

definition scheduler_init :: "'a kproc_scheme \<Rightarrow> 'a kproc_scheme" where
  "scheduler_init s =
     puts (''Zamanlayici baslatildi.'' @ newline)
       (register_interrupt_handler 32 Isr_scheduler_tick
         (puts (''Zamanlayici baslatiliyor...'' @ newline) s))"

text \<open>
  \<open>junk\<close> is what the fresh memory holds: the fields the code does not write keep it.
\<close>

definition process_init :: "process \<Rightarrow> 'a kproc_scheme \<Rightarrow> 'a kproc_scheme option" where
  "process_init junk s = (
     let s1 = puts (''Islem yonetimi baslatiliyor...'' @ newline) s;
         (p, s2) = kmalloc PROCESS_SIZE s1
     in copy_cstr 31 ''kernel'' (p_name junk) \<bind> (\<lambda>nm.
        let (stack, s3) = kmalloc 4096 s2;
            pr = junk\<lparr>p_pid := 0, p_state := PROCESS_RUNNING, p_name := nm,
              p_context := (p_context junk)\<lparr>eip := 0, esp := 0, ebp := 0\<rparr>,
              p_kernel_stack_size := 4096, p_kernel_stack := stack, p_next := 0\<rparr>;
            s4 = s3\<lparr>procs := (procs s3)(p \<mapsto> pr), process_list := p, current_process := p\<rparr>
        in Some (scheduler_init (puts (''Islem yonetimi baslatildi.'' @ newline) s4))))"

definition process_create :: "process \<Rightarrow> string \<Rightarrow> u32 \<Rightarrow> 'a kproc_scheme \<Rightarrow>
    (u32 \<times> 'a kproc_scheme) option" where
  "process_create junk name entry_point s = (
     let s1 = puts newline (puts name (puts ''Yeni islem olusturuluyor: '' s));
         (p, s2) = kmalloc PROCESS_SIZE s1;
         pid = next_pid s2;
         s3 = s2\<lparr>next_pid := pid + 1\<rparr>
     in copy_cstr 31 name (p_name junk) \<bind> (\<lambda>nm.
        let (stack, s4) = kmalloc 4096 s3;
            pr = junk\<lparr>p_pid := pid, p_state := PROCESS_READY, p_name := nm,
              p_context := (p_context junk)\<lparr>eip := entry_point, eflags := 0x202,
                esp := stack + 4096, ebp := stack + 4096\<rparr>,
              p_kernel_stack_size := 4096, p_kernel_stack := stack, p_next := process_list s4\<rparr>
        in Some (p, s4\<lparr>procs := (procs s4)(p \<mapsto> pr), process_list := p\<rparr>)))"

definition process_terminate :: "u32 \<Rightarrow> 'a kproc_scheme \<Rightarrow> 'a kproc_scheme option" where
  "process_terminate p s =
     (if p = 0 then Some s
      else do {
        pr \<leftarrow> procs s p;
        let s1 = puts newline (puts (cstr (p_name pr)) (puts ''Islem sonlandiriliyor: '' s));
        s2 \<leftarrow> (if p = process_list s1 then Some (s1\<lparr>process_list := p_next pr\<rparr>)
              else do {
                temp \<leftarrow> find_prev p_next (procs s1) p (process_list s1);
                if temp \<noteq> 0 then upd_proc temp (\<lambda>t. t\<lparr>p_next := p_next pr\<rparr>) s1 else Some s1
              });
        let s3 = (if p = current_process s2 then s2\<lparr>current_process := process_list s2\<rparr> else s2);
        s4 \<leftarrow> upd_proc p (\<lambda>t. t\<lparr>p_state := PROCESS_TERMINATED\<rparr>) s3;
        let s5 = (if p_kernel_stack pr \<noteq> 0 then kfree (p_kernel_stack pr) s4 else s4);
        Some (kfree p s5)
      })"

definition process_switch :: "u32 \<Rightarrow> 'a kproc_scheme \<Rightarrow> 'a kproc_scheme option" where
  "process_switch next s =
     (if next = 0 \<or> next = current_process s then Some s
      else do {
        s1 \<leftarrow> upd_proc (current_process s) (\<lambda>t. t\<lparr>p_state := PROCESS_READY\<rparr>) s;
        upd_proc next (\<lambda>t. t\<lparr>p_state := PROCESS_RUNNING\<rparr>) (s1\<lparr>current_process := next\<rparr>)
      })"

partial_function (option) sched_scan ::
    "(u32 \<Rightarrow> process option) \<Rightarrow> u32 \<Rightarrow> u32 \<Rightarrow> u32 \<Rightarrow> u32 option" where
  "sched_scan ps list cur next =
     (if next = cur then Some next
      else ps next \<bind> (\<lambda>pr. if p_state pr = PROCESS_READY then Some next
        else sched_scan ps list cur (if p_next pr = 0 then list else p_next pr)))"

definition process_schedule :: "'a kproc_scheme \<Rightarrow> 'a kproc_scheme option" where
  "process_schedule s =
     (if process_list s = 0 then Some s
      else do {
        cur \<leftarrow> procs s (current_process s);
        let first = (if p_next cur = 0 then process_list s else p_next cur);
        next \<leftarrow> sched_scan (procs s) (process_list s) (current_process s) first;
        if next \<noteq> current_process s
        then do {
          pr \<leftarrow> procs s next;
          if p_state pr = PROCESS_READY then process_switch next s else Some s
        }
        else Some s
      })"

definition process_get_current :: "'a kproc_scheme \<Rightarrow> u32" where
  "process_get_current s = current_process s"

definition get_tick_count :: "'a kproc_scheme \<Rightarrow> u32" where
  "get_tick_count s = tick_count s"

text \<open>\<^verbatim>\<open>port_out\<close> of this file has an empty body, so the acknowledgement does nothing.\<close>

definition ack_irq :: "int \<Rightarrow> 'a kproc_scheme \<Rightarrow> 'a kproc_scheme" where
  "ack_irq irq_no s = s"

definition scheduler_tick :: "'a kproc_scheme \<Rightarrow> 'a kproc_scheme option" where
  "scheduler_tick s =
     (let s1 = ack_irq 0 s;
          s2 = s1\<lparr>tick_count := tick_count s1 + 1\<rparr>
      in if tick_count s2 mod time_slice = 0 \<and> process_list s2 \<noteq> 0
         then procs s2 (process_list s2) \<bind> (\<lambda>pr.
           if p_next pr \<noteq> 0 then process_schedule s2 else Some s2)
         else Some s2)"

section \<open>The scan of the scheduler\<close>

definition state_of :: "'a kproc_scheme \<Rightarrow> u32 \<Rightarrow> process_state option" where
  "state_of s x = map_option p_state (procs s x)"

lemma rotate_candidates:
  "tl (rotate i xs) = map (\<lambda>e. xs ! ((i + e) mod length xs)) [1..<length xs]"
  by (rule nth_equalityI) (simp_all add: nth_tl nth_rotate)

lemma next_candidate_differs:
  assumes "distinct xs" "i < length xs" "0 < d" "d < length xs"
  shows "xs ! ((i + d) mod length xs) \<noteq> xs ! i"
proof -
  have "(i + d) mod length xs \<noteq> i"
  proof (cases "i + d < length xs")
    case False
    then have "(i + d) mod length xs = i + d - length xs" using assms by (simp add: le_mod_geq)
    moreover have "i + d - length xs \<noteq> i" using False assms by linarith
    ultimately show ?thesis by simp
  qed (use assms in simp)
  moreover have "(i + d) mod length xs < length xs"
    by (rule mod_less_divisor) (use assms(2) in linarith)
  ultimately show ?thesis using assms(1,2) by (simp add: nth_eq_iff_index_eq)
qed

lemma sched_scan_candidates:
  assumes "chain p_next ps p xs" "i < length xs" "0 < d" "d \<le> length xs"
  shows "sched_scan ps p (xs ! i) (xs ! ((i + d) mod length xs)) =
    Some (case find (\<lambda>x. map_option p_state (ps x) = Some PROCESS_READY)
        (map (\<lambda>e. xs ! ((i + e) mod length xs)) [d..<length xs])
      of None \<Rightarrow> xs ! i | Some x \<Rightarrow> x)"
  using assms(3,4)
proof (induction "length xs - d" arbitrary: d)
  case 0
  then have "d = length xs" by simp
  with assms(2) show ?case by (subst sched_scan.simps) simp
next
  case (Suc m)
  let ?n = "length xs" and ?x = "xs ! ((i + d) mod length xs)"
  from Suc have d: "d < ?n" by simp
  then have up: "[d..<?n] = d # [Suc d..<?n]" by (simp add: upt_conv_Cons)
  have ne: "?x \<noteq> xs ! i"
    using next_candidate_differs [OF chain_distinct [OF assms(1)] assms(2)] Suc.prems d by blast
  have "(i + d) mod ?n < ?n" by (rule mod_less_divisor) (use assms(2) in linarith)
  from chain_next [OF assms(1) this] obtain pr where pr: "ps ?x = Some pr"
    "(if p_next pr = 0 then p else p_next pr) = xs ! ((i + Suc d) mod ?n)"
    by (auto simp: mod_Suc_eq)
  have "sched_scan ps p (xs ! i) (xs ! ((i + Suc d) mod ?n)) =
    Some (case find (\<lambda>x. map_option p_state (ps x) = Some PROCESS_READY)
        (map (\<lambda>e. xs ! ((i + e) mod length xs)) [Suc d..<length xs])
      of None \<Rightarrow> xs ! i | Some x \<Rightarrow> x)"
    using Suc d by (intro Suc.hyps(1)) auto
  then show ?case
    unfolding up using ne pr by (subst sched_scan.simps) simp
qed

lemma schedule_eq:
  assumes "chain p_next (procs s) (process_list s) xs" "i < length xs" "current_process s = xs ! i"
  shows "process_schedule s =
    (case find (\<lambda>x. state_of s x = Some PROCESS_READY) (tl (rotate i xs)) of
      None \<Rightarrow> Some s | Some x \<Rightarrow> process_switch x s)"
proof -
  have nz: "process_list s \<noteq> 0" using assms(1,2) by (cases xs) auto
  obtain cur where cur: "procs s (xs ! i) = Some cur"
    "(if p_next cur = 0 then process_list s else p_next cur) = xs ! (Suc i mod length xs)"
    using chain_next [OF assms(1,2)] by blast
  have scan: "sched_scan (procs s) (process_list s) (xs ! i) (xs ! (Suc i mod length xs)) =
      Some (case find (\<lambda>x. state_of s x = Some PROCESS_READY) (tl (rotate i xs)) of
        None \<Rightarrow> xs ! i | Some x \<Rightarrow> x)"
    using sched_scan_candidates [OF assms(1,2), of 1] assms(2)
    unfolding rotate_candidates state_of_def by simp
  show ?thesis
  proof (cases "find (\<lambda>x. state_of s x = Some PROCESS_READY) (tl (rotate i xs))")
    case None
    with scan cur nz assms(3) show ?thesis by (simp add: process_schedule_def)
  next
    case (Some x)
    then have "state_of s x = Some PROCESS_READY" "x \<in> set (tl (rotate i xs))"
      by (auto dest: find_SomeD)
    moreover from this(2) have "x \<noteq> xs ! i"
      using next_candidate_differs [OF chain_distinct [OF assms(1)] assms(2)]
      unfolding rotate_candidates by auto
    ultimately show ?thesis
      using scan cur nz assms(3) Some by (auto simp: process_schedule_def state_of_def)
  qed
qed

section \<open>Invariant\<close>

text \<open>
  \<open>xs\<close> is the process list: its structures are allocated memory, none of them is terminated,
  and the current process, which is one of them, is the only one marked as running.
\<close>

definition sched_inv :: "'a kproc_scheme \<Rightarrow> u32 list \<Rightarrow> bool" where
  "sched_inv s xs \<longleftrightarrow> chain p_next (procs s) (process_list s) xs \<and> current_process s \<in> set xs \<and>
     (\<forall>x \<in> set xs. (state_of s x = Some PROCESS_RUNNING \<longleftrightarrow> x = current_process s) \<and>
        state_of s x \<noteq> Some PROCESS_TERMINATED \<and> block x 104 \<subseteq> live s)"

lemma emit_kproc [simp]:
  "procs (emit c s) = procs s" "process_list (emit c s) = process_list s"
  "current_process (emit c s) = current_process s" "next_pid (emit c s) = next_pid s"
  "tick_count (emit c s) = tick_count s"
  by (simp_all add: emit_def)

lemma live_cong: "kernel_heap s = kernel_heap t \<Longrightarrow> heap_end s = heap_end t \<Longrightarrow> live s = live t"
  by (simp add: live_def)

lemma sched_inv_cong:
  assumes "sched_inv s xs" "procs t = procs s" "process_list t = process_list s"
    "current_process t = current_process s" "live s \<subseteq> live t"
  shows "sched_inv t xs"
  using assms by (auto simp: sched_inv_def state_of_def)

text \<open>What \<^verbatim>\<open>process_switch\<close> does to two different listed processes.\<close>

lemma process_switch_eq:
  assumes "procs s (current_process s) = Some c" "procs s x = Some pr" "x \<noteq> 0"
    "x \<noteq> current_process s"
  shows "process_switch x s = Some (s\<lparr>current_process := x,
    procs := (procs s)(current_process s \<mapsto> c\<lparr>p_state := PROCESS_READY\<rparr>,
      x \<mapsto> pr\<lparr>p_state := PROCESS_RUNNING\<rparr>)\<rparr>)"
  using assms by (simp add: process_switch_def upd_proc_def)

lemma process_switch_inv [invariants]:
  assumes "sched_inv s xs" "x \<in> set xs"
  shows "\<exists>t. process_switch x s = Some t \<and> sched_inv t xs \<and> current_process t = x \<and>
    (\<forall>y \<in> set xs. y \<noteq> x \<and> y \<noteq> current_process s \<longrightarrow> procs t y = procs s y) \<and>
    (x \<noteq> current_process s \<longrightarrow> state_of t (current_process s) = Some PROCESS_READY) \<and>
    process_list t = process_list s \<and> tick_count t = tick_count s"
proof (cases "x = current_process s")
  case True
  then show ?thesis using assms(1) by (auto simp: process_switch_def)
next
  case False
  have ch: "chain p_next (procs s) (process_list s) xs" and cur: "current_process s \<in> set xs"
    using assms(1) by (auto simp: sched_inv_def)
  obtain c where c: "procs s (current_process s) = Some c" using chain_in_store [OF ch cur] by blast
  obtain pr where pr: "procs s x = Some pr" "x \<noteq> 0" using chain_in_store [OF ch assms(2)] by blast
  let ?t = "s\<lparr>current_process := x,
    procs := (procs s)(current_process s \<mapsto> c\<lparr>p_state := PROCESS_READY\<rparr>,
      x \<mapsto> pr\<lparr>p_state := PROCESS_RUNNING\<rparr>)\<rparr>"
  have "chain p_next (procs ?t) (process_list ?t) xs"
    using ch False by (auto intro!: chain_cong [OF ch] simp: c pr)
  moreover have "live ?t = live s" by (simp add: live_def)
  ultimately have "sched_inv ?t xs"
    using assms False by (auto simp: sched_inv_def state_of_def)
  then show ?thesis
    using process_switch_eq [OF c pr False] False by (auto simp: state_of_def)
qed

lemma index_of: "x \<in> set xs \<Longrightarrow> \<exists>i < length xs. x = xs ! i"
  by (metis in_set_conv_nth)

lemma tl_rotate_subset: "set (tl (rotate i xs)) \<subseteq> set xs"
  by (metis set_rotate list.set_sel(2) subsetI tl_Nil empty_iff list.set(1))

lemma process_schedule_inv [invariants]:
  assumes "sched_inv s xs"
  shows "\<exists>t. process_schedule s = Some t \<and> sched_inv t xs \<and> process_list t = process_list s \<and>
    tick_count t = tick_count s"
proof -
  have ch: "chain p_next (procs s) (process_list s) xs" and cur: "current_process s \<in> set xs"
    using assms by (auto simp: sched_inv_def)
  from index_of [OF cur] obtain i where i: "i < length xs" "current_process s = xs ! i" by blast
  show ?thesis
  proof (cases "find (\<lambda>x. state_of s x = Some PROCESS_READY) (tl (rotate i xs))")
    case None
    then show ?thesis using assms schedule_eq [OF ch i] by simp
  next
    case (Some x)
    have "x \<in> set (tl (rotate i xs))" using find_SomeD [OF Some] by (rule conjunct2)
    with tl_rotate_subset have "x \<in> set xs" by (rule subsetD)
    from process_switch_inv [OF assms this] obtain t where
      "process_switch x s = Some t" "sched_inv t xs" "process_list t = process_list s"
      "tick_count t = tick_count s" by blast
    then show ?thesis using schedule_eq [OF ch i] Some by simp
  qed
qed

lemma scheduler_tick_inv [invariants]:
  assumes "sched_inv s xs"
  shows "\<exists>t. scheduler_tick s = Some t \<and> sched_inv t xs"
proof -
  let ?s = "s\<lparr>tick_count := tick_count s + 1\<rparr>"
  have inv: "sched_inv ?s xs" by (rule sched_inv_cong [OF assms]) (simp_all add: live_def)
  then obtain x ys where "xs = x # ys" by (cases xs) (auto simp: sched_inv_def)
  with assms obtain pr where pr: "procs s (process_list s) = Some pr"
    by (auto simp: sched_inv_def)
  obtain t where t: "process_schedule ?s = Some t" "sched_inv t xs"
    using process_schedule_inv [OF inv] by blast
  have "scheduler_tick s \<in> {Some ?s, process_schedule ?s}"
    using pr by (simp add: scheduler_tick_def ack_irq_def Let_def)
  with t inv show ?thesis by auto
qed

subsection \<open>Creation\<close>

lemma process_create_eq:
  assumes "length (p_name junk) = 32" "NUL \<notin> set name"
  shows "\<exists>t pr. process_create junk name entry s = Some (heap_end s, t) \<and>
    procs t = (procs s)(heap_end s \<mapsto> pr) \<and> process_list t = heap_end s \<and>
    current_process t = current_process s \<and> next_pid t = next_pid s + 1 \<and>
    p_pid pr = next_pid s \<and> p_state pr = PROCESS_READY \<and> cstr (p_name pr) = take 31 name \<and>
    eip (p_context pr) = entry \<and> p_kernel_stack pr = heap_end s + 104 \<and>
    esp (p_context pr) = p_kernel_stack pr + p_kernel_stack_size pr \<and>
    p_next pr = process_list s \<and> heap_end t = heap_end s + 104 + 4096 \<and>
    kernel_heap t = kernel_heap s"
proof -
  obtain nm where nm: "copy_cstr 31 name (p_name junk) = Some nm" "cstr nm = take 31 name"
    using copy_cstr_cstr [OF assms(2), of 31 "p_name junk"] assms(1) by auto
  show ?thesis
    by (simp add: nm process_create_def kmalloc_eq PROCESS_SIZE_def Let_def emit_def,
        rule exI, rule conjI, rule refl, simp add: nm)
qed

lemma heap_end_not_listed:
  assumes "sched_inv s xs" "x \<in> set xs"
  shows "x \<noteq> heap_end s"
proof -
  have "x \<in> block x 104" by (auto simp: block_def intro: image_eqI [of _ _ 0])
  then have "x \<in> live s" using assms by (auto simp: sched_inv_def)
  then show ?thesis by (auto simp: live_interval)
qed

lemma heap_end_nonzero: "sched_inv s xs \<Longrightarrow> heap_end s \<noteq> 0"
proof -
  assume inv: "sched_inv s xs"
  let ?c = "current_process s"
  have "?c \<in> block ?c 104" by (auto simp: block_def intro: image_eqI [of _ _ 0])
  with inv have "?c \<in> live s" unfolding sched_inv_def by blast
  then show ?thesis by (auto simp: live_interval)
qed

lemma process_create_inv [invariants]:
  assumes "sched_inv s xs" "room 4200 s"
    "process_create junk name entry s = Some (p, t)" "length (p_name junk) = 32" "NUL \<notin> set name"
  shows "p = heap_end s \<and> sched_inv t (p # xs)"
proof -
  obtain pr where pr: "p = heap_end s" "procs t = (procs s)(heap_end s \<mapsto> pr)"
    "process_list t = heap_end s" "current_process t = current_process s"
    "p_state pr = PROCESS_READY" "p_next pr = process_list s"
    "heap_end t = heap_end s + 104 + 4096" "kernel_heap t = kernel_heap s"
    using process_create_eq [OF assms(4,5), of entry s] assms(3) by auto
  have bound: "unat (kernel_heap s) \<le> unat (heap_end s)" "unat (heap_end s) + 4200 < 2 ^ 32"
    using assms(2) by (simp_all add: room_def word_le_nat_alt)
  then have he: "unat (heap_end t) = unat (heap_end s) + 4200"
    using unat_add_of_nat [of "heap_end s" 4200] by (simp add: pr add.commute)
  have nz: "heap_end s \<noteq> 0" by (rule heap_end_nonzero [OF assms(1)])
  have ch: "chain p_next (procs t) (process_list t) (heap_end s # xs)"
    using assms(1) nz heap_end_not_listed [OF assms(1)]
    by (auto simp: pr sched_inv_def intro: chain_cong)
  have live: "live s \<subseteq> live t" "block (heap_end s) 104 \<subseteq> live t"
    using bound he by (auto simp: live_interval pr in_block_interval)
  have st: "state_of t x = (if x = heap_end s then Some PROCESS_READY else state_of s x)" for x
    by (simp add: state_of_def pr)
  have ne: "x \<noteq> heap_end s" if "x \<in> set xs" for x using heap_end_not_listed [OF assms(1) that] .
  have old: "(state_of s x = Some PROCESS_RUNNING \<longleftrightarrow> x = current_process s) \<and>
      state_of s x \<noteq> Some PROCESS_TERMINATED \<and> block x 104 \<subseteq> live t" if "x \<in> set xs" for x
    using assms(1) that live(1) unfolding sched_inv_def by blast
  have cur: "current_process s \<in> set xs" using assms(1) by (simp add: sched_inv_def)
  then have cne: "current_process s \<noteq> heap_end s" by (rule ne)
  have all: "(state_of t x = Some PROCESS_RUNNING \<longleftrightarrow> x = current_process s) \<and>
      state_of t x \<noteq> Some PROCESS_TERMINATED \<and> block x 104 \<subseteq> live t"
    if "x \<in> set (heap_end s # xs)" for x
  proof (cases "x = heap_end s")
    case True
    then show ?thesis using cne live(2) by (simp add: st)
  next
    case False
    then show ?thesis using that old [of x] by (simp add: st)
  qed
  show ?thesis
    unfolding sched_inv_def pr(1,4)
    using ch cur all by (auto simp: pr(3))
qed

subsection \<open>Termination\<close>

lemma kfree_simps [simp]:
  "procs (kfree p s) = procs s" "process_list (kfree p s) = process_list s"
  "current_process (kfree p s) = current_process s" "heap_end (kfree p s) = heap_end s"
  "kernel_heap (kfree p s) = kernel_heap s"
  by (simp_all add: kfree_def emit_def)

lemma process_terminate_eq:
  assumes ch: "chain p_next (procs s) (process_list s) (us @ p # vs)"
  shows "\<exists>t. process_terminate p s = Some t \<and> chain p_next (procs t) (process_list t) (us @ vs) \<and>
    state_of t p = Some PROCESS_TERMINATED \<and>
    (\<forall>x. x \<noteq> p \<longrightarrow> state_of t x = state_of s x) \<and>
    current_process t = (if p = current_process s then process_list t else current_process s) \<and>
    heap_end t = heap_end s \<and> kernel_heap t = kernel_heap s"
proof -
  have dist: "distinct (us @ p # vs)" by (rule chain_distinct [OF ch])
  obtain pr where pr: "procs s p = Some pr" "p \<noteq> 0" using chain_in_store [OF ch, of p] by auto
  have rest: "chain p_next (procs s) (p_next pr) vs" using chain_split [OF ch] pr by auto
  show ?thesis
  proof (cases us rule: rev_cases)
    case Nil
    with ch have "process_list s = p" by simp
    moreover have "chain p_next ((procs s)(p \<mapsto> pr\<lparr>p_state := PROCESS_TERMINATED\<rparr>)) (p_next pr) vs"
      using dist Nil by (auto intro: chain_cong [OF rest])
    ultimately show ?thesis using pr Nil
      by (cases "p = current_process s")
        (auto simp: process_terminate_def upd_proc_def state_of_def Let_def)
  next
    case (snoc us' a)
    then have ch': "chain p_next (procs s) (process_list s) (us' @ a # p # vs)" using ch by simp
    obtain pa where pa: "procs s a = Some pa" "a \<noteq> 0" using chain_in_store [OF ch', of a] by auto
    have ne: "p \<noteq> process_list s" "a \<noteq> p"
      using dist ch' snoc by (cases us'; auto)+
    have "chain p_next ((procs s)(a \<mapsto> pa\<lparr>p_next := p_next pr\<rparr>, p \<mapsto> pr\<lparr>p_state := PROCESS_TERMINATED\<rparr>))
        (process_list s) (us' @ a # vs)"
      by (rule chain_unlink [OF ch' pa(1) pr(1)]) simp
    then show ?thesis using pr pa ne snoc find_prev_eq [OF ch']
      by (cases "p = current_process s")
        (auto simp: process_terminate_def upd_proc_def state_of_def Let_def)
  qed
qed

lemma process_terminate_inv [invariants]:
  assumes inv: "sched_inv s xs" and p: "p \<in> set xs" "p \<noteq> current_process s"
  shows "\<exists>t. process_terminate p s = Some t \<and> sched_inv t (remove1 p xs)"
proof -
  obtain us vs where xs: "xs = us @ p # vs" "p \<notin> set us" using split_list_first [OF p(1)] by blast
  have ch: "chain p_next (procs s) (process_list s) (us @ p # vs)" using inv xs by (simp add: sched_inv_def)
  then have dist: "distinct (us @ p # vs)" by (rule chain_distinct)
  from process_terminate_eq [OF ch] obtain t where t: "process_terminate p s = Some t"
    "chain p_next (procs t) (process_list t) (us @ vs)"
    "\<forall>x. x \<noteq> p \<longrightarrow> state_of t x = state_of s x" "current_process t = current_process s"
    "heap_end t = heap_end s" "kernel_heap t = kernel_heap s"
    using p(2) by auto
  moreover have "remove1 p xs = us @ vs" using xs by (simp add: remove1_append)
  moreover have "live t = live s" using t(5,6) by (simp add: live_def)
  ultimately show ?thesis
    using inv p(2) xs dist unfolding sched_inv_def by auto
qed

subsection \<open>The first process\<close>

lemma process_init_eq:
  assumes "length (p_name junk) = 32" "kernel_heap s \<noteq> 0" "room 4200 s"
  shows "\<exists>t. process_init junk s = Some t \<and> sched_inv t [heap_end s] \<and>
    kernel_heap t = kernel_heap s \<and> handlers t = (handlers s)[32 := Some Isr_scheduler_tick] \<and>
    tick_count t = tick_count s"
proof -
  have nonul: "NUL \<notin> set ''kernel''" by simp
  obtain nm where nm: "copy_cstr 31 ''kernel'' (p_name junk) = Some nm"
    using copy_cstr_cstr [OF nonul, of 31 "p_name junk"] assms(1) by auto
  have bound: "unat (kernel_heap s) \<le> unat (heap_end s)" "unat (heap_end s) + 4200 < 2 ^ 32"
    using assms(3) by (simp_all add: room_def word_le_nat_alt)
  then have he: "unat (heap_end s + 104 + 4096) = unat (heap_end s) + 4200"
    using unat_add_of_nat [of "heap_end s" 4200] by (simp add: add.commute)
  have nz: "heap_end s \<noteq> 0" using assms(2) bound by (metis le_zero_eq unat_0 unat_eq_zero)
  have reg: "register_interrupt_handler 32 h w = w\<lparr>handlers := (handlers w)[32 := Some h]\<rparr>"
    for h and w :: "'b kproc_scheme"
    by (simp add: register_interrupt_handler_def)
  show ?thesis
    using bound he nz
    by (auto simp: reg nm process_init_def kmalloc_eq PROCESS_SIZE_def Let_def scheduler_init_def
        emit_def sched_inv_def state_of_def live_interval
        in_block_interval add.commute)
qed

section \<open>Reachable states\<close>

inductive proc_step :: "'a kproc_scheme \<Rightarrow> 'a kproc_scheme \<Rightarrow> bool" where
  create: "room 4200 s \<Longrightarrow> length (p_name junk) = 32 \<Longrightarrow> NUL \<notin> set name \<Longrightarrow>
    process_create junk name entry s = Some (p, t) \<Longrightarrow> proc_step s t"
| terminate: "chain p_next (procs s) (process_list s) xs \<Longrightarrow> p \<in> set xs \<Longrightarrow> p \<noteq> current_process s \<Longrightarrow>
    process_terminate p s = Some t \<Longrightarrow> proc_step s t"
| switch: "chain p_next (procs s) (process_list s) xs \<Longrightarrow> p \<in> set xs \<Longrightarrow>
    process_switch p s = Some t \<Longrightarrow> proc_step s t"
| schedule: "process_schedule s = Some t \<Longrightarrow> proc_step s t"
| tick: "scheduler_tick s = Some t \<Longrightarrow> proc_step s t"

inductive_cases proc_stepE: "proc_step s t"

inductive proc_reach :: "'a kproc_scheme \<Rightarrow> 'a kproc_scheme \<Rightarrow> bool" for s where
  start: "proc_reach s s"
| step: "proc_reach s t \<Longrightarrow> proc_step t u \<Longrightarrow> proc_reach s u"

lemma proc_step_inv:
  assumes "proc_step s t" "sched_inv s xs"
  shows "\<exists>ys. sched_inv t ys"
  using assms
proof (induction rule: proc_step.induct)
  case (create s junk name entry p t)
  then show ?case using process_create_inv by blast
next
  case (terminate s ys p t)
  then have "ys = xs" using chain_unique unfolding sched_inv_def by blast
  then show ?case using process_terminate_inv [OF terminate.prems, of p] terminate by auto
next
  case (switch s ys p t)
  then have "ys = xs" using chain_unique unfolding sched_inv_def by blast
  then show ?case using process_switch_inv [OF switch.prems, of p] switch by auto
next
  case (schedule s t)
  then show ?case using process_schedule_inv by fastforce
next
  case (tick s t)
  then show ?case using scheduler_tick_inv by fastforce
qed

lemma proc_reach_inv:
  "proc_reach s t \<Longrightarrow> sched_inv s xs \<Longrightarrow> \<exists>ys. sched_inv t ys"
  by (induction rule: proc_reach.induct) (blast intro: proc_step_inv)+

section \<open>Time slices\<close>

definition others_ready :: "'a kproc_scheme \<Rightarrow> u32 list \<Rightarrow> bool" where
  "others_ready s xs \<longleftrightarrow>
     (\<forall>x \<in> set xs. x \<noteq> current_process s \<longrightarrow> state_of s x = Some PROCESS_READY)"

lemma schedule_next:
  assumes "sched_inv s xs" "others_ready s xs" "i < length xs" "current_process s = xs ! i"
  shows "\<exists>t. process_schedule s = Some t \<and> sched_inv t xs \<and> others_ready t xs \<and>
    current_process t = xs ! (Suc i mod length xs) \<and> tick_count t = tick_count s"
proof (cases "length xs = 1")
  case True
  then have "tl (rotate i xs) = []" by (cases "rotate i xs") (auto dest: arg_cong [of _ _ length])
  then have "process_schedule s = Some s"
    using assms(1) schedule_eq [of s xs i] assms(3,4) by (simp add: sched_inv_def)
  with assms True show ?thesis by simp
next
  case False
  have ch: "chain p_next (procs s) (process_list s) xs" using assms(1) by (simp add: sched_inv_def)
  from False assms(3) have n: "1 < length xs" by linarith
  then have split: "[Suc 0..<length xs] = Suc 0 # [2..<length xs]"
    by (simp add: upt_conv_Cons numeral_2_eq_2)
  let ?x = "xs ! (Suc i mod length xs)"
  have "Suc i mod length xs < length xs" by (rule mod_less_divisor) (use n in linarith)
  then have x: "?x \<in> set xs" by simp
  have ne: "?x \<noteq> xs ! i"
    using next_candidate_differs [OF chain_distinct [OF ch] assms(3), of 1] n by simp
  then have "state_of s ?x = Some PROCESS_READY"
    using assms(2,4) x by (simp add: others_ready_def)
  then have "process_schedule s = process_switch ?x s"
    using schedule_eq [OF ch assms(3,4)] by (simp add: rotate_candidates split)
  moreover obtain t where t: "process_switch ?x s = Some t" "sched_inv t xs"
    "current_process t = ?x"
    "\<forall>y \<in> set xs. y \<noteq> ?x \<and> y \<noteq> current_process s \<longrightarrow> procs t y = procs s y"
    "state_of t (current_process s) = Some PROCESS_READY" "tick_count t = tick_count s"
    using process_switch_inv [OF assms(1) x] ne assms(4) by auto
  moreover have "state_of t y = Some PROCESS_READY" if "y \<in> set xs" "y \<noteq> ?x" for y
  proof (cases "y = current_process s")
    case False
    then have "state_of t y = state_of s y" using t(4) that by (simp add: state_of_def)
    then show ?thesis using assms(2) False that by (simp add: others_ready_def)
  qed (simp add: t(5))
  ultimately show ?thesis by (simp add: others_ready_def)
qed

lemma unat_tick:
  "unat (n :: u32) + 1 < 2 ^ 32 \<Longrightarrow> unat (n + 1) = unat n + 1"
  using unat_add_of_nat [of n 1] by simp

lemma tick_quiet:
  assumes "unat (tick_count s) + 1 < 2 ^ 32" "unat (tick_count s) mod 10 \<noteq> 9"
  shows "scheduler_tick s = Some (s\<lparr>tick_count := tick_count s + 1\<rparr>)"
proof -
  have "unat ((tick_count s + 1) mod 10) = (unat (tick_count s) + 1) mod 10"
    using unat_tick [OF assms(1)] by (simp add: unat_mod)
  moreover have "(unat (tick_count s) + 1) mod 10 \<noteq> 0" using assms(2) by presburger
  ultimately have "(tick_count s + 1) mod 10 \<noteq> 0" by (metis unat_0)
  then show ?thesis by (simp add: scheduler_tick_def ack_irq_def Let_def time_slice_def)
qed

lemma quiet_ticks:
  assumes "unat (tick_count s) mod 10 + m \<le> 9" "unat (tick_count s) + m < 2 ^ 32"
  shows "iter_opt m scheduler_tick s = Some (s\<lparr>tick_count := tick_count s + of_nat m\<rparr>)"
  using assms
proof (induction m arbitrary: s)
  case 0
  then show ?case by simp
next
  case (Suc m)
  let ?s = "s\<lparr>tick_count := tick_count s + 1\<rparr>"
  have u: "unat (tick_count ?s) = unat (tick_count s) + 1"
    using Suc.prems unat_tick [of "tick_count s"] by simp
  have q: "scheduler_tick s = Some ?s" using Suc.prems by (intro tick_quiet) auto
  have "unat (tick_count ?s) mod 10 + m \<le> 9"
    using Suc.prems(1) unfolding u by (simp add: mod_Suc)
  then have "iter_opt m scheduler_tick ?s = Some (?s\<lparr>tick_count := tick_count ?s + of_nat m\<rparr>)"
    using Suc.prems u by (intro Suc.IH) auto
  then show ?case using q by (simp add: add_ac)
qed

lemma tick_schedules:
  assumes "unat (tick_count s) + 1 < 2 ^ 32" "unat (tick_count s) mod 10 = 9"
    "sched_inv s xs" "others_ready s xs" "i < length xs" "current_process s = xs ! i"
  shows "\<exists>t. scheduler_tick s = Some t \<and> sched_inv t xs \<and> others_ready t xs \<and>
    current_process t = xs ! (Suc i mod length xs) \<and> tick_count t = tick_count s + 1"
proof -
  let ?s = "s\<lparr>tick_count := tick_count s + 1\<rparr>"
  have "unat ((tick_count s + 1) mod 10) = (unat (tick_count s) + 1) mod 10"
    using unat_tick [OF assms(1)] by (simp add: unat_mod)
  also have "\<dots> = 0" using assms(2) by presburger
  finally have z: "(tick_count s + 1) mod 10 = 0" by (simp add: word_unat_eq_iff)
  have inv: "sched_inv ?s xs" by (rule sched_inv_cong [OF assms(3)]) (simp_all add: live_def)
  have rdy: "others_ready ?s xs" using assms(4) by (simp add: others_ready_def state_of_def)
  have ch: "chain p_next (procs s) (process_list s) xs" using assms(3) by (simp add: sched_inv_def)
  have l0: "process_list s = xs ! 0" "process_list s \<noteq> 0" using ch assms(5) by (cases xs; auto)+
  obtain pr where pr: "procs s (process_list s) = Some pr" "p_next pr = 0 \<longleftrightarrow> length xs = 1"
    using chain_next [OF ch, of 0] assms(5) l0 by fastforce
  obtain t where t: "process_schedule ?s = Some t" "sched_inv t xs" "others_ready t xs"
    "current_process t = xs ! (Suc i mod length xs)" "tick_count t = tick_count s + 1"
    using schedule_next [OF inv rdy assms(5)] assms(6) by auto
  show ?thesis
  proof (cases "length xs = 1")
    case True
    then have "scheduler_tick s = Some ?s"
      using z pr l0 by (simp add: scheduler_tick_def ack_irq_def Let_def time_slice_def)
    with True inv rdy assms(5,6) show ?thesis by simp
  next
    case False
    then have "scheduler_tick s = process_schedule ?s"
      using z pr l0 by (simp add: scheduler_tick_def ack_irq_def Let_def time_slice_def)
    with t show ?thesis by simp
  qed
qed

lemma one_slice:
  assumes "unat (tick_count s) + 10 < 2 ^ 32" "unat (tick_count s) mod 10 = 0"
    "sched_inv s xs" "others_ready s xs" "i < length xs" "current_process s = xs ! i"
  shows "\<exists>t. iter_opt 10 scheduler_tick s = Some t \<and> sched_inv t xs \<and> others_ready t xs \<and>
    current_process t = xs ! (Suc i mod length xs) \<and> unat (tick_count t) = unat (tick_count s) + 10"
proof -
  let ?s = "s\<lparr>tick_count := tick_count s + of_nat 9\<rparr>"
  have u: "unat (tick_count ?s) = unat (tick_count s) + 9"
    using unat_add_of_nat [of "tick_count s" 9] assms(1) by simp
  have nine: "iter_opt 9 scheduler_tick s = Some ?s"
    using assms(1,2) by (intro quiet_ticks) auto
  have inv: "sched_inv ?s xs" by (rule sched_inv_cong [OF assms(3)]) (simp_all add: live_def)
  have rdy: "others_ready ?s xs" using assms(4) by (simp add: others_ready_def state_of_def)
  have "unat (tick_count ?s) + 1 < 2 ^ 32" "unat (tick_count ?s) mod 10 = 9"
    using assms(1,2) unfolding u by (simp, presburger)
  from tick_schedules [OF this inv rdy assms(5)] assms(6) obtain t where
    t: "scheduler_tick ?s = Some t" "sched_inv t xs" "others_ready t xs"
      "current_process t = xs ! (Suc i mod length xs)" "tick_count t = tick_count ?s + 1"
    by auto
  have "iter_opt (9 + 1) scheduler_tick s = Some t"
    unfolding iter_opt_add nine using t(1) by simp
  moreover have "unat (tick_count t) = unat (tick_count s) + 10"
    using t(5) u unat_tick [of "tick_count ?s"] assms(1) by simp
  ultimately show ?thesis using t by auto
qed

lemma slices:
  assumes "unat (tick_count s) + 10 * k < 2 ^ 32" "unat (tick_count s) mod 10 = 0"
    "sched_inv s xs" "others_ready s xs" "i < length xs" "current_process s = xs ! i"
  shows "\<exists>t. iter_opt (10 * k) scheduler_tick s = Some t \<and> sched_inv t xs \<and>
    current_process t = xs ! ((i + k) mod length xs)"
  using assms
proof (induction k arbitrary: s i)
  case 0
  then show ?case by simp
next
  case (Suc k)
  from Suc.prems(1) have "unat (tick_count s) + 10 < 2 ^ 32" by simp
  from one_slice [OF this Suc.prems(2-)] obtain t where
    t: "iter_opt 10 scheduler_tick s = Some t" "sched_inv t xs" "others_ready t xs"
      "current_process t = xs ! (Suc i mod length xs)"
      "unat (tick_count t) = unat (tick_count s) + 10" by blast
  have "Suc i mod length xs < length xs" by (rule mod_less_divisor) (use Suc.prems in linarith)
  moreover have "unat (tick_count t) + 10 * k < 2 ^ 32" "unat (tick_count t) mod 10 = 0"
    using Suc.prems t(5) by simp_all
  ultimately have bounds: "Suc i mod length xs < length xs"
    "unat (tick_count t) + 10 * k < 2 ^ 32" "unat (tick_count t) mod 10 = 0" by blast+
  obtain u where u: "iter_opt (10 * k) scheduler_tick t = Some u" "sched_inv u xs"
    "current_process u = xs ! ((Suc i mod length xs + k) mod length xs)"
    using Suc.IH [OF bounds(2,3) t(2,3) bounds(1) t(4)] by blast
  have "iter_opt (10 + 10 * k) scheduler_tick s = Some u"
    unfolding iter_opt_add t(1) using u(1) by simp
  moreover have "(Suc i mod length xs + k) mod length xs = (i + Suc k) mod length xs"
    by (simp add: mod_add_left_eq)
  ultimately show ?case using u(2,3) by (auto simp: algebra_simps)
qed

section \<open>Properties\<close>

definition junk_proc :: process where
  "junk_proc = \<lparr>p_pid = 0xAAAAAAAA, p_name = replicate 32 (CHR ''x''), p_state = PROCESS_BLOCKED,
     p_context = \<lparr>eax = 1, ebx = 2, ecx = 3, edx = 4, esi = 5, edi = 6, ebp = 7, esp = 8,
       eip = 9, eflags = 10, ctx_cr3 = 11\<rparr>,
     p_kernel_stack = 0, p_kernel_stack_size = 0, p_user_stack = 0, p_user_stack_size = 0,
     p_next = 0\<rparr>"

definition kproc0 :: kproc where
  "kproc0 = kintr.extend kintr0 \<lparr>procs = Map.empty, current_process = 0, process_list = 0,
     next_pid = 1, tick_count = 0\<rparr>"

lemma kproc0_simps [simp]:
  "heap_end kproc0 = 0x100000" "kernel_heap kproc0 = 0x100000" "tick_count kproc0 = 0"
  "next_pid kproc0 = 1"
  by (simp_all add: kproc0_def kintr.defs kintr0_def kmem.defs kmem0_def)

lemma room_kproc0: "room 4200 kproc0"
  by (simp add: room_def)

lemma junk_name: "length (p_name junk_proc) = 32"
  by (simp add: junk_proc_def)

text \<open>
  C4: \<^verbatim>\<open>process_init\<close> and any run of creations, switches, schedules, timer ticks and
  terminations of processes other than the current one keep the scheduler's invariant: the
  list is null-terminated and without repetition, its structures are allocated memory, the
  current process is in it and is the only one marked as running. In every state so reached
  the scheduler and the timer tick return: their loops end and no dead pointer is followed.
\<close>

theorem process_reachable_inv:
  assumes "length (p_name junk) = 32" "kernel_heap s \<noteq> 0" "room 4200 s"
    and "process_init junk s = Some t" "proc_reach t u"
  shows "\<exists>xs. sched_inv u xs \<and> distinct xs \<and>
    (\<exists>v. process_schedule u = Some v) \<and> (\<exists>w. scheduler_tick u = Some w)"
proof -
  have "sched_inv t [heap_end s]" using process_init_eq [OF assms(1-3)] assms(4) by auto
  from proc_reach_inv [OF assms(5) this] obtain xs where xs: "sched_inv u xs" by blast
  moreover from xs have "distinct xs" by (auto simp: sched_inv_def intro: chain_distinct)
  ultimately show ?thesis using process_schedule_inv [OF xs] scheduler_tick_inv [OF xs] by blast
qed

theorem process_reachable_inv_witness:
  "\<exists>t u xs. process_init junk_proc kproc0 = Some t \<and> scheduler_tick t = Some u \<and> sched_inv u xs"
proof -
  obtain t where t: "process_init junk_proc kproc0 = Some t" "sched_inv t [heap_end kproc0]"
    using process_init_eq [OF junk_name _ room_kproc0] by auto
  obtain u where u: "scheduler_tick t = Some u" using scheduler_tick_inv [OF t(2)] by blast
  have "proc_reach t u" by (rule proc_reach.step [OF proc_reach.start proc_step.tick [OF u]])
  from process_reachable_inv [OF junk_name _ room_kproc0 t(1) this] t u show ?thesis
    by auto
qed

text \<open>
  C14: \<^verbatim>\<open>process_schedule\<close> is round robin. It switches to the first ready process after the
  current one in list order, going round past the end of the list; the old process becomes
  ready, the new one running, and no other process or link changes. Without a ready process
  nothing changes.
\<close>

theorem process_schedule_round_robin:
  assumes "sched_inv s xs" "i < length xs" "current_process s = xs ! i"
  shows "\<exists>t. process_schedule s = Some t \<and> sched_inv t xs \<and>
    (case find (\<lambda>x. state_of s x = Some PROCESS_READY) (tl (rotate i xs)) of
      None \<Rightarrow> t = s
    | Some x \<Rightarrow> current_process t = x \<and> state_of t x = Some PROCESS_RUNNING \<and>
        state_of t (xs ! i) = Some PROCESS_READY \<and>
        (\<forall>y \<in> set xs. y \<noteq> x \<and> y \<noteq> xs ! i \<longrightarrow> procs t y = procs s y))"
proof -
  have ch: "chain p_next (procs s) (process_list s) xs" using assms(1) by (simp add: sched_inv_def)
  show ?thesis
  proof (cases "find (\<lambda>x. state_of s x = Some PROCESS_READY) (tl (rotate i xs))")
    case None
    then show ?thesis using assms(1) schedule_eq [OF ch assms(2,3)] by simp
  next
    case (Some x)
    from find_SomeD [OF Some] have r: "state_of s x = Some PROCESS_READY" "x \<in> set xs"
      using tl_rotate_subset by fast+
    with assms(1) have "x \<noteq> current_process s" by (auto simp: sched_inv_def)
    with process_switch_inv [OF assms(1) r(2)] obtain t where t: "process_switch x s = Some t"
      "sched_inv t xs" "current_process t = x" "state_of t (xs ! i) = Some PROCESS_READY"
      "\<forall>y \<in> set xs. y \<noteq> x \<and> y \<noteq> xs ! i \<longrightarrow> procs t y = procs s y"
      using assms(3) by auto
    moreover have "state_of t x = Some PROCESS_RUNNING"
      using t(2,3) r(2) by (auto simp: sched_inv_def)
    ultimately show ?thesis using Some schedule_eq [OF ch assms(2,3)] by simp
  qed
qed

text \<open>Three processes, the second one running.\<close>

definition kproc3 :: kproc where
  "kproc3 = kproc0\<lparr>heap_end := 0x110000, process_list := 0x101000, current_process := 0x102000,
     procs := [0x101000 \<mapsto> junk_proc\<lparr>p_state := PROCESS_READY, p_next := 0x102000\<rparr>,
       0x102000 \<mapsto> junk_proc\<lparr>p_state := PROCESS_RUNNING, p_next := 0x103000\<rparr>,
       0x103000 \<mapsto> junk_proc\<lparr>p_state := PROCESS_READY\<rparr>]\<rparr>"

lemma kproc3_inv: "sched_inv kproc3 [0x101000, 0x102000, 0x103000]"
proof -
  have "block x 104 \<subseteq> live kproc3" if "x \<in> {0x101000, 0x102000, 0x103000}" for x :: u32
    using that by (auto simp: live_interval in_block_interval kproc3_def)
  then show ?thesis
    by (simp add: sched_inv_def kproc3_def state_of_def junk_proc_def)
qed

lemma kproc3_ready: "others_ready kproc3 [0x101000, 0x102000, 0x103000]"
  by (simp add: others_ready_def kproc3_def state_of_def)

lemma kproc3_current: "current_process kproc3 = [0x101000, 0x102000, 0x103000] ! 1"
  by (simp add: kproc3_def)

theorem process_schedule_round_robin_witness:
  "\<exists>t. process_schedule kproc3 = Some t \<and> current_process t = 0x103000"
  using process_schedule_round_robin [OF kproc3_inv _ kproc3_current]
  by (auto simp: state_of_def kproc3_def)

text \<open>
  C15: time slices. From a tick count that is a multiple of ten, with every other process
  ready, \<open>10 * k\<close> timer ticks move the processor \<open>k\<close> places on round the list, so each of
  \<open>n\<close> processes has the processor for ten ticks in every \<open>10 * n\<close>.
\<close>

theorem scheduler_slices:
  assumes "sched_inv s xs" "others_ready s xs" "i < length xs" "current_process s = xs ! i"
    and "unat (tick_count s) mod 10 = 0" "unat (tick_count s) + 10 * k < 2 ^ 32"
  shows "\<exists>t. iter_opt (10 * k) scheduler_tick s = Some t \<and> sched_inv t xs \<and>
    current_process t = xs ! ((i + k) mod length xs)"
  using slices [OF assms(6,5,1-4)] .

theorem scheduler_slices_witness:
  "\<exists>t. iter_opt 20 scheduler_tick kproc3 = Some t \<and> current_process t = 0x101000"
  using scheduler_slices [OF kproc3_inv kproc3_ready _ kproc3_current, of 2]
  by (auto simp: kproc3_def)

text \<open>
  \<^verbatim>\<open>process_create\<close> puts a new, ready process in front of the list, in memory that no
  process occupies, with the next process number, the first 31 characters of the name, the
  entry point as its instruction pointer and its stack pointer at the end of its own
  stack; every other process stays as it was.
\<close>

theorem process_create_links:
  assumes "sched_inv s xs" "room 4200 s" "length (p_name junk) = 32" "NUL \<notin> set name"
  shows "\<exists>p t pr. process_create junk name entry s = Some (p, t) \<and> sched_inv t (p # xs) \<and>
    block p 104 \<inter> live s = {} \<and> procs t = (procs s)(p \<mapsto> pr) \<and>
    p_pid pr = next_pid s \<and> next_pid t = next_pid s + 1 \<and> p_state pr = PROCESS_READY \<and>
    cstr (p_name pr) = take 31 name \<and> eip (p_context pr) = entry \<and>
    esp (p_context pr) = p_kernel_stack pr + p_kernel_stack_size pr"
proof -
  obtain t pr where t: "process_create junk name entry s = Some (heap_end s, t)"
    "procs t = (procs s)(heap_end s \<mapsto> pr)" "p_pid pr = next_pid s" "next_pid t = next_pid s + 1"
    "p_state pr = PROCESS_READY" "cstr (p_name pr) = take 31 name" "eip (p_context pr) = entry"
    "esp (p_context pr) = p_kernel_stack pr + p_kernel_stack_size pr"
    using process_create_eq [OF assms(3,4), of entry s] by blast
  have "room (unat (104 :: u32)) s" using assms(2) by (simp add: room_def)
  from km.alloc_fresh [OF this] have "block (heap_end s) 104 \<inter> live s = {}"
    by (simp add: kmalloc_eq)
  with t process_create_inv [OF assms(1,2) t(1) assms(3,4)] show ?thesis by blast
qed

theorem process_create_links_witness:
  "\<exists>p t pr. process_create junk_proc ''init'' 0x400000 kproc3 = Some (p, t) \<and>
    procs t p = Some pr \<and> cstr (p_name pr) = ''init'' \<and> eip (p_context pr) = 0x400000"
proof -
  have "room 4200 kproc3" by (simp add: room_def kproc3_def)
  moreover have "NUL \<notin> set ''init''" by simp
  ultimately obtain p t pr where "process_create junk_proc ''init'' 0x400000 kproc3 = Some (p, t)"
    "procs t = (procs kproc3)(p \<mapsto> pr)" "cstr (p_name pr) = take 31 ''init''"
    "eip (p_context pr) = 0x400000"
    using process_create_links [OF kproc3_inv _ junk_name, of "''init''" "0x400000"] by blast
  then show ?thesis by (intro exI [of _ p] exI [of _ t] exI [of _ pr]) simp
qed

text \<open>
  \<^verbatim>\<open>process_terminate\<close> takes exactly that process out of the list and marks it
  terminated. If it was not the current one the invariant holds on; if it was, the head of
  the rest of the list becomes current without being marked as running, so no process is.
\<close>

theorem process_terminate_unlinks:
  assumes "sched_inv s xs" "p \<in> set xs"
  shows "\<exists>t. process_terminate p s = Some t \<and>
    chain p_next (procs t) (process_list t) (remove1 p xs) \<and> state_of t p = Some PROCESS_TERMINATED \<and>
    (\<forall>y. y \<noteq> p \<longrightarrow> state_of t y = state_of s y) \<and>
    (if p = current_process s
     then current_process t = process_list t \<and>
       (\<forall>y \<in> set (remove1 p xs). state_of t y \<noteq> Some PROCESS_RUNNING)
     else sched_inv t (remove1 p xs))"
proof -
  obtain us vs where xs: "xs = us @ p # vs" "p \<notin> set us"
    using split_list_first [OF assms(2)] by blast
  have ch: "chain p_next (procs s) (process_list s) (us @ p # vs)" using assms(1) xs by (simp add: sched_inv_def)
  have dist: "distinct xs" using chain_distinct [OF ch] xs by simp
  have rem: "remove1 p xs = us @ vs" using xs by (simp add: remove1_append)
  from process_terminate_eq [OF ch] obtain t where t: "process_terminate p s = Some t"
    "chain p_next (procs t) (process_list t) (us @ vs)" "state_of t p = Some PROCESS_TERMINATED"
    "\<forall>y. y \<noteq> p \<longrightarrow> state_of t y = state_of s y"
    "current_process t = (if p = current_process s then process_list t else current_process s)"
    by blast
  show ?thesis
  proof (cases "p = current_process s")
    case True
    have "state_of t y \<noteq> Some PROCESS_RUNNING" if "y \<in> set (remove1 p xs)" for y
    proof -
      have "y \<in> set xs" "y \<noteq> p" using that dist by (auto dest: notin_set_remove1)
      with True t(4) assms(1) show ?thesis by (auto simp: sched_inv_def)
    qed
    with t rem True show ?thesis by auto
  next
    case False
    with process_terminate_inv [OF assms] t rem show ?thesis by auto
  qed
qed

theorem process_terminate_unlinks_witness:
  "\<exists>t. process_terminate 0x102000 kproc3 = Some t \<and> current_process t = 0x101000 \<and>
    state_of t 0x101000 = Some PROCESS_READY"
proof -
  have cur: "current_process kproc3 = 0x102000" by (simp add: kproc3_def)
  obtain t where t: "process_terminate 0x102000 kproc3 = Some t"
    "chain p_next (procs t) (process_list t) [0x101000, 0x103000]"
    "\<forall>y. y \<noteq> 0x102000 \<longrightarrow> state_of t y = state_of kproc3 y" "current_process t = process_list t"
    using process_terminate_unlinks [OF kproc3_inv, of "0x102000"] by (auto simp: cur)
  moreover from t(3) have "state_of t 0x101000 = state_of kproc3 0x101000" by simp
  moreover have "state_of kproc3 0x101000 = Some PROCESS_READY"
    by (simp add: kproc3_def state_of_def)
  ultimately show ?thesis by (intro exI [of _ t]) simp
qed

end
