(* ===== verification/Filesystem.thy ===== *)
theory Filesystem
  imports Process
begin

text \<open>
  The virtual file system, \<^verbatim>\<open>src/kernel/fs.c\<close>: nodes linked into a tree through \<open>parent\<close>,
  \<open>children\<close> and \<open>next\<close>, with operation pointers in every node, permissions, symbolic links and
  path resolution. Nodes live in a store from addresses to nodes. The operation pointers that
  a driver installs are a parameter, \<open>drv\<close>; an operation that does not return, or a
  dereference of a pointer to no node, is \<^const>\<open>None\<close>.
\<close>

section \<open>Nodes\<close>

datatype fs_node_type =
  FS_FILE | FS_DIRECTORY | FS_CHARDEVICE | FS_BLOCKDEVICE | FS_PIPE | FS_SYMLINK

text \<open>
  An operation pointer of a node: null, the function of \<^verbatim>\<open>fs.c\<close> of the same name, or a
  function of a driver.
\<close>

datatype fs_op = Op_null | Op_fs | Op_dev nat

record fs_node =
  fn_name :: "char list"
  fn_mask :: u32
  fn_uid :: u32
  fn_gid :: u32
  fn_flags :: u32
  fn_inode :: u32
  fn_length :: u32
  fn_created_time :: u32
  fn_modified_time :: u32
  fn_accessed_time :: u32
  fn_type :: fs_node_type
  fn_contents :: u32
  fn_read :: fs_op
  fn_write :: fs_op
  fn_open :: fs_op
  fn_close :: fs_op
  fn_readdir :: fs_op
  fn_finddir :: fs_op
  fn_readlink :: fs_op
  fn_truncate :: fs_op
  fn_parent :: u32
  fn_next :: u32
  fn_children :: u32
  fn_symlink_target :: u32
  fn_device :: u32

record kfs = kproc +
  nodes :: "u32 \<Rightarrow> fs_node option"
  fs_root :: u32

record 's fs_driver =
  drv_read :: "nat \<Rightarrow> u32 \<Rightarrow> u32 \<Rightarrow> u32 \<Rightarrow> u32 \<Rightarrow> 's \<Rightarrow> (u32 \<times> 's) option"
  drv_write :: "nat \<Rightarrow> u32 \<Rightarrow> u32 \<Rightarrow> u32 \<Rightarrow> u32 \<Rightarrow> 's \<Rightarrow> (u32 \<times> 's) option"
  drv_open :: "nat \<Rightarrow> u32 \<Rightarrow> 's \<Rightarrow> 's option"
  drv_close :: "nat \<Rightarrow> u32 \<Rightarrow> 's \<Rightarrow> 's option"
  drv_readdir :: "nat \<Rightarrow> u32 \<Rightarrow> u32 \<Rightarrow> 's \<Rightarrow> (u32 \<times> 's) option"
  drv_finddir :: "nat \<Rightarrow> u32 \<Rightarrow> string \<Rightarrow> 's \<Rightarrow> (u32 \<times> 's) option"

definition FS_PERM_READ :: u32 where "FS_PERM_READ = 1"
definition FS_PERM_WRITE :: u32 where "FS_PERM_WRITE = 2"
definition FS_PERM_EXEC :: u32 where "FS_PERM_EXEC = 4"

definition upd_node :: "u32 \<Rightarrow> (fs_node \<Rightarrow> fs_node) \<Rightarrow> 'a kfs_scheme \<Rightarrow> 'a kfs_scheme option" where
  "upd_node p f s = nodes s p \<bind> (\<lambda>n. Some (s\<lparr>nodes := (nodes s)(p \<mapsto> f n)\<rparr>))"

text \<open>The node that \<^verbatim>\<open>memset(node, 0, sizeof(fs_node_t))\<close> leaves; the type 0 is \<^verbatim>\<open>FS_FILE\<close>.\<close>

definition zero_node :: fs_node where
  "zero_node = \<lparr>fn_name = replicate 128 NUL, fn_mask = 0, fn_uid = 0, fn_gid = 0, fn_flags = 0,
     fn_inode = 0, fn_length = 0, fn_created_time = 0, fn_modified_time = 0, fn_accessed_time = 0,
     fn_type = FS_FILE, fn_contents = 0, fn_read = Op_null, fn_write = Op_null, fn_open = Op_null,
     fn_close = Op_null, fn_readdir = Op_null, fn_finddir = Op_null, fn_readlink = Op_null,
     fn_truncate = Op_null, fn_parent = 0, fn_next = 0, fn_children = 0, fn_symlink_target = 0,
     fn_device = 0\<rparr>"

definition FS_NODE_SIZE :: u32 where
  "FS_NODE_SIZE = 224"

section \<open>Creating and linking nodes\<close>

definition new_node :: "char list \<Rightarrow> fs_node_type \<Rightarrow> u32 \<Rightarrow> fs_node" where
  "new_node nm ty tick = (
     let n1 = zero_node\<lparr>fn_name := nm, fn_created_time := tick, fn_modified_time := tick,
           fn_type := ty, fn_length := 0, fn_mask := FS_PERM_READ\<rparr>;
         n2 = (if ty = FS_DIRECTORY then n1\<lparr>fn_readdir := Op_fs, fn_finddir := Op_fs\<rparr> else n1);
         n3 = (if ty = FS_FILE then n2\<lparr>fn_read := Op_fs, fn_write := Op_fs\<rparr> else n2)
     in n3\<lparr>fn_open := Op_fs, fn_close := Op_fs\<rparr>)"

definition fs_create_node ::
  "string \<Rightarrow> fs_node_type \<Rightarrow> 'a kfs_scheme \<Rightarrow> (u32 \<times> 'a kfs_scheme) option" where
  "fs_create_node name ty s = (
     let (p, s1) = kmalloc FS_NODE_SIZE s
     in if p = 0 then Some (0, s1)
        else copy_cstr 127 name (fn_name zero_node) \<bind> (\<lambda>nm.
          Some (p, s1\<lparr>nodes := (nodes s1)(p \<mapsto> new_node nm ty (get_tick_count s1))\<rparr>)))"

definition fs_init :: "'a kfs_scheme \<Rightarrow> 'a kfs_scheme option" where
  "fs_init s = do {
     (root, s1) \<leftarrow> fs_create_node ''/'' FS_DIRECTORY
       (puts (''Dosya sistemi baslatiliyor...'' @ newline) s);
     let s2 = s1\<lparr>fs_root := root\<rparr>;
     s3 \<leftarrow> (if root \<noteq> 0
           then upd_node root (\<lambda>n. n\<lparr>fn_mask := FS_PERM_READ OR FS_PERM_WRITE, fn_uid := 0,
                  fn_gid := 0\<rparr>) s2
                \<bind> (\<lambda>t. Some (puts (''Kok dizin olusturuldu.'' @ newline) t))
           else Some (puts (''HATA: Kok dizin olusturulamadi!'' @ newline) s2));
     Some (puts (''Dosya sistemi baslatildi.'' @ newline) s3)
   }"

definition fs_add_node :: "u32 \<Rightarrow> u32 \<Rightarrow> 'a kfs_scheme \<Rightarrow> 'a kfs_scheme option" where
  "fs_add_node parent child s =
     (if parent = 0 \<or> child = 0 then Some s
      else do {
        pn \<leftarrow> nodes s parent;
        if fn_type pn \<noteq> FS_DIRECTORY
        then Some (puts (''HATA: Dizin olmayan bir dugume alt dugum eklenemez!'' @ newline) s)
        else do {
          s1 \<leftarrow> upd_node child (\<lambda>n. n\<lparr>fn_parent := parent\<rparr>) s;
          pn1 \<leftarrow> nodes s1 parent;
          if fn_children pn1 = 0
          then upd_node parent (\<lambda>n. n\<lparr>fn_children := child\<rparr>) s1
          else do {
            current \<leftarrow> find_last fn_next (nodes s1) (fn_children pn1);
            upd_node current (\<lambda>n. n\<lparr>fn_next := child\<rparr>) s1
          }
        }
      })"

definition fs_remove_node :: "u32 \<Rightarrow> u32 \<Rightarrow> 'a kfs_scheme \<Rightarrow> (int \<times> 'a kfs_scheme) option" where
  "fs_remove_node parent node s =
     (if parent = 0 \<or> node = 0 then Some (- 1, s)
      else do {
        pn \<leftarrow> nodes s parent;
        if fn_type pn \<noteq> FS_DIRECTORY
        then Some (- 1,
          puts (''HATA: Dizin olmayan bir dugumden alt dugum kaldirilamaz!'' @ newline) s)
        else do {
          nn \<leftarrow> nodes s node;
          r \<leftarrow> (if fn_children pn = node
               then upd_node parent (\<lambda>n. n\<lparr>fn_children := fn_next nn\<rparr>) s \<bind> (\<lambda>t. Some (Some t))
               else do {
                 current \<leftarrow> find_prev fn_next (nodes s) node (fn_children pn);
                 if current \<noteq> 0
                 then upd_node current (\<lambda>n. n\<lparr>fn_next := fn_next nn\<rparr>) s \<bind> (\<lambda>t. Some (Some t))
                 else Some None
               });
          case r of
            None \<Rightarrow> Some (- 1, s)
          | Some t \<Rightarrow> do {
              u \<leftarrow> upd_node node (\<lambda>n. n\<lparr>fn_parent := 0, fn_next := 0\<rparr>) t;
              Some (0, u)
            }
        }
      })"

section \<open>Dispatch\<close>

text \<open>
  Each dispatcher calls the operation pointer of the node; \<^const>\<open>Op_fs\<close> points back at the
  dispatcher itself.
\<close>

partial_function (option) fs_read :: "'a kfs_scheme fs_driver \<Rightarrow> u32 \<Rightarrow> u32 \<Rightarrow> u32 \<Rightarrow> u32 \<Rightarrow>
    'a kfs_scheme \<Rightarrow> (u32 \<times> 'a kfs_scheme) option" where
  "fs_read drv node offset sz buffer s =
     (if node = 0 then Some (0, s)
      else nodes s node \<bind> (\<lambda>n. case fn_read n of
        Op_null \<Rightarrow> Some (0, s)
      | Op_fs \<Rightarrow> fs_read drv node offset sz buffer s
      | Op_dev d \<Rightarrow> drv_read drv d node offset sz buffer s))"

partial_function (option) fs_write :: "'a kfs_scheme fs_driver \<Rightarrow> u32 \<Rightarrow> u32 \<Rightarrow> u32 \<Rightarrow> u32 \<Rightarrow>
    'a kfs_scheme \<Rightarrow> (u32 \<times> 'a kfs_scheme) option" where
  "fs_write drv node offset sz buffer s =
     (if node = 0 then Some (0, s)
      else nodes s node \<bind> (\<lambda>n. case fn_write n of
        Op_null \<Rightarrow> Some (0, s)
      | Op_fs \<Rightarrow> fs_write drv node offset sz buffer s
      | Op_dev d \<Rightarrow> drv_write drv d node offset sz buffer s))"

partial_function (option) fs_open :: "'a kfs_scheme fs_driver \<Rightarrow> u32 \<Rightarrow>
    'a kfs_scheme \<Rightarrow> 'a kfs_scheme option" where
  "fs_open drv node s =
     (if node = 0 then Some s
      else nodes s node \<bind> (\<lambda>n. case fn_open n of
        Op_null \<Rightarrow> Some s
      | Op_fs \<Rightarrow> fs_open drv node s
      | Op_dev d \<Rightarrow> drv_open drv d node s))"

partial_function (option) fs_close :: "'a kfs_scheme fs_driver \<Rightarrow> u32 \<Rightarrow>
    'a kfs_scheme \<Rightarrow> 'a kfs_scheme option" where
  "fs_close drv node s =
     (if node = 0 then Some s
      else nodes s node \<bind> (\<lambda>n. case fn_close n of
        Op_null \<Rightarrow> Some s
      | Op_fs \<Rightarrow> fs_close drv node s
      | Op_dev d \<Rightarrow> drv_close drv d node s))"

partial_function (option) fs_readdir :: "'a kfs_scheme fs_driver \<Rightarrow> u32 \<Rightarrow> u32 \<Rightarrow>
    'a kfs_scheme \<Rightarrow> (u32 \<times> 'a kfs_scheme) option" where
  "fs_readdir drv node index s =
     (if node = 0 then Some (0, s)
      else nodes s node \<bind> (\<lambda>n. if fn_type n \<noteq> FS_DIRECTORY then Some (0, s)
        else case fn_readdir n of
          Op_null \<Rightarrow> Some (0, s)
        | Op_fs \<Rightarrow> fs_readdir drv node index s
        | Op_dev d \<Rightarrow> drv_readdir drv d node index s))"

partial_function (option) fs_finddir :: "'a kfs_scheme fs_driver \<Rightarrow> u32 \<Rightarrow> string \<Rightarrow>
    'a kfs_scheme \<Rightarrow> (u32 \<times> 'a kfs_scheme) option" where
  "fs_finddir drv node name s =
     (if node = 0 then Some (0, s)
      else nodes s node \<bind> (\<lambda>n. if fn_type n \<noteq> FS_DIRECTORY then Some (0, s)
        else case fn_finddir n of
          Op_null \<Rightarrow> Some (0, s)
        | Op_fs \<Rightarrow> fs_finddir drv node name s
        | Op_dev d \<Rightarrow> drv_finddir drv d node name s))"

section \<open>Permissions and links\<close>

definition fs_check_permission ::
  "u32 \<Rightarrow> u32 \<Rightarrow> u32 \<Rightarrow> u32 \<Rightarrow> 'a kfs_scheme \<Rightarrow> bool option" where
  "fs_check_permission node access_mask uid gid s =
     (if node = 0 then Some False
      else if uid = 0 then Some True
      else nodes s node \<bind> (\<lambda>n.
        let need = (if fn_uid n = uid then push_bit 6 access_mask
                    else if fn_gid n = gid then push_bit 3 access_mask
                    else access_mask)
        in Some (fn_mask n AND need = need)))"

definition fs_create_symlink ::
  "string \<Rightarrow> u32 \<Rightarrow> 'a kfs_scheme \<Rightarrow> (u32 \<times> 'a kfs_scheme) option" where
  "fs_create_symlink name target s =
     (if target = 0 then Some (0, s)
      else do {
        (link, s1) \<leftarrow> fs_create_node name FS_SYMLINK s;
        if link = 0 then Some (0, s1)
        else do {
          s2 \<leftarrow> upd_node link (\<lambda>n. n\<lparr>fn_symlink_target := target, fn_readlink := Op_fs\<rparr>) s1;
          Some (link, s2)
        }
      })"

definition fs_readlink :: "u32 \<Rightarrow> 'a kfs_scheme \<Rightarrow> u32 option" where
  "fs_readlink link s =
     (if link = 0 then Some 0
      else nodes s link \<bind> (\<lambda>n.
        if fn_type n \<noteq> FS_SYMLINK then Some 0 else Some (fn_symlink_target n)))"

section \<open>Path resolution\<close>

text \<open>
  The inner loop of \<^verbatim>\<open>fs_resolve_path\<close>: the characters up to the next slash, at most \<open>n\<close> of
  them, and the rest of the path.
\<close>

fun take_component :: "nat \<Rightarrow> string \<Rightarrow> string \<times> string" where
  "take_component n [] = ([], [])"
| "take_component n (c # cs) =
     (if c = CHR ''/'' \<or> n = 0 then ([], c # cs)
      else (c # fst (take_component (n - 1) cs), snd (take_component (n - 1) cs)))"

definition skip_slash :: "string \<Rightarrow> string" where
  "skip_slash path = (case path of [] \<Rightarrow> [] | c # cs \<Rightarrow> if c = CHR ''/'' then cs else path)"

lemma take_component_append: "fst (take_component n p) @ snd (take_component n p) = p"
  by (induction n p rule: take_component.induct) auto

lemma take_component_length:
  "length (snd (take_component n p)) + length (fst (take_component n p)) = length p"
  using arg_cong [OF take_component_append, of length n p] by simp

lemma skip_slash_length: "length (skip_slash p) \<le> length p"
  by (simp add: skip_slash_def split: list.split)

lemma component_progress:
  "path \<noteq> [] \<Longrightarrow> length (skip_slash (snd (take_component 127 path))) < length path"
proof (cases path)
  case (Cons c cs)
  then show ?thesis
    using skip_slash_length [of "snd (take_component 126 cs)"] take_component_length [of 126 cs]
    by (cases "c = CHR ''/''") (simp_all add: skip_slash_def)
qed simp

function resolve_loop :: "'a kfs_scheme fs_driver \<Rightarrow> u32 \<Rightarrow> string \<Rightarrow> 'a kfs_scheme \<Rightarrow>
    (u32 \<times> 'a kfs_scheme) option" where
  "resolve_loop drv current path s =
     (if path = [] then Some (current, s)
      else let component = fst (take_component 127 path);
               rest = skip_slash (snd (take_component 127 path))
        in if component = [] then resolve_loop drv current rest s
           else if component = ''.'' then resolve_loop drv current rest s
           else if component = ''..'' then nodes s current \<bind> (\<lambda>n.
             resolve_loop drv (if fn_parent n \<noteq> 0 then fn_parent n else current) rest s)
           else do {
             (next, s1) \<leftarrow> fs_finddir drv current component s;
             if next = 0 then Some (0, s1)
             else do {
               n \<leftarrow> nodes s1 next;
               if fn_type n = FS_SYMLINK
               then do {
                 target \<leftarrow> fs_readlink next s1;
                 if target = 0 then Some (0, s1) else resolve_loop drv target rest s1
               }
               else resolve_loop drv next rest s1
             }
           })"
  by pat_completeness auto
termination
  by (relation "measure (\<lambda>(drv, current, path, s). length path)")
    (simp_all add: component_progress del: take_component.simps)

declare resolve_loop.simps [simp del]

text \<open>A path is a string, so the test for the null pointer has no counterpart.\<close>

definition fs_resolve_path ::
  "'a kfs_scheme fs_driver \<Rightarrow> string \<Rightarrow> 'a kfs_scheme \<Rightarrow> (u32 \<times> 'a kfs_scheme) option" where
  "fs_resolve_path drv path s =
     (if fs_root s = 0 then Some (0, s)
      else resolve_loop drv (fs_root s) (skip_slash path) s)"

text \<open>\<^verbatim>\<open>strrchr\<close>: the last position of a character, if it occurs.\<close>

fun strrchr :: "string \<Rightarrow> char \<Rightarrow> nat option" where
  "strrchr [] c = None"
| "strrchr (x # xs) c =
     (case strrchr xs c of Some i \<Rightarrow> Some (Suc i) | None \<Rightarrow> if x = c then Some 0 else None)"

definition fs_get_parent_dir ::
  "'a kfs_scheme fs_driver \<Rightarrow> string \<Rightarrow> 'a kfs_scheme \<Rightarrow> (u32 \<times> 'a kfs_scheme) option" where
  "fs_get_parent_dir drv path s =
     (if fs_root s = 0 then Some (0, s)
      else case strrchr path (CHR ''/'') of
        None \<Rightarrow> Some (fs_root s, s)
      | Some len \<Rightarrow> if len = 0 then Some (fs_root s, s)
          else fs_resolve_path drv (take (min len 255) path) s)"

section \<open>The self test\<close>

definition TEST_FILE_MASK :: u32 where
  "TEST_FILE_MASK =
     FS_PERM_READ OR push_bit 3 FS_PERM_READ OR (FS_PERM_READ OR push_bit 6 FS_PERM_WRITE)"

definition TEST_USER_MASK :: u32 where
  "TEST_USER_MASK = FS_PERM_READ OR FS_PERM_WRITE OR FS_PERM_EXEC OR push_bit 3 FS_PERM_READ
     OR (FS_PERM_READ OR FS_PERM_WRITE OR push_bit 6 FS_PERM_EXEC)"

definition fs_test :: "'a kfs_scheme fs_driver \<Rightarrow> 'a kfs_scheme \<Rightarrow> 'a kfs_scheme option" where
  "fs_test drv s = do {
     (etc, s) \<leftarrow> fs_create_node ''etc'' FS_DIRECTORY
       (puts (''Dosya sistemi testi yapiliyor...'' @ newline) s);
     (home, s) \<leftarrow> fs_create_node ''home'' FS_DIRECTORY s;
     (bin, s) \<leftarrow> fs_create_node ''bin'' FS_DIRECTORY s;
     (usr, s) \<leftarrow> fs_create_node ''usr'' FS_DIRECTORY s;
     s \<leftarrow> fs_add_node (fs_root s) etc s;
     s \<leftarrow> fs_add_node (fs_root s) home s;
     s \<leftarrow> fs_add_node (fs_root s) bin s;
     s \<leftarrow> fs_add_node (fs_root s) usr s;
     (passwd, s) \<leftarrow> fs_create_node ''passwd'' FS_FILE s;
     (hosts, s) \<leftarrow> fs_create_node ''hosts'' FS_FILE s;
     s \<leftarrow> upd_node passwd (\<lambda>n. n\<lparr>fn_mask := TEST_FILE_MASK, fn_uid := 0, fn_gid := 0\<rparr>) s;
     s \<leftarrow> upd_node hosts (\<lambda>n. n\<lparr>fn_mask := TEST_FILE_MASK, fn_uid := 0, fn_gid := 0\<rparr>) s;
     s \<leftarrow> fs_add_node etc passwd s;
     s \<leftarrow> fs_add_node etc hosts s;
     (user1, s) \<leftarrow> fs_create_node ''user1'' FS_DIRECTORY s;
     s \<leftarrow> fs_add_node home user1 s;
     s \<leftarrow> upd_node user1 (\<lambda>n. n\<lparr>fn_uid := 1000, fn_gid := 1000, fn_mask := TEST_USER_MASK\<rparr>) s;
     (etc_link, s) \<leftarrow> fs_create_symlink ''etc_link'' etc s;
     s \<leftarrow> fs_add_node user1 etc_link s;
     let s = puts (''Geli'' @ tr_s @ ''mi'' @ tr_s @ '' dosya sistemi yap'' @ tr_i @ ''s'' @ tr_i
       @ '' olu'' @ tr_s @ ''turuldu.'' @ newline) s;
     let s = puts (''Dizinler: /, /etc, /home, /bin, /usr'' @ newline) s;
     let s = puts (''Dosyalar: /etc/passwd, /etc/hosts'' @ newline) s;
     let s = puts (''Sembolik ba'' @ tr_g @ ''lant'' @ tr_i @ ''lar: /home/user1/etc_link -> /etc''
       @ newline) s;
     (test_node, s) \<leftarrow> fs_resolve_path drv ''/home/user1/etc_link/passwd'' s;
     s \<leftarrow> (if test_node \<noteq> 0
          then nodes s test_node \<bind> (\<lambda>n. Some (
            puts ('' dosyas'' @ tr_i @ ''na ba'' @ tr_s @ ''ar'' @ tr_i @ ''yla eri'' @ tr_s @ ''ildi.''
              @ newline)
            (puts (cstr (fn_name n))
            (puts (''Sembolik ba'' @ tr_g @ ''lant'' @ tr_i @ '' '' @ tr_c @ tr_o @ ''z'' @ tr_u
              @ ''mlemesi ba'' @ tr_s @ ''ar'' @ tr_i @ ''l'' @ tr_i @ '': '') s))))
          else Some s);
     ok \<leftarrow> fs_check_permission user1 FS_PERM_READ 1000 1000 s;
     let s = (if ok
       then puts (''user1 dizini okuma izni testi ba'' @ tr_s @ ''ar'' @ tr_i @ ''l'' @ tr_i @ ''.''
         @ newline) s
       else s);
     Some (puts (''Dosya sistemi testi tamamlandi.'' @ newline) s)
   }"

section \<open>Operations that dispatch to themselves do not return\<close>

lemma fs_read_self:
  assumes "fs_read drv node off sz buf s = Some r" "nodes s node = Some n" "node \<noteq> 0" "fn_read n = Op_fs"
  shows False
  using assms(2-)
proof (induct drv node off sz buf s r rule: fs_read.raw_induct)
  case (1 f drv node off sz buf s r)
  from 1(2-) have "f drv node off sz buf s = Some r" by simp
  then show ?case by (rule 1(1)) (fact 1)+
qed (rule assms(1))

lemma fs_write_self:
  assumes "fs_write drv node off sz buf s = Some r" "nodes s node = Some n" "node \<noteq> 0" "fn_write n = Op_fs"
  shows False
  using assms(2-)
proof (induct drv node off sz buf s r rule: fs_write.raw_induct)
  case (1 f drv node off sz buf s r)
  from 1(2-) have "f drv node off sz buf s = Some r" by simp
  then show ?case by (rule 1(1)) (fact 1)+
qed (rule assms(1))

lemma fs_open_self:
  assumes "fs_open drv node s = Some r" "nodes s node = Some n" "node \<noteq> 0" "fn_open n = Op_fs"
  shows False
  using assms(2-)
proof (induct drv node s r rule: fs_open.raw_induct)
  case (1 f drv node s r)
  from 1(2-) have "f drv node s = Some r" by simp
  then show ?case by (rule 1(1)) (fact 1)+
qed (rule assms(1))

lemma fs_close_self:
  assumes "fs_close drv node s = Some r" "nodes s node = Some n" "node \<noteq> 0" "fn_close n = Op_fs"
  shows False
  using assms(2-)
proof (induct drv node s r rule: fs_close.raw_induct)
  case (1 f drv node s r)
  from 1(2-) have "f drv node s = Some r" by simp
  then show ?case by (rule 1(1)) (fact 1)+
qed (rule assms(1))

lemma fs_readdir_self:
  assumes "fs_readdir drv node i s = Some r" "nodes s node = Some n" "node \<noteq> 0" "fn_type n = FS_DIRECTORY" "fn_readdir n = Op_fs"
  shows False
  using assms(2-)
proof (induct drv node i s r rule: fs_readdir.raw_induct)
  case (1 f drv node i s r)
  from 1(2-) have "f drv node i s = Some r" by simp
  then show ?case by (rule 1(1)) (fact 1)+
qed (rule assms(1))

lemma fs_finddir_self:
  assumes "fs_finddir drv node nm s = Some r" "nodes s node = Some n" "node \<noteq> 0" "fn_type n = FS_DIRECTORY" "fn_finddir n = Op_fs"
  shows False
  using assms(2-)
proof (induct drv node nm s r rule: fs_finddir.raw_induct)
  case (1 f drv node nm s r)
  from 1(2-) have "f drv node nm s = Some r" by simp
  then show ?case by (rule 1(1)) (fact 1)+
qed (rule assms(1))

section \<open>The children of a directory\<close>

definition children_of :: "'a kfs_scheme \<Rightarrow> u32 \<Rightarrow> u32 list \<Rightarrow> bool" where
  "children_of s d xs \<longleftrightarrow> d \<noteq> 0 \<and> d \<notin> set xs \<and>
     (\<exists>dn. nodes s d = Some dn \<and> fn_type dn = FS_DIRECTORY \<and>
        chain fn_next (nodes s) (fn_children dn) xs)"

text \<open>The store after a child is appended to the list \<open>xs\<close> of directory \<open>d\<close>.\<close>

definition linked :: "u32 \<Rightarrow> u32 list \<Rightarrow> u32 \<Rightarrow> (u32 \<Rightarrow> fs_node option) \<Rightarrow> (u32 \<Rightarrow> fs_node option)" where
  "linked d xs c ns =
     (let ns1 = ns(c \<mapsto> (the (ns c))\<lparr>fn_parent := d\<rparr>)
      in if xs = [] then ns1(d \<mapsto> (the (ns d))\<lparr>fn_children := c\<rparr>)
         else ns1(last xs \<mapsto> (the (ns (last xs)))\<lparr>fn_next := c\<rparr>))"

lemma fs_add_node_eq:
  assumes "children_of s d xs" "nodes s c = Some cn" "c \<noteq> 0" "c \<noteq> d" "c \<notin> set xs"
  shows "fs_add_node d c s = Some (s\<lparr>nodes := linked d xs c (nodes s)\<rparr>)"
proof -
  obtain dn where d: "d \<noteq> 0" "d \<notin> set xs" "nodes s d = Some dn" "fn_type dn = FS_DIRECTORY"
    and ch: "chain fn_next (nodes s) (fn_children dn) xs"
    using assms(1) by (auto simp: children_of_def)
  have empty: "fn_children dn = 0 \<longleftrightarrow> xs = []" using ch by (cases xs) auto
  show ?thesis
  proof (cases "xs = []")
    case True
    then show ?thesis
      using d assms empty by (simp add: fs_add_node_def upd_node_def linked_def)
  next
    case False
    have ch': "chain fn_next ((nodes s)(c \<mapsto> cn\<lparr>fn_parent := d\<rparr>)) (fn_children dn) xs"
      using assms(5) by (auto intro: chain_cong [OF ch])
    from False have last: "last xs \<in> set xs" by simp
    with assms(5) have ne: "last xs \<noteq> c" by blast
    obtain ln where "nodes s (last xs) = Some ln" using chain_in_store [OF ch last] by blast
    then show ?thesis
      using d assms empty False ne find_last_eq [OF ch' False]
      by (simp add: fs_add_node_def upd_node_def linked_def fun_upd_def)
  qed
qed

lemma children_of_linked:
  assumes "children_of s d xs" "nodes s c = Some cn" "c \<noteq> 0" "c \<noteq> d" "c \<notin> set xs" "fn_next cn = 0"
  shows "children_of (s\<lparr>nodes := linked d xs c (nodes s)\<rparr>) d (xs @ [c])"
proof -
  obtain dn where d: "d \<noteq> 0" "d \<notin> set xs" "nodes s d = Some dn" "fn_type dn = FS_DIRECTORY"
    and ch: "chain fn_next (nodes s) (fn_children dn) xs"
    using assms(1) by (auto simp: children_of_def)
  show ?thesis
  proof (cases "xs = []")
    case True
    then show ?thesis using d assms by (auto simp: children_of_def linked_def Let_def)
  next
    case False
    let ?ns = "(nodes s)(c \<mapsto> cn\<lparr>fn_parent := d\<rparr>)"
    have ch': "chain fn_next ?ns (fn_children dn) xs"
      using assms(5) by (auto intro: chain_cong [OF ch])
    from False have last: "last xs \<in> set xs" by simp
    with assms(5) d(2) have ne: "last xs \<noteq> c" "last xs \<noteq> d" by blast+
    obtain ln where ln: "nodes s (last xs) = Some ln" using chain_in_store [OF ch last] by blast
    have "chain fn_next (?ns(last xs \<mapsto> ln\<lparr>fn_next := c\<rparr>)) (fn_children dn) (xs @ [c])"
      using ln ne assms by (intro chain_append [OF ch' False, of ln c "cn\<lparr>fn_parent := d\<rparr>"]) auto
    then show ?thesis
      using d assms False ne ln by (auto simp: children_of_def linked_def Let_def)
  qed
qed

lemma fs_remove_node_eq:
  assumes "children_of s d (us @ c # vs)" "nodes s c = Some cn"
  shows "fs_remove_node d c s = Some (0, s\<lparr>nodes := (if us = []
      then (nodes s)(d \<mapsto> (the (nodes s d))\<lparr>fn_children := fn_next cn\<rparr>)
      else (nodes s)(last us \<mapsto> (the (nodes s (last us)))\<lparr>fn_next := fn_next cn\<rparr>))
      (c \<mapsto> cn\<lparr>fn_parent := 0, fn_next := 0\<rparr>)\<rparr>)"
proof -
  obtain dn where d: "d \<noteq> 0" "d \<notin> set (us @ c # vs)" "nodes s d = Some dn" "fn_type dn = FS_DIRECTORY"
    and ch: "chain fn_next (nodes s) (fn_children dn) (us @ c # vs)"
    using assms(1) by (auto simp: children_of_def)
  have c: "c \<noteq> 0" using chain_in_store [OF ch, of c] by auto
  have dist: "distinct (us @ c # vs)" by (rule chain_distinct [OF ch])
  show ?thesis
  proof (cases us rule: rev_cases)
    case Nil
    with ch have "fn_children dn = c" by simp
    then show ?thesis using Nil d c assms(2) by (auto simp: fs_remove_node_def upd_node_def)
  next
    case (snoc us' a)
    then have ch': "chain fn_next (nodes s) (fn_children dn) (us' @ a # c # vs)" using ch by simp
    obtain an where a: "nodes s a = Some an" "a \<noteq> 0" using chain_in_store [OF ch', of a] by auto
    have ne: "fn_children dn \<noteq> c" "a \<noteq> c" using dist ch' snoc by (cases us'; auto)+
    then show ?thesis
      using snoc d c a assms(2) find_prev_eq [OF ch']
      by (auto simp: fs_remove_node_def upd_node_def)
  qed
qed

lemma fs_remove_node_absent:
  assumes "children_of s d xs" "c \<notin> set xs" "nodes s c = Some cn"
  shows "fs_remove_node d c s = Some (- 1, s)"
proof (cases "c = 0")
  case False
  obtain dn where d: "d \<noteq> 0" "nodes s d = Some dn" "fn_type dn = FS_DIRECTORY"
    and ch: "chain fn_next (nodes s) (fn_children dn) xs"
    using assms(1) by (auto simp: children_of_def)
  have "c \<notin> set (tl xs)" using assms(2) by (cases xs) auto
  then have "find_prev fn_next (nodes s) c (fn_children dn) = Some 0"
    by (rule find_prev_absent [OF ch False])
  moreover have "fn_children dn \<noteq> c" using ch assms(2) False by (cases xs) auto
  ultimately show ?thesis using d False assms(3) by (simp add: fs_remove_node_def)
qed (simp add: fs_remove_node_def)

lemma store_undo: "l \<noteq> c \<Longrightarrow> ns l = Some x \<Longrightarrow> ns(c \<mapsto> a, l \<mapsto> b, l \<mapsto> x, c \<mapsto> e) = ns(c \<mapsto> e)"
  by (auto simp: fun_eq_iff)

lemma remove_after_link:
  assumes "children_of s d xs" "nodes s c = Some cn" "c \<noteq> 0" "c \<noteq> d" "c \<notin> set xs" "fn_next cn = 0"
  shows "fs_remove_node d c (s\<lparr>nodes := linked d xs c (nodes s)\<rparr>) =
    Some (0, s\<lparr>nodes := (nodes s)(c \<mapsto> cn\<lparr>fn_parent := 0\<rparr>)\<rparr>)"
proof -
  let ?t = "s\<lparr>nodes := linked d xs c (nodes s)\<rparr>"
  obtain dn where d: "nodes s d = Some dn" "d \<notin> set xs"
    and ch: "chain fn_next (nodes s) (fn_children dn) xs"
    using assms(1) by (auto simp: children_of_def)
  have cn: "nodes ?t c = Some (cn\<lparr>fn_parent := d\<rparr>)"
    using assms(2,4,5) by (auto simp: linked_def Let_def)
  have "children_of ?t d (xs @ c # [])" using children_of_linked [OF assms] by simp
  note rem = fs_remove_node_eq [OF this cn]
  have fin: "cn\<lparr>fn_parent := d, fn_parent := 0, fn_next := 0\<rparr> = cn\<lparr>fn_parent := 0\<rparr>"
    using assms(6) by (cases cn) simp
  show ?thesis
  proof (cases "xs = []")
    case True
    with ch have zero: "dn\<lparr>fn_children := 0\<rparr> = dn" by (cases dn) simp
    have lk: "linked d xs c (nodes s) =
        (nodes s)(c \<mapsto> cn\<lparr>fn_parent := d\<rparr>, d \<mapsto> dn\<lparr>fn_children := c\<rparr>)"
      using True assms(2) d by (simp add: linked_def Let_def)
    then have nt: "nodes ?t = (nodes s)(c \<mapsto> cn\<lparr>fn_parent := d\<rparr>, d \<mapsto> dn\<lparr>fn_children := c\<rparr>)"
      by simp
    have td: "(the (nodes ?t d))\<lparr>fn_children := fn_next (cn\<lparr>fn_parent := d\<rparr>)\<rparr> = dn"
      unfolding nt using zero assms(6) by simp
    show ?thesis
      unfolding rem if_P [OF True] td fin
      unfolding nt store_undo [where ns = "nodes s", OF assms(4) [symmetric] d(1)]
      by simp
  next
    case False
    then have last: "last xs \<in> set xs" by simp
    with assms(5) have ne: "last xs \<noteq> c" by blast
    from last ch obtain ln where ln: "nodes s (last xs) = Some ln" using chain_in_store by blast
    have split: "xs = butlast xs @ last xs # []" using False by simp
    have "chain fn_next (nodes s) (last xs) (last xs # [])"
      using ch split chain_split by metis
    then have zero: "ln\<lparr>fn_next := 0\<rparr> = ln" using ln by (cases ln) simp
    have lk: "linked d xs c (nodes s) =
        (nodes s)(c \<mapsto> cn\<lparr>fn_parent := d\<rparr>, last xs \<mapsto> ln\<lparr>fn_next := c\<rparr>)"
      using False assms(2) ln by (simp add: linked_def Let_def)
    then have nt: "nodes ?t = (nodes s)(c \<mapsto> cn\<lparr>fn_parent := d\<rparr>, last xs \<mapsto> ln\<lparr>fn_next := c\<rparr>)"
      by simp
    have td: "(the (nodes ?t (last xs)))\<lparr>fn_next := fn_next (cn\<lparr>fn_parent := d\<rparr>)\<rparr> = ln"
      unfolding nt using zero assms(6) by simp
    show ?thesis
      unfolding rem if_not_P [OF False] td fin
      unfolding nt store_undo [where ns = "nodes s", OF ne ln]
      by simp
  qed
qed

section \<open>Path resolution as a walk over names\<close>

fun split_slash :: "string \<Rightarrow> string list" where
  "split_slash [] = [[]]"
| "split_slash (c # cs) =
     (if c = CHR ''/'' then [] # split_slash cs
      else (c # hd (split_slash cs)) # tl (split_slash cs))"

text \<open>One name: stay, go up, or go down and through a symbolic link; 0 when there is no such node.\<close>

definition enter :: "'a kfs_scheme fs_driver \<Rightarrow> u32 \<Rightarrow> string \<Rightarrow> 'a kfs_scheme \<Rightarrow>
    (u32 \<times> 'a kfs_scheme) option" where
  "enter drv current name s =
     (if name = [] \<or> name = ''.'' then Some (current, s)
      else if name = ''..'' then nodes s current \<bind> (\<lambda>n.
        Some (if fn_parent n \<noteq> 0 then fn_parent n else current, s))
      else do {
        (next, s1) \<leftarrow> fs_finddir drv current name s;
        if next = 0 then Some (0, s1)
        else do {
          n \<leftarrow> nodes s1 next;
          Some (if fn_type n = FS_SYMLINK then fn_symlink_target n else next, s1)
        }
      })"

fun walk :: "'a kfs_scheme fs_driver \<Rightarrow> u32 \<Rightarrow> string list \<Rightarrow> 'a kfs_scheme \<Rightarrow>
    (u32 \<times> 'a kfs_scheme) option" where
  "walk drv current [] s = Some (current, s)"
| "walk drv current (name # names) s = enter drv current name s \<bind> (\<lambda>(next, s1).
     if next = 0 then Some (0, s1) else walk drv next names s1)"

lemma split_slash_nonempty [simp]: "split_slash p \<noteq> []"
  by (cases p) auto

lemma take_component_split:
  "length (hd (split_slash p)) \<le> n \<Longrightarrow>
    fst (take_component n p) = hd (split_slash p) \<and>
    (if tl (split_slash p) = [] then snd (take_component n p) = []
     else \<exists>r. snd (take_component n p) = CHR ''/'' # r \<and> split_slash r = tl (split_slash p))"
proof (induction n p rule: take_component.induct)
  case (1 n)
  then show ?case by simp
next
  case (2 n c cs)
  show ?case
  proof (cases "c = CHR ''/''")
    case True
    then show ?thesis by simp
  next
    case False
    with "2.prems" have "n \<noteq> 0" "length (hd (split_slash cs)) \<le> n - 1" by auto
    with "2.IH" False show ?thesis by auto
  qed
qed

lemma resolve_loop_walk:
  assumes "\<forall>w \<in> set (split_slash path). length w \<le> 127" "current \<noteq> 0"
  shows "resolve_loop drv current path s = walk drv current (split_slash path) s"
  using assms
proof (induction "length path" arbitrary: current path s rule: less_induct)
  case less
  show ?case
  proof (cases "path = []")
    case True
    with less.prems(2) show ?thesis by (subst resolve_loop.simps) (simp add: enter_def)
  next
    case False
    obtain w ws where ws: "split_slash path = w # ws" by (cases "split_slash path") auto
    let ?rest = "skip_slash (snd (take_component 127 path))"
    have "length (hd (split_slash path)) \<le> 127" using less.prems(1) ws by simp
    from take_component_split [OF this] have
      comp: "fst (take_component 127 path) = w" and
      rest: "split_slash ?rest = (if ws = [] then [[]] else ws)"
      using ws by (auto simp: skip_slash_def split: if_splits)
    have "\<forall>v \<in> set (split_slash ?rest). length v \<le> 127"
      using less.prems(1) ws rest by auto
    then have IH: "resolve_loop drv cur ?rest t = walk drv cur ws t" if "cur \<noteq> 0" for cur t
      using less.hyps [OF component_progress [OF False], of cur t] that
      by (auto simp: rest enter_def)
    show ?thesis
    proof (cases "w \<in> {[], ''.'', ''..''}")
      case True
      then show ?thesis
        using False comp ws IH less.prems(2)
        by (subst resolve_loop.simps) (auto simp: Let_def enter_def split: bind_split)
    next
      case named: False
      then show ?thesis
        using False comp ws IH
        by (subst resolve_loop.simps)
          (auto simp: Let_def enter_def fs_readlink_def split: bind_split)
    qed
  qed
qed

section \<open>Created nodes\<close>

lemma fs_create_node_fields:
  assumes "fs_create_node name ty s = Some (p, t)" "p \<noteq> 0"
  shows "\<exists>n. nodes t = (nodes s)(p \<mapsto> n) \<and> fn_type n = ty \<and> fn_open n = Op_fs \<and> fn_close n = Op_fs \<and>
    fn_parent n = 0 \<and> fn_next n = 0 \<and> fn_children n = 0 \<and>
    (ty = FS_FILE \<longrightarrow> fn_read n = Op_fs \<and> fn_write n = Op_fs) \<and>
    (ty = FS_DIRECTORY \<longrightarrow> fn_readdir n = Op_fs \<and> fn_finddir n = Op_fs) \<and> fs_root t = fs_root s"
proof -
  have fields: "fn_type (new_node nm ty k) = ty \<and> fn_open (new_node nm ty k) = Op_fs \<and>
    fn_close (new_node nm ty k) = Op_fs \<and> fn_parent (new_node nm ty k) = 0 \<and>
    fn_next (new_node nm ty k) = 0 \<and> fn_children (new_node nm ty k) = 0 \<and>
    (ty = FS_FILE \<longrightarrow> fn_read (new_node nm ty k) = Op_fs \<and> fn_write (new_node nm ty k) = Op_fs) \<and>
    (ty = FS_DIRECTORY \<longrightarrow>
      fn_readdir (new_node nm ty k) = Op_fs \<and> fn_finddir (new_node nm ty k) = Op_fs)" for nm k
    by (cases ty) (simp_all add: new_node_def zero_node_def)
  obtain nm k where "nodes t = (nodes s)(p \<mapsto> new_node nm ty k)" "fs_root t = fs_root s"
    using assms by (auto simp: fs_create_node_def kmalloc_eq split: bind_splits if_splits)
  with fields [of nm k] show ?thesis by blast
qed

lemma fs_create_node_total:
  assumes "NUL \<notin> set name" "heap_end s \<noteq> 0"
  shows "\<exists>t. fs_create_node name ty s = Some (heap_end s, t)"
proof -
  have "length (fn_name zero_node) = 128" by (simp add: zero_node_def)
  then obtain nm where "copy_cstr 127 name (fn_name zero_node) = Some nm"
    using copy_cstr_cstr [OF assms(1), of 127 "fn_name zero_node"] by auto
  then show ?thesis using assms(2) by (simp add: fs_create_node_def kmalloc_eq Let_def)
qed

lemma emit_kfs [simp]:
  "nodes (emit c s) = nodes s" "fs_root (emit c s) = fs_root s" "heap_end (emit c s) = heap_end s"
  by (simp_all add: emit_def)

lemma fs_init_root:
  assumes "heap_end s \<noteq> 0"
  shows "\<exists>t n. fs_init s = Some t \<and> fs_root t = heap_end s \<and> nodes t (heap_end s) = Some n \<and>
    fn_type n = FS_DIRECTORY \<and> fn_finddir n = Op_fs \<and> fn_parent n = 0 \<and>
    fn_mask n = FS_PERM_READ OR FS_PERM_WRITE"
proof -
  let ?s = "puts (''Dosya sistemi baslatiliyor...'' @ newline) s"
  have "NUL \<notin> set ''/''" by simp
  from fs_create_node_total [OF this, of ?s FS_DIRECTORY] assms obtain t where
    t: "fs_create_node ''/'' FS_DIRECTORY ?s = Some (heap_end s, t)" by auto
  from fs_create_node_fields [OF this assms] obtain n where
    "nodes t = (nodes s)(heap_end s \<mapsto> n)" "fn_type n = FS_DIRECTORY" "fn_finddir n = Op_fs"
    "fn_parent n = 0" by auto
  with t assms show ?thesis by (simp add: fs_init_def upd_node_def)
qed

text \<open>From a directory whose lookup is its own dispatcher a walk stays or does not end.\<close>

lemma walk_self:
  assumes "nodes s d = Some n" "d \<noteq> 0" "fn_type n = FS_DIRECTORY" "fn_finddir n = Op_fs"
    "fn_parent n = 0"
  shows "walk drv d names s =
    (if \<exists>w \<in> set names. w \<notin> {[], ''.'', ''..''} then None else Some (d, s))"
proof (induction names)
  case Nil
  then show ?case by simp
next
  case (Cons w ws)
  have "fs_finddir drv d w s = None"
    using fs_finddir_self [OF _ assms(1,2,3,4)] by (cases "fs_finddir drv d w s") auto
  with Cons assms show ?case by (auto simp: enter_def)
qed

section \<open>Properties\<close>

lemma and_absorb: "(m :: u32) AND x = x \<longleftrightarrow> (\<forall>n. bit x n \<longrightarrow> bit m n)"
proof
  assume "m AND x = x"
  then have "bit (m AND x) n = bit x n" for n by simp
  then show "\<forall>n. bit x n \<longrightarrow> bit m n" unfolding bit_and_iff by blast
next
  assume "\<forall>n. bit x n \<longrightarrow> bit m n"
  then show "m AND x = x" by (intro bit_word_eqI) (auto simp: bit_and_iff)
qed

lemma class_bits:
  assumes "(a :: u32) AND NOT 7 = 0" "k \<le> 6"
  shows "m AND push_bit k a = push_bit k a \<longleftrightarrow> drop_bit k m AND a = a"
proof -
  have "(7 :: u32) = mask 3" by (simp add: mask_eq_exp_minus_1)
  with assms(1) have "\<not> bit (a AND NOT (mask 3)) n" for n by simp
  then have low: "n < 3" if "bit a n" for n
    using that bit_imp_le_length [OF that] by (auto simp: bit_simps)
  show ?thesis
    unfolding and_absorb
  proof (intro iffI allI impI)
    fix n
    assume *: "\<forall>n. bit (push_bit k a) n \<longrightarrow> bit m n" and a: "bit a n"
    then have "bit (push_bit k a) (k + n)" using low [OF a] assms(2) by (simp add: bit_simps)
    with * show "bit (drop_bit k m) n" by (simp add: bit_simps)
  next
    fix n
    assume "\<forall>n. bit a n \<longrightarrow> bit (drop_bit k m) n" "bit (push_bit k a) n"
    then show "bit m n" by (auto simp: bit_simps)
  qed
qed

text \<open>
  The access decision of \<^verbatim>\<open>fs_check_permission\<close>. User 0 may do everything; the owner is
  judged by bits 6 to 8 of the mask alone, a member of the group by bits 3 to 5 alone and
  everyone else by bits 0 to 2 alone, and must find every requested bit set.
\<close>

theorem fs_check_permission_classes:
  assumes "nodes s p = Some n" "p \<noteq> 0" "access AND NOT 7 = 0"
  shows "fs_check_permission p access uid gid s = Some (uid = 0 \<or>
    drop_bit (if fn_uid n = uid then 6 else if fn_gid n = gid then 3 else 0) (fn_mask n)
      AND access = access)"
  using assms class_bits [OF assms(3), of 6 "fn_mask n"] class_bits [OF assms(3), of 3 "fn_mask n"]
  by (simp add: fs_check_permission_def)

definition kfs0 :: kfs where
  "kfs0 = kproc.extend kproc0 \<lparr>nodes = Map.empty, fs_root = 0\<rparr>"

text \<open>The directory of the self test, which its own owner may not read.\<close>

theorem fs_check_permission_classes_witness:
  "fs_check_permission 0x5000 FS_PERM_READ 1000 1000
    (kfs0\<lparr>nodes := [0x5000 \<mapsto> zero_node\<lparr>fn_uid := 1000, fn_gid := 1000, fn_mask := TEST_USER_MASK\<rparr>]\<rparr>)
    = Some False"
  using fs_check_permission_classes [of "kfs0\<lparr>nodes := [0x5000 \<mapsto> zero_node\<lparr>fn_uid := 1000,
    fn_gid := 1000, fn_mask := TEST_USER_MASK\<rparr>]\<rparr>" "0x5000" _ FS_PERM_READ 1000 1000]
  by (simp add: FS_PERM_READ_def FS_PERM_WRITE_def FS_PERM_EXEC_def TEST_USER_MASK_def)

text \<open>
  C26: \<^verbatim>\<open>fs_add_node\<close> appends an unlinked node to the children of a directory and sets its
  parent; \<^verbatim>\<open>fs_remove_node\<close> right after it succeeds and restores every node, the added one
  up to its parent, which is null again.
\<close>

theorem fs_add_then_remove:
  assumes "children_of s d xs" "nodes s c = Some cn" "c \<noteq> 0" "c \<noteq> d" "c \<notin> set xs" "fn_next cn = 0"
  shows "\<exists>t. fs_add_node d c s = Some t \<and> children_of t d (xs @ [c]) \<and>
    map_option fn_parent (nodes t c) = Some d \<and>
    fs_remove_node d c t = Some (0, s\<lparr>nodes := (nodes s)(c \<mapsto> cn\<lparr>fn_parent := 0\<rparr>)\<rparr>)"
proof -
  have "map_option fn_parent (linked d xs c (nodes s) c) = Some d"
    using assms(2,4,5) last_in_set [of xs] by (auto simp: linked_def Let_def)
  then show ?thesis
    using fs_add_node_eq [OF assms(1-5)] children_of_linked [OF assms] remove_after_link [OF assms]
    by simp
qed

text \<open>A directory at 0x2000 with one child at 0x3000, and a node at 0x4000 that is in no directory.\<close>

definition kfs_dir :: kfs where
  "kfs_dir = kfs0\<lparr>fs_root := 0x2000, nodes := [
     0x2000 \<mapsto> zero_node\<lparr>fn_type := FS_DIRECTORY, fn_children := 0x3000, fn_finddir := Op_dev 0\<rparr>,
     0x3000 \<mapsto> zero_node\<lparr>fn_type := FS_SYMLINK, fn_symlink_target := 0x4000, fn_parent := 0x2000\<rparr>,
     0x4000 \<mapsto> zero_node]\<rparr>"

theorem fs_add_then_remove_witness:
  "\<exists>t u. fs_add_node 0x2000 0x4000 kfs_dir = Some t \<and> children_of t 0x2000 [0x3000, 0x4000] \<and>
    fs_remove_node 0x2000 0x4000 t = Some (0, u)"
proof -
  have "children_of kfs_dir 0x2000 [0x3000]"
    by (simp add: children_of_def kfs_dir_def zero_node_def)
  from fs_add_then_remove [OF this, of "0x4000" zero_node] show ?thesis
    by (auto simp: kfs_dir_def zero_node_def)
qed

lemma resolve_path_walk:
  assumes "\<forall>w \<in> set (split_slash path). length w \<le> 127" "fs_root s \<noteq> 0"
  shows "fs_resolve_path drv path s = walk drv (fs_root s) (split_slash path) s"
proof (cases "\<exists>r. path = CHR ''/'' # r")
  case True
  then obtain r where r: "path = CHR ''/'' # r" by blast
  with assms show ?thesis
    by (simp add: fs_resolve_path_def skip_slash_def resolve_loop_walk enter_def)
next
  case False
  then have "skip_slash path = path" by (auto simp: skip_slash_def split: list.split)
  with assms show ?thesis by (simp add: fs_resolve_path_def resolve_loop_walk)
qed

text \<open>
  C5: what a path means. When no name between slashes is longer than 127 characters,
  \<^verbatim>\<open>fs_resolve_path\<close> walks from the root over the names of the path in order: an empty name
  and \<open>.\<close> stay, \<open>..\<close> goes to the parent if there is one, any other name goes to the node that
  the directory's lookup gives, through it if it is a symbolic link, and the first name that
  is not found ends the walk with null.
\<close>

theorem fs_resolve_path_walk:
  assumes "\<forall>w \<in> set (split_slash path). length w \<le> 127" "fs_root s \<noteq> 0"
  shows "fs_resolve_path drv path s = walk drv (fs_root s) (split_slash path) s"
  using assms by (rule resolve_path_walk)

text \<open>A driver whose directories know one name.\<close>

definition one_name_driver :: "kfs fs_driver" where
  "one_name_driver = \<lparr>drv_read = (\<lambda>_ _ _ _ _ _. None), drv_write = (\<lambda>_ _ _ _ _ _. None),
     drv_open = (\<lambda>_ _ _. None), drv_close = (\<lambda>_ _ _. None), drv_readdir = (\<lambda>_ _ _ _. None),
     drv_finddir = (\<lambda>d node name s. Some (if name = ''link'' then 0x3000 else 0, s))\<rparr>"

theorem fs_resolve_path_walk_witness:
  "fs_resolve_path one_name_driver ''/.././link/'' kfs_dir = Some (0x4000, kfs_dir)
    \<and> fs_resolve_path one_name_driver ''/etc/link'' kfs_dir = Some (0, kfs_dir)"
proof -
  have root: "fs_root kfs_dir = 0x2000" "nodes kfs_dir 0x2000 =
      Some (zero_node\<lparr>fn_type := FS_DIRECTORY, fn_children := 0x3000, fn_finddir := Op_dev 0\<rparr>)"
    "nodes kfs_dir 0x3000 =
      Some (zero_node\<lparr>fn_type := FS_SYMLINK, fn_symlink_target := 0x4000, fn_parent := 0x2000\<rparr>)"
    by (simp_all add: kfs_dir_def)
  have look: "fs_finddir one_name_driver 0x2000 nm kfs_dir =
      Some (if nm = ''link'' then 0x3000 else 0, kfs_dir)" for nm
    by (subst fs_finddir.simps) (simp add: root one_name_driver_def)
  show ?thesis
    using fs_resolve_path_walk [of "''/.././link/''" kfs_dir one_name_driver]
      fs_resolve_path_walk [of "''/etc/link''" kfs_dir one_name_driver]
    by (simp add: root look enter_def zero_node_def)
qed

text \<open>
  C25: nodes that \<^verbatim>\<open>fs_create_node\<close> makes cannot be used. Their operation pointers are the
  dispatchers of \<^verbatim>\<open>fs.c\<close>, which call the pointer again: opening or closing such a node,
  reading or writing such a file and listing or searching such a directory never returns.
\<close>

theorem created_nodes_do_not_return:
  assumes "fs_create_node name ty s = Some (p, t)" "p \<noteq> 0"
  shows "fs_open drv p t = None \<and> fs_close drv p t = None \<and>
    (ty = FS_FILE \<longrightarrow> fs_read drv p off sz buf t = None \<and> fs_write drv p off sz buf t = None) \<and>
    (ty = FS_DIRECTORY \<longrightarrow> fs_readdir drv p i t = None \<and> fs_finddir drv p nm t = None)"
proof -
  obtain n where n: "nodes t p = Some n" "fn_type n = ty" "fn_open n = Op_fs" "fn_close n = Op_fs"
    "ty = FS_FILE \<longrightarrow> fn_read n = Op_fs \<and> fn_write n = Op_fs"
    "ty = FS_DIRECTORY \<longrightarrow> fn_readdir n = Op_fs \<and> fn_finddir n = Op_fs"
    using fs_create_node_fields [OF assms] by auto
  then show ?thesis
    using fs_open_self [of drv p t _ n]
      fs_close_self [of drv p t _ n] fs_read_self [of drv p off sz buf t _ n]
      fs_write_self [of drv p off sz buf t _ n] fs_readdir_self [of drv p i t _ n]
      fs_finddir_self [of drv p nm t _ n] assms(2)
    by (metis not_Some_eq)
qed

theorem created_nodes_do_not_return_witness:
  "\<exists>t. fs_create_node ''f'' FS_FILE kfs0 = Some (0x100000, t) \<and> fs_read one_name_driver 0x100000 0 1 0x9000 t = None"
proof -
  have "heap_end kfs0 = 0x100000" by (simp add: kfs0_def kproc.defs)
  then obtain t where "fs_create_node ''f'' FS_FILE kfs0 = Some (0x100000, t)"
    using fs_create_node_total [of "''f''" kfs0 FS_FILE] by auto
  with created_nodes_do_not_return [OF this] show ?thesis by auto
qed

text \<open>
  After \<^verbatim>\<open>fs_init\<close> the only paths that resolve are those without a proper name, which lead
  to the root; a path with a name in it is looked up in the root directory and never returns.
\<close>

theorem fs_init_paths:
  assumes "heap_end s \<noteq> 0" "\<forall>w \<in> set (split_slash path). length w \<le> 127"
  shows "\<exists>t. fs_init s = Some t \<and> fs_root t \<noteq> 0 \<and> fs_resolve_path drv path t =
    (if \<exists>w \<in> set (split_slash path). w \<notin> {[], ''.'', ''..''} then None else Some (fs_root t, t))"
proof -
  obtain t n where t: "fs_init s = Some t" "fs_root t = heap_end s" "nodes t (heap_end s) = Some n"
    "fn_type n = FS_DIRECTORY" "fn_finddir n = Op_fs" "fn_parent n = 0"
    using fs_init_root [OF assms(1)] by blast
  have "fs_resolve_path drv path t = walk drv (fs_root t) (split_slash path) t"
    using assms t(2) by (intro resolve_path_walk) simp_all
  with walk_self [OF t(3) assms(1) t(4-6)] t(1,2) assms(1) show ?thesis by simp
qed

theorem fs_init_paths_witness:
  "\<exists>t. fs_init kfs0 = Some t \<and> fs_resolve_path one_name_driver ''/'' t = Some (fs_root t, t)"
  using fs_init_paths [of kfs0 "''/''" one_name_driver] by (auto simp: kfs0_def kproc.defs)

end
