(* ===== verification/Terminal.thy ===== *)
theory Terminal
  imports Console "HOL-Library.Sublist"
begin

text \<open>
  The terminal driver, \<^verbatim>\<open>src/drivers/terminal.c\<close>: the text page of the VGA adapter (25 rows of
  80 cells), the logical cursor, the colour, and the port writes that place the hardware
  cursor. The abstract screen is a tape: the cells and one position. Every character written
  is a step of the tape; the theorems about writing strings, numbers and the messages of the
  other components follow from that.
\<close>

section \<open>State\<close>

abbreviation VGA_WIDTH :: nat where "VGA_WIDTH \<equiv> 80"
abbreviation VGA_HEIGHT :: nat where "VGA_HEIGHT \<equiv> 25"
abbreviation TAB_SIZE :: nat where "TAB_SIZE \<equiv> 4"

text \<open>
  The static variables. \<open>vga\<close> is the memory at \<^verbatim>\<open>VGA_MEMORY\<close>, \<open>crt_out\<close> the bytes written
  to the ports of the CRT controller so far.
\<close>

record kterm =
  vga :: "u16 list"
  terminal_color :: u8
  terminal_row :: u16
  terminal_column :: u16
  cursor_visible :: bool
  crt_out :: "(u16 \<times> u8) list"

record cursor_pos =
  cur_x :: u16
  cur_y :: u16

primrec color_code :: "vga_color \<Rightarrow> u8" where
  "color_code VGA_COLOR_BLACK = 0"
| "color_code VGA_COLOR_BLUE = 1"
| "color_code VGA_COLOR_GREEN = 2"
| "color_code VGA_COLOR_CYAN = 3"
| "color_code VGA_COLOR_RED = 4"
| "color_code VGA_COLOR_MAGENTA = 5"
| "color_code VGA_COLOR_BROWN = 6"
| "color_code VGA_COLOR_LIGHT_GREY = 7"
| "color_code VGA_COLOR_DARK_GREY = 8"
| "color_code VGA_COLOR_LIGHT_BLUE = 9"
| "color_code VGA_COLOR_LIGHT_GREEN = 10"
| "color_code VGA_COLOR_LIGHT_CYAN = 11"
| "color_code VGA_COLOR_LIGHT_RED = 12"
| "color_code VGA_COLOR_LIGHT_MAGENTA = 13"
| "color_code VGA_COLOR_LIGHT_BROWN = 14"
| "color_code VGA_COLOR_WHITE = 15"

definition vga_entry_color :: "u8 \<Rightarrow> u8 \<Rightarrow> u8" where
  "vga_entry_color fg bg = fg OR push_bit 4 bg"

definition vga_entry :: "char \<Rightarrow> u8 \<Rightarrow> u16" where
  "vga_entry uc color = of_nat (of_char uc) OR push_bit 8 (ucast color)"

definition crt_outb :: "u16 \<Rightarrow> u8 \<Rightarrow> kterm \<Rightarrow> kterm" where
  "crt_outb port v s = s\<lparr>crt_out := crt_out s @ [(port, v)]\<rparr>"

section \<open>Cursor and colour\<close>

definition terminal_setcolor :: "u8 \<Rightarrow> kterm \<Rightarrow> kterm" where
  "terminal_setcolor color s = s\<lparr>terminal_color := color\<rparr>"

definition terminal_set_fg_color :: "u8 \<Rightarrow> kterm \<Rightarrow> kterm" where
  "terminal_set_fg_color fg s =
     (let bg = drop_bit 4 (terminal_color s)
      in s\<lparr>terminal_color := vga_entry_color fg bg\<rparr>)"

definition terminal_set_bg_color :: "u8 \<Rightarrow> kterm \<Rightarrow> kterm" where
  "terminal_set_bg_color bg s =
     (let fg = terminal_color s AND 0x0F
      in s\<lparr>terminal_color := vga_entry_color fg bg\<rparr>)"

definition terminal_reset_color :: "kterm \<Rightarrow> kterm" where
  "terminal_reset_color s = s\<lparr>terminal_color :=
     vga_entry_color (color_code VGA_COLOR_LIGHT_GREY) (color_code VGA_COLOR_BLACK)\<rparr>"

definition terminal_get_width :: u16 where
  "terminal_get_width = of_nat VGA_WIDTH"

definition terminal_get_height :: u16 where
  "terminal_get_height = of_nat VGA_HEIGHT"

definition terminal_get_cursor :: "kterm \<Rightarrow> cursor_pos" where
  "terminal_get_cursor s = \<lparr>cur_x = terminal_column s, cur_y = terminal_row s\<rparr>"

definition terminal_move_cursor :: "u16 \<Rightarrow> u16 \<Rightarrow> kterm \<Rightarrow> kterm" where
  "terminal_move_cursor x y s =
     (if of_nat VGA_WIDTH \<le> x \<or> of_nat VGA_HEIGHT \<le> y then s
      else let s1 = s\<lparr>terminal_column := x, terminal_row := y\<rparr>;
             pos = y * of_nat VGA_WIDTH + x;
             low = ucast (pos AND 0xFF);
             high = ucast (drop_bit 8 pos AND 0xFF);
             s2 = crt_outb 0x3D4 14 s1;
             s3 = crt_outb 0x3D5 high s2;
             s4 = crt_outb 0x3D4 15 s3
           in crt_outb 0x3D5 low s4)"

definition terminal_set_cursor_visible :: "bool \<Rightarrow> kterm \<Rightarrow> kterm" where
  "terminal_set_cursor_visible visible s =
     (let s1 = s\<lparr>cursor_visible := visible\<rparr>
      in if visible
         then crt_outb 0x3D5 15 (crt_outb 0x3D4 11 (crt_outb 0x3D5 14 (crt_outb 0x3D4 10 s1)))
         else crt_outb 0x3D5 0x1F (crt_outb 0x3D4 11 (crt_outb 0x3D5 0x1F (crt_outb 0x3D4 10 s1))))"

section \<open>Cells\<close>

text \<open>The cells of rows \<open>a\<close> to \<open>b - 1\<close> become \<open>e\<close>: the double loop of the clearing operations.\<close>

definition fill_rows :: "nat \<Rightarrow> nat \<Rightarrow> u16 \<Rightarrow> u16 list \<Rightarrow> u16 list" where
  "fill_rows a b e =
     fold (\<lambda>y. fold (\<lambda>x cells. cells[y * VGA_WIDTH + x := e]) [0..<VGA_WIDTH]) [a..<b]"

definition terminal_clear :: "kterm \<Rightarrow> kterm" where
  "terminal_clear s =
     (let s1 = s\<lparr>vga := fill_rows 0 VGA_HEIGHT (vga_entry (CHR '' '') (terminal_color s)) (vga s)\<rparr>;
        s2 = s1\<lparr>terminal_row := 0, terminal_column := 0\<rparr>
      in terminal_move_cursor 0 0 s2)"

definition terminal_initialize :: "kterm \<Rightarrow> kterm" where
  "terminal_initialize s =
     (let color = vga_entry_color (color_code VGA_COLOR_LIGHT_GREY) (color_code VGA_COLOR_BLACK);
        s1 = s\<lparr>terminal_row := 0, terminal_column := 0, terminal_color := color\<rparr>;
        s2 = s1\<lparr>vga := fill_rows 0 VGA_HEIGHT (vga_entry (CHR '' '') color) (vga s1)\<rparr>;
        s3 = terminal_set_cursor_visible True s2
      in terminal_move_cursor 0 0 s3)"

definition terminal_putentryat :: "char \<Rightarrow> u8 \<Rightarrow> nat \<Rightarrow> nat \<Rightarrow> kterm \<Rightarrow> kterm option" where
  "terminal_putentryat c color x y s = do {
     cells \<leftarrow> arr_set (vga s) (y * VGA_WIDTH + x) (vga_entry c color);
     Some (s\<lparr>vga := cells\<rparr>)
   }"

text \<open>
  \<^verbatim>\<open>terminal_scroll\<close>. The second loop starts at \<^verbatim>\<open>VGA_HEIGHT - lines\<close> as a \<^verbatim>\<open>size_t\<close>, which is a
  huge number when \<^verbatim>\<open>lines\<close> exceeds the height.
\<close>

definition move_rows_up :: "nat \<Rightarrow> u16 list \<Rightarrow> u16 list" where
  "move_rows_up n =
     fold (\<lambda>y. fold (\<lambda>x cells. cells[(y - n) * VGA_WIDTH + x := cells ! (y * VGA_WIDTH + x)])
       [0..<VGA_WIDTH]) [n..<VGA_HEIGHT]"

definition terminal_scroll :: "u32 \<Rightarrow> kterm \<Rightarrow> kterm" where
  "terminal_scroll lines s =
     (if lines <=s 0 then s
      else let blank = vga_entry (CHR '' '') (terminal_color s);
             cells = move_rows_up (unat lines) (vga s)
           in s\<lparr>vga := fill_rows (unat (of_nat VGA_HEIGHT - lines)) VGA_HEIGHT blank cells\<rparr>)"

definition put_cells :: "char \<Rightarrow> nat list \<Rightarrow> nat \<Rightarrow> kterm \<Rightarrow> kterm option" where
  "put_cells c xs y s =
     fold_opt (\<lambda>x t. terminal_putentryat c (terminal_color t) x y t) xs s"

definition terminal_clear_line :: "u16 \<Rightarrow> kterm \<Rightarrow> kterm option" where
  "terminal_clear_line line s =
     (if of_nat VGA_HEIGHT \<le> line then Some s else put_cells (CHR '' '') [0..<VGA_WIDTH] (unat line) s)"

definition clear_lines :: "nat list \<Rightarrow> kterm \<Rightarrow> kterm option" where
  "clear_lines ys s = fold_opt (\<lambda>y. terminal_clear_line (of_nat y)) ys s"

definition terminal_clear_screen_from_cursor :: "kterm \<Rightarrow> kterm option" where
  "terminal_clear_screen_from_cursor s = do {
     s1 \<leftarrow> put_cells (CHR '' '') [unat (terminal_column s)..<VGA_WIDTH] (unat (terminal_row s)) s;
     clear_lines [Suc (unat (terminal_row s))..<VGA_HEIGHT] s1
   }"

definition terminal_clear_screen_to_cursor :: "kterm \<Rightarrow> kterm option" where
  "terminal_clear_screen_to_cursor s = do {
     s1 \<leftarrow> clear_lines [0..<unat (terminal_row s)] s;
     put_cells (CHR '' '') [0..<Suc (unat (terminal_column s))] (unat (terminal_row s)) s1
   }"

definition terminal_newline :: "kterm \<Rightarrow> kterm" where
  "terminal_newline s =
     (let s1 = s\<lparr>terminal_column := 0, terminal_row := terminal_row s + 1\<rparr>
      in if terminal_row s1 = of_nat VGA_HEIGHT
         then (terminal_scroll 1 s1)\<lparr>terminal_row := of_nat VGA_HEIGHT - 1\<rparr>
         else s1)"

definition terminal_backspace :: "kterm \<Rightarrow> kterm option" where
  "terminal_backspace s =
     (if 0 < terminal_column s \<or> 0 < terminal_row s
      then let s1 = (if 0 < terminal_column s then s\<lparr>terminal_column := terminal_column s - 1\<rparr>
                 else s\<lparr>terminal_row := terminal_row s - 1, terminal_column := of_nat VGA_WIDTH - 1\<rparr>);
             x = terminal_column s1; y = terminal_row s1
           in terminal_putentryat (CHR '' '') (terminal_color s1) (unat x) (unat y) s1 \<bind>
             (\<lambda>s2. Some (terminal_move_cursor x y s2))
      else Some s)"

definition terminal_delete :: "kterm \<Rightarrow> kterm option" where
  "terminal_delete s = terminal_putentryat (CHR '' '') (terminal_color s)
     (unat (terminal_column s)) (unat (terminal_row s)) s"

section \<open>Characters and strings\<close>

text \<open>The last branch of \<^verbatim>\<open>terminal_putchar\<close>: a character that takes a cell.\<close>

definition put_glyph :: "char \<Rightarrow> kterm \<Rightarrow> kterm option" where
  "put_glyph c s = do {
     s1 \<leftarrow> terminal_putentryat c (terminal_color s) (unat (terminal_column s)) (unat (terminal_row s)) s;
     let s2 = s1\<lparr>terminal_column := terminal_column s1 + 1\<rparr>;
     Some (if terminal_column s2 = of_nat VGA_WIDTH then terminal_newline s2 else s2)
   }"

definition sync_cursor :: "kterm \<Rightarrow> kterm" where
  "sync_cursor s = terminal_move_cursor (terminal_column s) (terminal_row s) s"

text \<open>\<^verbatim>\<open>terminal_putchar\<close> and \<^verbatim>\<open>terminal_tab\<close> call each other.\<close>

function terminal_putchar :: "char \<Rightarrow> kterm \<Rightarrow> kterm option"
  and terminal_tab :: "kterm \<Rightarrow> kterm option" where
  "terminal_putchar c s =
     (if c = CHR 0x0A then Some (terminal_newline s)
      else if c = CHR 0x0D then Some (s\<lparr>terminal_column := 0\<rparr>)
      else if c = CHR 0x08 then terminal_backspace s
      else if c = CHR 0x09 then terminal_tab s
      else put_glyph c s) \<bind> (\<lambda>s1. Some (sync_cursor s1))"
| "terminal_tab s = iter_opt TAB_SIZE (terminal_putchar (CHR '' '')) s"
  by pat_completeness auto
termination
  by (relation "measure (case_sum (\<lambda>(c, s). if c = CHR 0x09 then 2 else 0) (\<lambda>s. 1))") auto

declare terminal_putchar.simps [simp del] terminal_tab.simps [simp del]

text \<open>\<^verbatim>\<open>terminal_write\<close> of the bytes of a buffer, \<^verbatim>\<open>terminal_writestring\<close> of a string.\<close>

definition terminal_write :: "char list \<Rightarrow> kterm \<Rightarrow> kterm option" where
  "terminal_write cs = fold_opt terminal_putchar cs"

definition terminal_writestring :: "string \<Rightarrow> kterm \<Rightarrow> kterm option" where
  "terminal_writestring data s = terminal_write (cstr data) s"

section \<open>Numbers\<close>

text \<open>
  \<^verbatim>\<open>while (value > 0) { buffer[i++] = ...; value /= base; }\<close>, under the further condition
  \<open>room i\<close>: \<^verbatim>\<open>terminal_print_hex\<close> also asks for \<^verbatim>\<open>i < 8\<close>.
\<close>

function store_digits :: "(nat \<Rightarrow> bool) \<Rightarrow> string \<Rightarrow> nat \<Rightarrow> char list \<Rightarrow> nat \<Rightarrow> nat \<Rightarrow> (char list \<times> nat) option" where
  "store_digits room ds base buf i n =
     (if 0 < n \<and> 1 < base \<and> room i
      then arr_set buf i (ds ! (n mod base)) \<bind> (\<lambda>b. store_digits room ds base b (Suc i) (n div base))
      else Some (buf, i))"
  by pat_completeness auto
termination
  by (relation "measure (\<lambda>(room, ds, base, buf, i, n). n)") auto

declare store_digits.simps [simp del]

definition print_back :: "char list \<Rightarrow> nat \<Rightarrow> kterm \<Rightarrow> kterm option" where
  "print_back buf i s = fold_opt (\<lambda>j. terminal_putchar (buf ! j)) (rev [0..<i]) s"

definition decimal_digits :: string where
  "decimal_digits = ''0123456789''"

definition hex_digits :: string where
  "hex_digits = ''0123456789ABCDEF''"

definition terminal_print_uint :: "u32 \<Rightarrow> kterm \<Rightarrow> kterm option" where
  "terminal_print_uint v s =
     (if v = 0 then terminal_putchar (CHR ''0'') s
      else do {
        (buf, i) \<leftarrow> store_digits (\<lambda>_. True) decimal_digits 10 (replicate 12 NUL) 0 (unat v);
        print_back buf i s
      })"

text \<open>\<^verbatim>\<open>value = -value\<close> overflows for the least \<^verbatim>\<open>int\<close>.\<close>

definition terminal_print_int :: "u32 \<Rightarrow> kterm \<Rightarrow> kterm option" where
  "terminal_print_int v s = do {
     (s1, v1) \<leftarrow> (if v <s 0
       then terminal_putchar (CHR ''-'') s \<bind> (\<lambda>s1. if v = 0x80000000 then None else Some (s1, - v))
       else Some (s, v));
     if v1 = 0 then terminal_putchar (CHR ''0'') s1
     else do {
       (buf, i) \<leftarrow> store_digits (\<lambda>_. True) decimal_digits 10 (replicate 12 NUL) 0 (unat v1);
       print_back buf i s1
     }
   }"

definition terminal_print_hex :: "u32 \<Rightarrow> kterm \<Rightarrow> kterm option" where
  "terminal_print_hex v s = do {
     s1 \<leftarrow> terminal_writestring ''0x'' s;
     if v = 0 then terminal_putchar (CHR ''0'') s1
     else do {
       (buf, i) \<leftarrow> store_digits (\<lambda>i. i < 8) hex_digits 16 (replicate 9 NUL) 0 (unat v);
       print_back buf i s1
     }
   }"

text \<open>
  \<^verbatim>\<open>terminal_printf\<close> looks at its format only; its variadic arguments are never read.
\<close>

definition printf_spec :: "char \<Rightarrow> kterm \<Rightarrow> kterm option" where
  "printf_spec d s =
     (if d = CHR ''%'' then terminal_putchar (CHR ''%'') s
      else if d = CHR ''d'' \<or> d = CHR ''i'' then terminal_writestring ''(int)'' s
      else if d = CHR ''u'' then terminal_writestring ''(uint)'' s
      else if d = CHR ''x'' \<or> d = CHR ''X'' then terminal_writestring ''(hex)'' s
      else if d = CHR ''s'' then terminal_writestring ''(string)'' s
      else if d = CHR ''c'' then terminal_writestring ''(char)'' s
      else terminal_putchar (CHR ''%'') s \<bind> terminal_putchar d)"

fun printf_from :: "string \<Rightarrow> kterm \<Rightarrow> kterm option" where
  "printf_from [] s = Some s"
| "printf_from (c # cs) s =
     (if c \<noteq> CHR ''%'' then terminal_putchar c s \<bind> printf_from cs
      else (case cs of
          [] \<Rightarrow> Some s
        | d # ds \<Rightarrow> printf_spec d s \<bind> printf_from ds))"

definition terminal_printf :: "string \<Rightarrow> kterm \<Rightarrow> kterm option" where
  "terminal_printf format s = printf_from (cstr format) s"

section \<open>Input\<close>

text \<open>\<^verbatim>\<open>terminal_getchar\<close> is a stub: it reads no keyboard and returns \<^verbatim>\<open>KEY_NULL\<close>.\<close>

definition terminal_getchar :: "kterm \<Rightarrow> char \<times> kterm" where
  "terminal_getchar s = (KEY_NULL, s)"

text \<open>One pass of the loop of \<^verbatim>\<open>terminal_gets\<close>; the flag is the \<^verbatim>\<open>break\<close>. \<^verbatim>\<open>char\<close> is signed.\<close>

definition gets_step :: "char list \<Rightarrow> nat \<Rightarrow> kterm \<Rightarrow> (bool \<times> char list \<times> nat \<times> kterm) option" where
  "gets_step buf i s =
     (let (c, s1) = terminal_getchar s
      in if c = KEY_ENTER
         then do {
           buf1 \<leftarrow> arr_set buf i NUL;
           s2 \<leftarrow> terminal_putchar (CHR 0x0A) s1;
           Some (True, buf1, i, s2)
         }
         else if c = KEY_BACKSPACE \<and> 0 < i
         then terminal_backspace s1 \<bind> (\<lambda>s2. Some (False, buf, i - 1, s2))
         else if 0x20 \<le> (of_char c :: nat) \<and> (of_char c :: nat) \<le> 0x7E
         then do {
           buf1 \<leftarrow> arr_set buf i c;
           s2 \<leftarrow> terminal_putchar c s1;
           Some (False, buf1, Suc i, s2)
         }
         else Some (False, buf, i, s1))"

partial_function (option) gets_loop ::
  "nat \<Rightarrow> char list \<Rightarrow> nat \<Rightarrow> kterm \<Rightarrow> (char list \<times> nat \<times> kterm) option" where
  "gets_loop sz buf i s =
     (if i < sz - 1
      then do {
        (brk, buf1, i1, s1) \<leftarrow> gets_step buf i s;
        if brk then Some (buf1, i1, s1) else gets_loop sz buf1 i1 s1
      }
      else Some (buf, i, s))"

definition terminal_gets :: "char list \<Rightarrow> nat \<Rightarrow> kterm \<Rightarrow> (char list \<times> kterm) option" where
  "terminal_gets buf sz s =
     (if sz = 0 then Some (buf, s)
      else do {
        (buf1, i, s1) \<leftarrow> gets_loop sz buf 0 s;
        buf2 \<leftarrow> arr_set buf1 i NUL;
        Some (buf2, s1)
      })"

definition terminal_read_line :: "char list \<Rightarrow> nat \<Rightarrow> kterm \<Rightarrow> (int \<times> char list \<times> kterm) option" where
  "terminal_read_line buf sz s = terminal_gets buf sz s \<bind> (\<lambda>(buf1, s1). Some (0, buf1, s1))"

section \<open>The tape of cells\<close>

definition pos :: "kterm \<Rightarrow> nat" where
  "pos s = unat (terminal_row s) * VGA_WIDTH + unat (terminal_column s)"

text \<open>
  The invariant: the cursor is on the screen. Row and column fit \<^verbatim>\<open>uint16_t\<close> arithmetic then.
\<close>

definition term_ok :: "kterm \<Rightarrow> bool" where
  "term_ok s \<longleftrightarrow> length (vga s) = VGA_HEIGHT * VGA_WIDTH
     \<and> unat (terminal_row s) < VGA_HEIGHT \<and> unat (terminal_column s) < VGA_WIDTH"

definition screen :: "kterm \<Rightarrow> u16 list \<times> nat" where
  "screen s = (vga s, pos s)"

text \<open>
  The hardware cursor: the CRT controller keeps an index register behind port 0x3D4 and the
  data registers behind 0x3D5; registers 14 and 15 are the position.
\<close>

definition crt_step :: "u16 \<times> u8 \<Rightarrow> u8 \<times> (u8 \<Rightarrow> u8) \<Rightarrow> u8 \<times> (u8 \<Rightarrow> u8)" where
  "crt_step w r =
     (if fst w = 0x3D4 then (snd w, snd r)
      else if fst w = 0x3D5 then (fst r, (snd r)(fst r := snd w)) else r)"

definition hw_cursor :: "kterm \<Rightarrow> nat" where
  "hw_cursor s = (let regs = snd (fold crt_step (crt_out s) (0, \<lambda>_. 0))
     in unat (regs 14) * 256 + unat (regs 15))"

text \<open>The abstract screen: a line feed, and a character that takes the cell at the position.\<close>

definition tape_newline :: "u16 \<Rightarrow> u16 list \<times> nat \<Rightarrow> u16 list \<times> nat" where
  "tape_newline blank = (\<lambda>(cs, p).
     if p div 80 = 24 then (drop 80 cs @ replicate 80 blank, 1920) else (cs, (p div 80 + 1) * 80))"

definition tape_put :: "u16 \<Rightarrow> u16 \<Rightarrow> u16 list \<times> nat \<Rightarrow> u16 list \<times> nat" where
  "tape_put blank e = (\<lambda>(cs, p).
     if p = 1999 then (drop 80 (cs[p := e]) @ replicate 80 blank, 1920) else (cs[p := e], p + 1))"

definition tape_char :: "u8 \<Rightarrow> char \<Rightarrow> u16 list \<times> nat \<Rightarrow> u16 list \<times> nat" where
  "tape_char color c = (let blank = vga_entry (CHR '' '') color in
     if c = CHR 0x0A then tape_newline blank
     else if c = CHR 0x0D then (\<lambda>(cs, p). (cs, p - p mod 80))
     else if c = CHR 0x08 then (\<lambda>(cs, p). if p = 0 then (cs, p) else (cs[p - 1 := blank], p - 1))
     else if c = CHR 0x09 then tape_put blank blank ^^ 4
     else tape_put blank (vga_entry c color))"

subsection \<open>Rows of cells\<close>

lemma fold_rows:
  "a \<le> b \<Longrightarrow> fold (\<lambda>y. fold (\<lambda>x. f (y * 80 + x)) [0..<80]) [a..<b] s = fold f [a * 80..<b * (80 :: nat)] s"
proof (induction b)
  case 0
  then show ?case by simp
next
  case (Suc b)
  show ?case
  proof (cases "a \<le> b")
    case True
    have row: "fold (\<lambda>x. f (b * 80 + x)) [0..<80] t = fold f [b * 80..<Suc b * 80] t" for t
    proof -
      have "[b * 80..<Suc b * 80] = map (\<lambda>x. x + b * 80) [0..<80]"
        by (subst map_add_upt) (simp add: add.commute)
      then show ?thesis by (simp add: fold_map comp_def add.commute del: upt_Suc)
    qed
    have split: "[a * 80..<Suc b * 80] = [a * 80..<b * 80] @ [b * 80..<Suc b * 80]"
      using True by (metis le_add2 le_add_diff_inverse mult_Suc mult_le_mono1 upt_add_eq_append)
    have up: "[a..<Suc b] = [a..<b] @ [b]" using True by simp
    show ?thesis
      unfolding split up using Suc.IH True by (simp only: fold_append comp_apply fold_simps row id_apply)
  next
    case False
    with Suc.prems have "a = Suc b" by simp
    then show ?thesis by simp
  qed
qed

lemma fold_fill:
  "a \<le> b \<Longrightarrow> b \<le> length cs \<Longrightarrow>
    fold (\<lambda>i cells. cells[i := e]) [a..<b] cs = take a cs @ replicate (b - a) e @ drop b cs"
proof (induction b)
  case 0
  then show ?case by simp
next
  case (Suc b)
  show ?case
  proof (cases "a \<le> b")
    case True
    with Suc.prems have "drop b cs = cs ! b # drop (Suc b) cs" by (simp add: Cons_nth_drop_Suc)
    with Suc True show ?thesis
      by (simp add: list_update_append Suc_diff_le replicate_app_Cons_same)
  next
    case False
    with Suc.prems have "a = Suc b" by simp
    then show ?thesis by simp
  qed
qed

lemma fold_shift:
  "k \<le> m \<Longrightarrow> m \<le> length cs \<Longrightarrow>
    fold (\<lambda>i cells. cells[i - k := cells ! i]) [k..<m] cs = take (m - k) (drop k cs) @ drop (m - k) cs"
proof (induction m)
  case 0
  then show ?case by simp
next
  case (Suc m)
  show ?case
  proof (cases "k \<le> m")
    case True
    have d: "drop (m - k) cs = cs ! (m - k) # drop (Suc m - k) cs"
      using True Suc.prems by (simp add: Cons_nth_drop_Suc Suc_diff_le)
    have len: "length (take (m - k) (drop k cs)) = m - k" using Suc.prems True by simp
    have nth: "(take (m - k) (drop k cs) @ drop (m - k) cs) ! m = cs ! m"
      using Suc.prems True len by (auto simp: nth_append)
    have tk: "take (Suc m - k) (drop k cs) = take (m - k) (drop k cs) @ [cs ! m]"
      using Suc.prems True by (simp add: Suc_diff_le take_Suc_conv_app_nth)
    have "fold (\<lambda>i cells. cells[i - k := cells ! i]) [k..<Suc m] cs
      = (take (m - k) (drop k cs) @ drop (m - k) cs)[m - k := cs ! m]"
      using Suc True nth by simp
    also have "\<dots> = take (m - k) (drop k cs) @ (cs ! m # drop (Suc m - k) cs)"
      unfolding d using list_update_length [of "take (m - k) (drop k cs)"] len by metis
    finally show ?thesis unfolding tk by simp
  next
    case False
    with Suc.prems have "k = Suc m" by simp
    then show ?thesis by simp
  qed
qed

lemma fill_rows_eq:
  assumes "length cs = 2000" "a \<le> b" "b \<le> 25"
  shows "fill_rows a b e cs = take (a * 80) cs @ replicate ((b - a) * 80) e @ drop (b * 80) cs"
  using assms fold_rows [of a b "\<lambda>i cells. cells[i := e]" cs] fold_fill [of "a * 80" "b * 80" cs e]
  by (simp add: fill_rows_def diff_mult_distrib)

lemma move_rows_up_eq:
  assumes "length cs = 2000" "n \<le> 25"
  shows "move_rows_up n cs = drop (n * 80) cs @ drop (2000 - n * 80) cs"
proof -
  have "move_rows_up n cs
      = fold (\<lambda>y. fold (\<lambda>x cells. cells[(y * 80 + x) - n * 80 := cells ! (y * 80 + x)]) [0..<80]) [n..<25] cs"
    unfolding move_rows_up_def by (intro fold_cong) (auto simp: diff_mult_distrib)
  also have "\<dots> = take (2000 - n * 80) (drop (n * 80) cs) @ drop (2000 - n * 80) cs"
    using assms fold_rows [of n 25 "\<lambda>i cells. cells[i - n * 80 := cells ! i]" cs]
      fold_shift [of "n * 80" 2000 cs] by simp
  finally show ?thesis using assms by simp
qed

lemma length_fold_same:
  "(\<And>x cs. x \<in> set xs \<Longrightarrow> length (f x cs) = length cs) \<Longrightarrow> length (fold f xs cs) = length cs"
  by (induction xs arbitrary: cs) auto

lemma length_fill_rows [simp]: "length (fill_rows a b e cs) = length cs"
  unfolding fill_rows_def by (intro length_fold_same) simp

text \<open>
  Scrolling by 1 to 25 lines moves the rows up and clears the rest; a count above 25, and a
  count that is not positive, leaves the screen alone.
\<close>

lemma terminal_scroll_eq:
  assumes "length (vga s) = 2000"
  shows "terminal_scroll lines s = (if lines <=s 0 \<or> 25 < lines then s
    else s\<lparr>vga := drop (unat lines * 80) (vga s)
      @ replicate (unat lines * 80) (vga_entry (CHR '' '') (terminal_color s))\<rparr>)"
proof (cases "lines <=s 0")
  case True
  then show ?thesis by (simp add: terminal_scroll_def)
next
  case False
  let ?b = "vga_entry (CHR '' '') (terminal_color s)"
  show ?thesis
  proof (cases "lines \<le> 25")
    case True
    then have n: "unat lines \<le> 25" by (simp add: word_le_nat_alt)
    have start: "unat (25 - lines) = 25 - unat lines" using True by (simp add: unat_sub)
    have "fill_rows (25 - unat lines) 25 ?b (drop (unat lines * 80) (vga s) @ drop (2000 - unat lines * 80) (vga s))
      = drop (unat lines * 80) (vga s) @ replicate (unat lines * 80) ?b"
      using n assms by (subst fill_rows_eq) (simp_all add: diff_mult_distrib)
    with False True n show ?thesis
      by (simp add: terminal_scroll_def Let_def move_rows_up_eq assms start not_less)
  next
    case big: False
    then have n: "25 < unat lines" by (simp add: word_le_nat_alt)
    have "unat lines < 2 ^ 31" using False by (simp add: sle_zero_iff)
    with n have "25 \<le> unat (25 - lines)" by (simp add: unat_sub_if')
    with False big n show ?thesis
      by (simp add: terminal_scroll_def Let_def move_rows_up_def fill_rows_def)
  qed
qed

subsection \<open>The cursor\<close>

lemma unat_less16: "n < 65536 \<Longrightarrow> unat (of_nat n :: u16) = n"
  by (simp add: unat_of_nat take_bit_nat_eq_self)

lemma u16_bounds:
  "(80 :: u16) \<le> x \<longleftrightarrow> 80 \<le> unat x"
  "(25 :: u16) \<le> x \<longleftrightarrow> 25 \<le> unat x"
  by (simp_all add: word_le_nat_alt)

lemma unat_inc16: "unat (x :: u16) < 65535 \<Longrightarrow> unat (x + 1) = Suc (unat x)"
  by (simp add: unat_word_ariths)

lemma unat_dec16: "0 < unat (x :: u16) \<Longrightarrow> unat (x - 1) = unat x - 1"
  by (metis One_nat_def unat_gt_0 unat_minus_one word_gt_0)

lemma unat_low_byte: "unat (ucast ((w :: u16) AND 0xFF) :: u8) = unat w mod 256"
proof -
  have "w AND 0xFF = take_bit 8 w" by (simp add: take_bit_eq_mask mask_eq_exp_minus_1)
  then show ?thesis
    by (simp add: unsigned_ucast_eq unsigned_take_bit_eq) (simp add: take_bit_eq_mod)
qed

lemma crt_outb_fields [simp]:
  "vga (crt_outb q v s) = vga s" "terminal_color (crt_outb q v s) = terminal_color s"
  "terminal_row (crt_outb q v s) = terminal_row s" "terminal_column (crt_outb q v s) = terminal_column s"
  "cursor_visible (crt_outb q v s) = cursor_visible s" "crt_out (crt_outb q v s) = crt_out s @ [(q, v)]"
  by (simp_all add: crt_outb_def)

lemma terminal_move_cursor_fields [simp]:
  "vga (terminal_move_cursor x y s) = vga s"
  "terminal_color (terminal_move_cursor x y s) = terminal_color s"
  "cursor_visible (terminal_move_cursor x y s) = cursor_visible s"
  by (simp_all add: terminal_move_cursor_def Let_def)

lemma terminal_move_cursor_at:
  assumes "unat x < 80" "unat y < 25"
  shows "terminal_row (terminal_move_cursor x y s) = y"
    "terminal_column (terminal_move_cursor x y s) = x"
    "hw_cursor (terminal_move_cursor x y s) = unat y * 80 + unat x"
proof -
  have out: "\<not> (of_nat 80 \<le> x \<or> of_nat 25 \<le> y)" using assms by (simp add: u16_bounds)
  show "terminal_row (terminal_move_cursor x y s) = y" "terminal_column (terminal_move_cursor x y s) = x"
    unfolding terminal_move_cursor_def if_not_P [OF out] by (simp_all add: Let_def)
  let ?p = "y * 80 + x"
  have p: "unat ?p = unat y * 80 + unat x"
    using assms by (simp add: unat_word_ariths)
  have low: "unat (ucast (?p AND 0xFF) :: u8) = unat ?p mod 256" by (rule unat_low_byte)
  have high: "unat (ucast (drop_bit 8 ?p AND 0xFF) :: u8) = unat ?p div 256"
    using p assms by (subst unat_low_byte) (simp add: drop_bit_eq_div unat_div)
  show "hw_cursor (terminal_move_cursor x y s) = unat y * 80 + unat x"
    unfolding hw_cursor_def terminal_move_cursor_def if_not_P [OF out]
    using p by (simp add: Let_def crt_step_def low high)
qed

lemma hw_cursor_cong: "crt_out s = crt_out t \<Longrightarrow> hw_cursor s = hw_cursor t"
  by (simp add: hw_cursor_def)

subsection \<open>Steps of the tape\<close>

lemma pos_bounds: "term_ok s \<Longrightarrow> pos s < 2000"
  by (auto simp: term_ok_def pos_def)

lemma sync_cursor_ok:
  assumes "term_ok s"
  shows "term_ok (sync_cursor s)" "screen (sync_cursor s) = screen s"
    "hw_cursor (sync_cursor s) = pos s" "terminal_color (sync_cursor s) = terminal_color s"
  using assms terminal_move_cursor_at [of "terminal_column s" "terminal_row s" s]
  by (auto simp: sync_cursor_def term_ok_def screen_def pos_def)

lemma terminal_putentryat_cell:
  assumes "term_ok s"
  shows "terminal_putentryat c col (unat (terminal_column s)) (unat (terminal_row s)) s
    = Some (s\<lparr>vga := (vga s)[pos s := vga_entry c col]\<rparr>)"
  using assms pos_bounds [OF assms] by (simp add: terminal_putentryat_def term_ok_def pos_def)

text \<open>A line feed from a row of the screen, whatever the column is.\<close>

lemma terminal_newline_step:
  assumes "length (vga s) = 2000" "unat (terminal_row s) < 25"
  shows "term_ok (terminal_newline s)" "terminal_color (terminal_newline s) = terminal_color s"
    "screen (terminal_newline s) =
      (if unat (terminal_row s) = 24
       then (drop 80 (vga s) @ replicate 80 (vga_entry (CHR '' '') (terminal_color s)), 1920)
       else (vga s, (unat (terminal_row s) + 1) * 80))"
proof -
  have row: "unat (terminal_row s + 1) = Suc (unat (terminal_row s))"
    using assms(2) by (intro unat_inc16) simp
  have "terminal_row s + 1 = 25 \<longleftrightarrow> unat (terminal_row s) = 24"
    using row by (simp add: word_unat_eq_iff)
  then have "terminal_newline s = (if unat (terminal_row s) = 24
      then s\<lparr>terminal_column := 0, terminal_row := 24,
        vga := drop 80 (vga s) @ replicate 80 (vga_entry (CHR '' '') (terminal_color s))\<rparr>
      else s\<lparr>terminal_column := 0, terminal_row := terminal_row s + 1\<rparr>)"
    using assms by (auto simp: terminal_newline_def terminal_scroll_eq sle_zero_iff)
  then show "term_ok (terminal_newline s)" "terminal_color (terminal_newline s) = terminal_color s"
    "screen (terminal_newline s) =
      (if unat (terminal_row s) = 24
       then (drop 80 (vga s) @ replicate 80 (vga_entry (CHR '' '') (terminal_color s)), 1920)
       else (vga s, (unat (terminal_row s) + 1) * 80))"
    using assms row by (auto simp: term_ok_def screen_def pos_def)
qed

lemma put_glyph_step:
  assumes ok: "term_ok s"
  shows "\<exists>t. put_glyph c s = Some t \<and> term_ok t \<and> terminal_color t = terminal_color s \<and>
    screen t = tape_put (vga_entry (CHR '' '') (terminal_color s)) (vga_entry c (terminal_color s)) (screen s)"
proof -
  let ?v = "(vga s)[pos s := vga_entry c (terminal_color s)]"
  let ?t = "s\<lparr>vga := ?v, terminal_column := terminal_column s + 1\<rparr>"
  have col: "unat (terminal_column s + 1) = Suc (unat (terminal_column s))"
    using ok by (intro unat_inc16) (simp add: term_ok_def)
  have last: "terminal_column s + 1 = 80 \<longleftrightarrow> unat (terminal_column s) = 79"
    using col by (simp add: word_unat_eq_iff)
  have put: "put_glyph c s = Some (if unat (terminal_column s) = 79 then terminal_newline ?t else ?t)"
    using last by (simp add: put_glyph_def terminal_putentryat_cell [OF ok] Let_def)
  show ?thesis
  proof (cases "unat (terminal_column s) = 79")
    case True
    have "length (vga ?t) = 2000" "unat (terminal_row ?t) < 25" using ok by (simp_all add: term_ok_def)
    note nl = terminal_newline_step [OF this]
    have "pos s = unat (terminal_row s) * 80 + 79" using True by (simp add: pos_def)
    with nl put True show ?thesis by (auto simp: tape_put_def screen_def)
  next
    case False
    with ok put col show ?thesis by (auto simp: tape_put_def screen_def pos_def term_ok_def)
  qed
qed

lemma terminal_backspace_step:
  assumes ok: "term_ok s"
  shows "\<exists>t. terminal_backspace s = Some t \<and> term_ok t \<and> terminal_color t = terminal_color s \<and>
    screen t = (if pos s = 0 then screen s
      else ((vga s)[pos s - 1 := vga_entry (CHR '' '') (terminal_color s)], pos s - 1))"
proof (cases "pos s = 0")
  case True
  then have "terminal_column s = 0" "terminal_row s = 0" by (simp_all add: pos_def unat_eq_zero)
  with True ok show ?thesis by (simp add: terminal_backspace_def)
next
  case False
  define u where "u = (if 0 < terminal_column s then s\<lparr>terminal_column := terminal_column s - 1\<rparr>
    else s\<lparr>terminal_row := terminal_row s - 1, terminal_column := 79\<rparr>)"
  have some: "0 < terminal_column s \<or> 0 < terminal_row s"
    using False by (auto simp: pos_def word_gt_0)
  have dec: "0 < terminal_column s \<Longrightarrow> unat (terminal_column s - 1) = unat (terminal_column s) - 1"
    "0 < terminal_row s \<Longrightarrow> unat (terminal_row s - 1) = unat (terminal_row s) - 1"
    by (simp_all add: unat_dec16 word_less_nat_alt)
  have u: "term_ok u" "pos u = pos s - 1" "vga u = vga s" "terminal_color u = terminal_color s"
    using ok some dec by (auto simp: term_ok_def pos_def word_less_nat_alt u_def)
  let ?w = "u\<lparr>vga := (vga s)[pos s - 1 := vga_entry (CHR '' '') (terminal_color s)]\<rparr>"
  have "terminal_backspace s = terminal_putentryat (CHR '' '') (terminal_color u)
      (unat (terminal_column u)) (unat (terminal_row u)) u
      \<bind> (\<lambda>s2. Some (terminal_move_cursor (terminal_column u) (terminal_row u) s2))"
    using some by (simp add: terminal_backspace_def Let_def u_def)
  then have "terminal_backspace s = Some (sync_cursor ?w)"
    using u(2-4) by (simp add: terminal_putentryat_cell [OF u(1)] sync_cursor_def)
  moreover have "term_ok ?w" "screen ?w = ((vga s)[pos s - 1 := vga_entry (CHR '' '') (terminal_color s)], pos s - 1)"
    using u by (auto simp: term_ok_def screen_def pos_def)
  ultimately show ?thesis using sync_cursor_ok [of ?w] u(4) False by auto
qed

lemma putchar_plain_step:
  assumes ok: "term_ok s" and c: "c \<noteq> CHR 0x09"
  shows "\<exists>t. terminal_putchar c s = Some t \<and> term_ok t \<and> terminal_color t = terminal_color s \<and>
    screen t = tape_char (terminal_color s) c (screen s) \<and> hw_cursor t = pos t"
proof -
  let ?r = "if c = CHR 0x0A then Some (terminal_newline s)
    else if c = CHR 0x0D then Some (s\<lparr>terminal_column := 0\<rparr>)
    else if c = CHR 0x08 then terminal_backspace s else put_glyph c s"
  have "\<exists>u. ?r = Some u \<and> term_ok u \<and> terminal_color u = terminal_color s \<and>
    screen u = tape_char (terminal_color s) c (screen s)"
  proof -
    consider "c = CHR 0x0A" | "c = CHR 0x0D" | "c = CHR 0x08"
      | "c \<noteq> CHR 0x0A" "c \<noteq> CHR 0x0D" "c \<noteq> CHR 0x08" by blast
    then show ?thesis
    proof cases
      case 1
      have "length (vga s) = 2000" "unat (terminal_row s) < 25" "pos s div 80 = unat (terminal_row s)"
        using ok by (simp_all add: term_ok_def pos_def)
      with terminal_newline_step [of s] 1 show ?thesis
        by (auto simp: tape_char_def tape_newline_def screen_def)
    next
      case 2
      with ok show ?thesis by (auto simp: tape_char_def screen_def pos_def term_ok_def)
    next
      case 3
      with terminal_backspace_step [OF ok] show ?thesis by (auto simp: tape_char_def screen_def)
    next
      case 4
      with put_glyph_step [OF ok, of c] c show ?thesis by (auto simp: tape_char_def Let_def)
    qed
  qed
  then obtain u where u: "?r = Some u" "term_ok u" "terminal_color u = terminal_color s"
    "screen u = tape_char (terminal_color s) c (screen s)" by blast
  have "terminal_putchar c s = Some (sync_cursor u)"
    using u(1) c by (subst terminal_putchar.simps) (auto split: if_splits)
  with sync_cursor_ok [OF u(2)] u(3,4) show ?thesis by (auto simp: screen_def)
qed

text \<open>A character that is no tab: the step that \<^verbatim>\<open>terminal_tab\<close> repeats.\<close>

interpretation space: simulation "\<lambda>_ :: unit. terminal_putchar (CHR '' '')"
  "\<lambda>s. term_ok s \<and> terminal_color s = col" screen "\<lambda>_. tape_char col (CHR '' '')" "\<lambda>s. hw_cursor s = pos s"
  for col
  by unfold_locales (use putchar_plain_step [where c = "CHR '' ''"] in auto)

lemma terminal_putchar_step:
  assumes ok: "term_ok s"
  shows "\<exists>t. terminal_putchar c s = Some t \<and> term_ok t \<and> terminal_color t = terminal_color s \<and>
    screen t = tape_char (terminal_color s) c (screen s) \<and> hw_cursor t = pos t"
proof (cases "c = CHR 0x09")
  case False
  with putchar_plain_step [OF ok] show ?thesis by blast
next
  case True
  obtain u where u: "iter_opt 4 (terminal_putchar (CHR '' '')) s = Some u" "term_ok u"
    "terminal_color u = terminal_color s" "screen u = tape_char (terminal_color s) c (screen s)"
    using space.repeat_sim [of s "terminal_color s" 4] ok True by (auto simp: tape_char_def Let_def)
  then have "terminal_putchar c s = Some (sync_cursor u)"
    using True by (subst terminal_putchar.simps) (simp add: terminal_tab.simps)
  with sync_cursor_ok [OF u(2)] u(3,4) show ?thesis by (auto simp: screen_def)
qed

interpretation tape: simulation terminal_putchar "\<lambda>s. term_ok s \<and> terminal_color s = col"
  screen "tape_char col" "\<lambda>s. hw_cursor s = pos s"
  for col
  by unfold_locales (use terminal_putchar_step in auto)

lemma terminal_write_step:
  "term_ok s \<Longrightarrow> \<exists>t. terminal_write cs s = Some t \<and> term_ok t \<and> terminal_color t = terminal_color s \<and>
    screen t = fold (tape_char (terminal_color s)) cs (screen s) \<and> (cs \<noteq> [] \<longrightarrow> hw_cursor t = pos t)"
  using tape.run_sim [of s "terminal_color s" cs] by (auto simp: terminal_write_def)

lemma terminal_write_append:
  "terminal_write (xs @ ys) s = terminal_write xs s \<bind> terminal_write ys"
  unfolding terminal_write_def by (simp add: fold_opt_append)

section \<open>What is on the screen\<close>

text \<open>The cells before the cursor, and printable text: no character that moves the cursor.\<close>

definition before_cursor :: "kterm \<Rightarrow> u16 list" where
  "before_cursor s = take (pos s) (vga s)"

definition printable :: "char \<Rightarrow> bool" where
  "printable c \<longleftrightarrow> c \<notin> {NUL, CHR 0x08, CHR 0x09, CHR 0x0A, CHR 0x0D}"

lemma tape_put_before:
  assumes "length cs = 2000" "p < 2000"
  shows "suffix (take (snd (tape_put b e (cs, p))) (fst (tape_put b e (cs, p)))) (take p cs @ [e])"
    "min 1920 (Suc p) \<le> snd (tape_put b e (cs, p))"
    "length (fst (tape_put b e (cs, p))) = 2000" "snd (tape_put b e (cs, p)) < 2000"
proof -
  have t: "take (Suc p) (cs[p := e]) = take p cs @ [e]"
    using assms by (simp add: take_Suc_conv_app_nth)
  show "suffix (take (snd (tape_put b e (cs, p))) (fst (tape_put b e (cs, p)))) (take p cs @ [e])"
  proof (cases "p = 1999")
    case True
    then have tk: "take 1920 (drop 80 (cs[p := e]) @ replicate 80 b) = drop 80 (take p cs @ [e])"
      using assms True t by simp
    have e: "tape_put b e (cs, p) = (drop 80 (cs[p := e]) @ replicate 80 b, 1920)"
      using True by (simp add: tape_put_def)
    show ?thesis unfolding e fst_conv snd_conv tk by (rule suffix_drop)
  next
    case False
    with t show ?thesis by (simp add: tape_put_def)
  qed
  show "min 1920 (Suc p) \<le> snd (tape_put b e (cs, p))"
    "length (fst (tape_put b e (cs, p))) = 2000" "snd (tape_put b e (cs, p)) < 2000"
    using assms by (auto simp: tape_put_def)
qed

lemma tape_text:
  assumes "length cs = 2000" "p < 2000" "\<forall>c \<in> set msg. printable c"
  shows "\<exists>cs' p'. fold (tape_char col) msg (cs, p) = (cs', p') \<and> length cs' = 2000 \<and> p' < 2000 \<and>
    suffix (take p' cs') (take p cs @ map (\<lambda>c. vga_entry c col) msg) \<and>
    min 1920 (p + length msg) \<le> p'"
  using assms
proof (induction msg rule: rev_induct)
  case Nil
  then show ?case by simp
next
  case (snoc c msg)
  then obtain cs' p' where IH: "fold (tape_char col) msg (cs, p) = (cs', p')" "length cs' = 2000"
    "p' < 2000" "suffix (take p' cs') (take p cs @ map (\<lambda>c. vga_entry c col) msg)"
    "min 1920 (p + length msg) \<le> p'" by auto
  let ?b = "vga_entry (CHR '' '') col"
  have step: "tape_char col c = tape_put ?b (vga_entry c col)"
    using snoc.prems by (auto simp: tape_char_def printable_def Let_def)
  note put = tape_put_before [OF IH(2,3), of ?b "vga_entry c col"]
  have "suffix (take p' cs' @ [vga_entry c col]) ((take p cs @ map (\<lambda>c. vga_entry c col) msg) @ [vga_entry c col])"
    using IH(4) by (simp only: snoc_suffix_snoc simp_thms)
  with put(1) have "suffix (take (snd (tape_put ?b (vga_entry c col) (cs', p')))
      (fst (tape_put ?b (vga_entry c col) (cs', p'))))
    ((take p cs @ map (\<lambda>c. vga_entry c col) msg) @ [vga_entry c col])"
    by (rule suffix_order.trans)
  with put(2-) IH step show ?case by (cases "tape_put ?b (vga_entry c col) (cs', p')") auto
qed

section \<open>Numbers on the screen\<close>

text \<open>The digits of a number in a base, most significant first.\<close>

fun num_str :: "string \<Rightarrow> nat \<Rightarrow> nat \<Rightarrow> string" where
  "num_str ds base n =
     (if n < base \<or> base \<le> 1 then [ds ! n] else num_str ds base (n div base) @ [ds ! (n mod base)])"

declare num_str.simps [simp del]

definition hex_str :: "nat \<Rightarrow> string" where
  "hex_str n = num_str hex_digits 16 n"

text \<open>What a reader makes of digits.\<close>

definition read_digits :: "nat \<Rightarrow> (char \<Rightarrow> nat) \<Rightarrow> string \<Rightarrow> nat" where
  "read_digits base val cs = fold (\<lambda>c v. v * base + val c) cs 0"

definition hex_val :: "char \<Rightarrow> nat" where
  "hex_val c = (if of_char c < (58 :: nat) then of_char c - 48 else of_char c - 55)"

lemma read_num_str:
  "1 < base \<Longrightarrow> (\<And>d. d < base \<Longrightarrow> val (ds ! d) = d) \<Longrightarrow>
    read_digits base val (num_str ds base n) = n"
proof (induction ds base n rule: num_str.induct)
  case (1 ds base n)
  show ?case
  proof (cases "n < base")
    case True
    with "1.prems" show ?thesis by (subst num_str.simps) (simp add: read_digits_def)
  next
    case False
    with "1.prems" "1.IH" have "read_digits base val (num_str ds base (n div base)) = n div base" by simp
    with False "1.prems" show ?thesis
      by (subst num_str.simps) (simp add: read_digits_def)
  qed
qed

lemma take_eq_map_nth: "i \<le> length buf \<Longrightarrow> take i buf = map ((!) buf) [0..<i]"
  by (intro nth_equalityI) auto

lemma num_str_decimal: "num_str decimal_digits 10 n = dec_str n"
proof (induction n rule: dec_str.induct)
  case (1 n)
  have "\<forall>d \<in> set [0..<10]. decimal_digits ! d = digit d" by code_simp
  then have "decimal_digits ! d = digit d" if "d < 10" for d using that by simp
  with 1 show ?case by (subst num_str.simps, subst dec_str.simps) simp
qed

lemma store_digits_eq:
  assumes "1 < base" "0 < n" "\<And>j. j < i + length (num_str ds base n) \<Longrightarrow> room j"
    "i + length (num_str ds base n) \<le> length buf"
  shows "store_digits room ds base buf i n = Some (take i buf @ rev (num_str ds base n)
    @ drop (i + length (num_str ds base n)) buf, i + length (num_str ds base n))"
  using assms
proof (induction room ds base buf i n rule: store_digits.induct)
  case (1 room ds base buf i n)
  have i: "i < length buf" "room i"
    using "1.prems"(3,4) by (subst (asm) (1 2) num_str.simps, force split: if_splits)+
  let ?b = "buf[i := ds ! (n mod base)]"
  have tk: "take (Suc i) ?b = take i buf @ [ds ! (n mod base)]"
    using i by (simp add: take_Suc_conv_app_nth)
  have go: "store_digits room ds base buf i n = store_digits room ds base ?b (Suc i) (n div base)"
    using i "1.prems" by (subst store_digits.simps) simp
  show ?case
  proof (cases "n < base")
    case True
    then have "store_digits room ds base ?b (Suc i) (n div base) = Some (?b, Suc i)"
      by (subst store_digits.simps) simp
    with go True i show ?thesis
      by (subst (1 2 3) num_str.simps) (simp add: upd_conv_take_nth_drop)
  next
    case False
    then have d: "num_str ds base n = num_str ds base (n div base) @ [ds ! (n mod base)]"
      using "1.prems"(1) by (subst num_str.simps) simp
    have "store_digits room ds base ?b (Suc i) (n div base) = Some (take (Suc i) ?b
      @ rev (num_str ds base (n div base)) @ drop (Suc i + length (num_str ds base (n div base))) ?b,
      Suc i + length (num_str ds base (n div base)))"
      using "1.prems" i False d by (intro "1.IH") (simp_all add: div_greater_zero_iff)
    then show ?thesis using go by (simp add: d tk)
  qed
qed

lemma print_back_eq: "i \<le> length buf \<Longrightarrow> print_back buf i s = terminal_write (rev (take i buf)) s"
proof -
  assume i: "i \<le> length buf"
  have "print_back buf i s = fold_opt terminal_putchar (map ((!) buf) (rev [0..<i])) s"
    unfolding print_back_def by (simp only: fold_opt_map comp_def)
  also have "map ((!) buf) (rev [0..<i]) = rev (take i buf)"
    using i by (simp only: take_eq_map_nth rev_map)
  finally show ?thesis by (simp add: terminal_write_def)
qed

lemma length_num_str: "1 < base \<Longrightarrow> 0 < k \<Longrightarrow> n < base ^ k \<Longrightarrow> length (num_str ds base n) \<le> k"
proof (induction k arbitrary: n)
  case 0
  then show ?case by simp
next
  case (Suc k)
  show ?case
  proof (cases "n < base")
    case True
    then show ?thesis by (subst num_str.simps) simp
  next
    case False
    with Suc.prems have "0 < k" by (cases k) auto
    with Suc have "length (num_str ds base (n div base)) \<le> k" by (simp add: div_less_iff_less_mult mult.commute)
    with False Suc.prems show ?thesis by (subst num_str.simps) simp
  qed
qed

lemma num_str_digit: "n < base \<Longrightarrow> num_str ds base n = [ds ! n]"
  by (subst num_str.simps) simp

lemma print_digits:
  assumes "1 < base" "0 < n" "n < base ^ k" "0 < k" "k \<le> length buf" "\<And>j. j < k \<Longrightarrow> room j"
  shows "store_digits room ds base buf 0 n \<bind> (\<lambda>(b, i). print_back b i s) = terminal_write (num_str ds base n) s"
proof -
  have "length (num_str ds base n) \<le> k" using assms by (intro length_num_str)
  with assms have "store_digits room ds base buf 0 n = Some (take 0 buf @ rev (num_str ds base n)
      @ drop (0 + length (num_str ds base n)) buf, 0 + length (num_str ds base n))"
    by (intro store_digits_eq) auto
  then show ?thesis
    using \<open>length (num_str ds base n) \<le> k\<close> assms by (simp add: print_back_eq)
qed

lemma terminal_write_single: "terminal_write [c] s = terminal_putchar c s"
  by (cases "terminal_putchar c s") (simp_all add: terminal_write_def)

lemma dec_str_0: "dec_str 0 = ''0''"
  unfolding num_str_decimal [symmetric] by (simp add: num_str_digit decimal_digits_def)

lemma print_decimal:
  assumes "v \<noteq> 0"
  shows "store_digits (\<lambda>_. True) decimal_digits 10 (replicate 12 NUL) 0 (unat (v :: u32))
    \<bind> (\<lambda>(b, i). print_back b i s) = terminal_write (dec_str (unat v)) s"
proof -
  have "0 < unat v" "unat v < 10 ^ 12" using assms unat_less32 [of v] by (auto simp: unat_gt_0)
  then show ?thesis
    by (subst print_digits [where k = 12]) (simp_all add: num_str_decimal)
qed

lemma terminal_print_uint_eq: "terminal_print_uint v s = terminal_write (dec_str (unat v)) s"
  using print_decimal [of v s]
  by (simp add: terminal_print_uint_def dec_str_0 terminal_write_single)

definition int_str :: "int \<Rightarrow> string" where
  "int_str i = (if i < 0 then ''-'' else []) @ dec_str (nat \<bar>i\<bar>)"

lemma terminal_print_int_eq:
  "terminal_print_int v s =
    (if v = 0x80000000 then None else terminal_write (int_str (sint v)) s)"
proof (cases "v <s 0")
  case True
  have n: "2 ^ 31 \<le> unat v" "unat v < 2 ^ 32" using True unat_less32 [of v] by (simp_all add: sless_zero_iff)
  then have v: "v \<noteq> 0" "- v \<noteq> 0" by (auto simp: unat_eq_zero)
  have "unat (0 - v) = 2 ^ 32 - unat v" using n by (subst unat_sub_if') auto
  moreover have "nat \<bar>int u - 2 ^ 32\<bar> = 2 ^ 32 - u" if "u < 2 ^ 32" for u :: nat
    using that by simp
  then have "nat \<bar>sint v\<bar> = 2 ^ 32 - unat v" using True n by (simp only: sint_cases if_True)
  ultimately have "dec_str (nat \<bar>sint v\<bar>) = dec_str (unat (- v))" by simp
  moreover have "sint v < 0" using True by (simp add: word_sless_alt)
  ultimately show ?thesis
    using True v print_decimal [OF v(2)]
    by (auto simp: terminal_print_int_def int_str_def terminal_write_def split: bind_splits)
next
  case False
  then have "v \<noteq> 0x80000000" "0 \<le> sint v" "nat \<bar>sint v\<bar> = unat v"
    by (auto simp: sint_cases sless_zero_iff)
  then show ?thesis
    using False print_decimal [of v s]
    by (auto simp: terminal_print_int_def int_str_def dec_str_0 terminal_write_single)
qed

lemma terminal_print_hex_eq: "terminal_print_hex v s = terminal_write (''0x'' @ hex_str (unat v)) s"
proof -
  have zero: "hex_str 0 = ''0''" by (simp add: hex_str_def num_str_digit hex_digits_def)
  have digits: "store_digits (\<lambda>i. i < 8) hex_digits 16 (replicate 9 NUL) 0 (unat v)
      \<bind> (\<lambda>(b, i). print_back b i t) = terminal_write (hex_str (unat v)) t" if "v \<noteq> 0" for t
  proof -
    have "0 < unat v" "unat v < 16 ^ 8" using that unat_less32 [of v] by (auto simp: unat_gt_0)
    then show ?thesis unfolding hex_str_def by (subst print_digits [where k = 8]) simp_all
  qed
  have pre: "terminal_writestring ''0x'' t = terminal_write ''0x'' t" for t
    by (simp add: terminal_writestring_def cstr_def)
  show ?thesis
    using digits unfolding terminal_print_hex_def pre terminal_write_append
    by (cases "terminal_write ''0x'' s") (auto simp: zero terminal_write_single)
qed

section \<open>Clearing parts of the screen\<close>

lemma put_cells_eq:
  "\<forall>x \<in> set xs. y * 80 + x < length (vga s) \<Longrightarrow> put_cells c xs y s
    = Some (s\<lparr>vga := fold (\<lambda>x cells. cells[y * 80 + x := vga_entry c (terminal_color s)]) xs (vga s)\<rparr>)"
proof (induction xs arbitrary: s)
  case Nil
  then show ?case by (simp add: put_cells_def)
next
  case (Cons x xs)
  let ?t = "s\<lparr>vga := (vga s)[y * 80 + x := vga_entry c (terminal_color s)]\<rparr>"
  have "put_cells c (x # xs) y s = put_cells c xs y ?t"
    using Cons.prems by (simp add: put_cells_def terminal_putentryat_def)
  with Cons.IH [of ?t] Cons.prems show ?case by simp
qed

lemma put_cells_row:
  assumes "length (vga s) = 2000" "y < 25" "a \<le> b" "b \<le> 80"
  shows "put_cells c [a..<b] y s = Some (s\<lparr>vga := take (y * 80 + a) (vga s)
    @ replicate (b - a) (vga_entry c (terminal_color s)) @ drop (y * 80 + b) (vga s)\<rparr>)"
proof -
  have "[y * 80 + a..<y * 80 + b] = map (\<lambda>x. x + y * 80) [a..<b]"
    by (rule nth_equalityI) auto
  then have "fold (\<lambda>x cells. cells[y * 80 + x := e]) [a..<b] cs
      = fold (\<lambda>i cells. cells[i := e]) [y * 80 + a..<y * 80 + b] cs" for e and cs :: "u16 list"
    by (simp add: fold_map comp_def add.commute)
  with assms show ?thesis by (subst put_cells_eq) (auto simp: fold_fill)
qed

lemma clear_lines_eq:
  assumes "a \<le> b" "b \<le> 25" "length (vga s) = 2000"
  shows "clear_lines [a..<b] s = Some (s\<lparr>vga := take (a * 80) (vga s)
    @ replicate ((b - a) * 80) (vga_entry (CHR '' '') (terminal_color s)) @ drop (b * 80) (vga s)\<rparr>)"
  using assms
proof (induction b)
  case 0
  then show ?case by (simp add: clear_lines_def)
next
  case (Suc b)
  show ?case
  proof (cases "a \<le> b")
    case True
    let ?e = "vga_entry (CHR '' '') (terminal_color s)"
    let ?v = "take (a * 80) (vga s) @ replicate ((b - a) * 80) ?e @ drop (b * 80) (vga s)"
    have len: "length ?v = 2000" using Suc.prems True by (simp add: diff_mult_distrib)
    have "clear_lines [a..<Suc b] s = terminal_clear_line (of_nat b) (s\<lparr>vga := ?v\<rparr>)"
      using Suc True by (simp add: clear_lines_def fold_opt_append) (simp split: bind_splits)
    moreover have "terminal_clear_line (of_nat b) t = put_cells (CHR '' '') [0..<80] b t" for t
    proof -
      have "unat (of_nat b :: u16) = b" using Suc.prems by (intro unat_less16) simp
      then show ?thesis using Suc.prems by (simp add: terminal_clear_line_def u16_bounds)
    qed
    moreover have "put_cells (CHR '' '') [0..<80] b (s\<lparr>vga := ?v\<rparr>)
      = Some (s\<lparr>vga := take (b * 80) ?v @ replicate 80 ?e @ drop (b * 80 + 80) ?v\<rparr>)"
      using Suc.prems len by (subst put_cells_row) simp_all
    moreover have "take (b * 80) ?v @ replicate 80 ?e @ drop (b * 80 + 80) ?v
      = take (a * 80) (vga s) @ replicate ((Suc b - a) * 80) ?e @ drop (Suc b * 80) (vga s)"
    proof -
      have "(b - a) * 80 + a * 80 = b * 80" using True by (simp add: diff_mult_distrib)
      moreover have "replicate ((Suc b - a) * 80) ?e = replicate ((b - a) * 80) ?e @ replicate 80 ?e"
        using True by (simp add: Suc_diff_le add.commute flip: replicate_add)
      ultimately show ?thesis using Suc.prems True by (simp add: add.commute)
    qed
    ultimately show ?thesis by simp
  next
    case False
    with Suc.prems have "a = Suc b" by simp
    then show ?thesis by (simp add: clear_lines_def)
  qed
qed

text \<open>
  Clearing from the cursor blanks the cells from the cursor on and clearing to the
  cursor the cells up to and including it; the other cells, the cursor and the colour stay.
\<close>

theorem clear_around_cursor:
  assumes "term_ok s"
  shows "terminal_clear_screen_from_cursor s = Some (s\<lparr>vga := take (pos s) (vga s)
      @ replicate (2000 - pos s) (vga_entry (CHR '' '') (terminal_color s))\<rparr>) \<and>
    terminal_clear_screen_to_cursor s = Some (s\<lparr>vga :=
      replicate (Suc (pos s)) (vga_entry (CHR '' '') (terminal_color s)) @ drop (Suc (pos s)) (vga s)\<rparr>)"
proof -
  let ?e = "vga_entry (CHR '' '') (terminal_color s)"
  let ?r = "unat (terminal_row s)" and ?c = "unat (terminal_column s)"
  have ok: "length (vga s) = 2000" "?r < 25" "?c < 80" "pos s = ?r * 80 + ?c"
    using assms by (simp_all add: term_ok_def pos_def)
  let ?v = "take (?r * 80 + ?c) (vga s) @ replicate (80 - ?c) ?e @ drop (?r * 80 + 80) (vga s)"
  have "terminal_clear_screen_from_cursor s = clear_lines [Suc ?r..<25] (s\<lparr>vga := ?v\<rparr>)"
    unfolding terminal_clear_screen_from_cursor_def
    using ok by (subst put_cells_row) simp_all
  also have "\<dots> = Some (s\<lparr>vga := take (Suc ?r * 80) ?v @ replicate ((25 - Suc ?r) * 80) ?e @ drop (25 * 80) ?v\<rparr>)"
    using ok by (subst clear_lines_eq) auto
  also have "take (Suc ?r * 80) ?v @ replicate ((25 - Suc ?r) * 80) ?e @ drop (25 * 80) ?v
      = take (pos s) (vga s) @ replicate (2000 - pos s) ?e"
  proof -
    have "(80 - ?c) + (25 - Suc ?r) * 80 = 2000 - pos s" using ok by (simp add: diff_mult_distrib)
    then have "replicate (80 - ?c) ?e @ replicate ((25 - Suc ?r) * 80) ?e = replicate (2000 - pos s) ?e"
      by (simp only: replicate_add [symmetric])
    then show ?thesis using ok by (simp add: diff_mult_distrib)
  qed
  finally have tail: "terminal_clear_screen_from_cursor s
    = Some (s\<lparr>vga := take (pos s) (vga s) @ replicate (2000 - pos s) ?e\<rparr>)" .
  let ?w = "replicate (?r * 80) ?e @ drop (?r * 80) (vga s)"
  have "terminal_clear_screen_to_cursor s = put_cells (CHR '' '') [0..<Suc ?c] ?r (s\<lparr>vga := ?w\<rparr>)"
    unfolding terminal_clear_screen_to_cursor_def
    using ok by (subst clear_lines_eq) auto
  also have "\<dots> = Some (s\<lparr>vga := take (?r * 80 + 0) ?w @ replicate (Suc ?c - 0) ?e @ drop (?r * 80 + Suc ?c) ?w\<rparr>)"
    using ok by (subst put_cells_row) auto
  also have "take (?r * 80 + 0) ?w @ replicate (Suc ?c - 0) ?e @ drop (?r * 80 + Suc ?c) ?w
      = replicate (Suc (pos s)) ?e @ drop (Suc (pos s)) (vga s)"
  proof -
    have "?r * 80 + Suc ?c = Suc (pos s)" using ok by simp
    then have rep: "replicate (?r * 80) ?e @ replicate (Suc ?c) ?e = replicate (Suc (pos s)) ?e"
      by (simp only: replicate_add [symmetric])
    have "take (?r * 80 + 0) ?w = replicate (?r * 80) ?e" "drop (?r * 80 + Suc ?c) ?w = drop (Suc (pos s)) (vga s)"
      using ok by (simp_all add: add.commute)
    then show ?thesis by (simp only: rep minus_nat.diff_0 append_assoc [symmetric])
  qed
  finally show ?thesis using tail by blast
qed

section \<open>Reading a line\<close>

lemma gets_loop_hangs:
  assumes "gets_loop sz buf i s = Some r" "i < sz - 1"
  shows False
  using assms(2)
proof (induct sz buf i s r rule: gets_loop.raw_induct)
  case (1 f sz buf i s r)
  have "gets_step buf i s = Some (False, buf, i, s)"
    by (simp add: gets_step_def terminal_getchar_def)
  with 1(2-) have "f sz buf i s = Some r" by simp
  then show ?case using 1(3) by (rule 1(1))
qed (rule assms(1))

lemma terminal_gets_eq:
  "terminal_gets buf sz s = (if sz = 0 then Some (buf, s)
    else if sz = 1 then map_option (\<lambda>b. (b, s)) (arr_set buf 0 NUL) else None)"
proof -
  have one: "gets_loop 1 buf 0 s = Some (buf, 0, s)" by (subst gets_loop.simps) simp
  have "gets_loop sz buf 0 s = None" if "1 < sz"
    using gets_loop_hangs [of sz buf 0 s] that by (cases "gets_loop sz buf 0 s") auto
  with one show ?thesis
    by (cases "arr_set buf 0 NUL") (auto simp: terminal_gets_def)
qed

section \<open>The output of the other components\<close>

text \<open>The calls other components make, carried out on the terminal.\<close>

primrec run_call :: "con_call \<Rightarrow> kterm \<Rightarrow> kterm option" where
  "run_call (Puts m) s = terminal_writestring m s"
| "run_call (Putc c) s = terminal_putchar c s"
| "run_call (Print_int v) s = terminal_print_int v s"
| "run_call (Print_hex v) s = terminal_print_hex v s"
| "run_call (Printf f) s = terminal_printf f s"
| "run_call (Set_fg col) s = Some (terminal_set_fg_color (color_code col) s)"
| "run_call Reset_color s = Some (terminal_reset_color s)"
| "run_call Clear s = Some (terminal_clear s)"

definition spec_text :: "char \<Rightarrow> string" where
  "spec_text d =
     (if d = CHR ''%'' then ''%''
      else if d \<in> {CHR ''d'', CHR ''i''} then ''(int)''
      else if d = CHR ''u'' then ''(uint)''
      else if d \<in> {CHR ''x'', CHR ''X''} then ''(hex)''
      else if d = CHR ''s'' then ''(string)''
      else if d = CHR ''c'' then ''(char)''
      else [CHR ''%'', d])"

fun printf_text :: "string \<Rightarrow> string" where
  "printf_text [] = []"
| "printf_text (c # cs) =
     (if c \<noteq> CHR ''%'' then c # printf_text cs
      else (case cs of [] \<Rightarrow> [] | d # ds \<Rightarrow> spec_text d @ printf_text ds))"

lemma terminal_writestring_eq: "NUL \<notin> set m \<Longrightarrow> terminal_writestring m s = terminal_write m s"
proof -
  assume "NUL \<notin> set m"
  then have "takeWhile (\<lambda>c. c \<noteq> NUL) m = m" by (auto simp: takeWhile_eq_all_conv)
  then show ?thesis by (simp only: terminal_writestring_def cstr_def)
qed

lemma terminal_write_simps:
  "terminal_write (x # xs) s = terminal_putchar x s \<bind> terminal_write xs"
  "terminal_write [] s = Some s"
  by (simp_all add: terminal_write_def)

lemma printf_spec_eq: "printf_spec d s = terminal_write (spec_text d) s"
proof -
  have two: "terminal_write [CHR ''%'', d] s = terminal_putchar (CHR ''%'') s \<bind> terminal_putchar d"
    by (cases "terminal_putchar (CHR ''%'') s")
      (simp_all add: terminal_write_simps(1) [of "CHR ''%''"] terminal_write_single)
  have "terminal_writestring ''(int)'' s = terminal_write ''(int)'' s"
    "terminal_writestring ''(uint)'' s = terminal_write ''(uint)'' s"
    "terminal_writestring ''(hex)'' s = terminal_write ''(hex)'' s"
    "terminal_writestring ''(string)'' s = terminal_write ''(string)'' s"
    "terminal_writestring ''(char)'' s = terminal_write ''(char)'' s"
    by (simp_all add: terminal_writestring_eq)
  then show ?thesis
    by (simp only: printf_spec_def spec_text_def terminal_write_single two if_distrib [of "\<lambda>m. terminal_write m s"]
        insert_iff empty_iff simp_thms cong: if_cong)
qed

lemma printf_from_eq: "printf_from f s = terminal_write (printf_text f) s"
proof (induction f s rule: printf_from.induct)
  case (1 s)
  then show ?case by (simp add: terminal_write_simps)
next
  case (2 c cs s)
  show ?case
  proof (cases "c = CHR ''%''")
    case False
    with "2.IH"(1) show ?thesis
      by (cases "terminal_putchar c s") (simp_all add: terminal_write_simps)
  next
    case True
    show ?thesis
    proof (cases cs)
      case Nil
      with True show ?thesis by (simp add: terminal_write_simps)
    next
      case (Cons d ds)
      with "2.IH"(2) [OF _ Cons] True show ?thesis
        by (cases "printf_spec d s") (simp_all add: terminal_write_append flip: printf_spec_eq)
    qed
  qed
qed

definition call_text :: "con_call \<Rightarrow> string" where
  "call_text c = (case c of
     Puts m \<Rightarrow> cstr m
   | Putc ch \<Rightarrow> [ch]
   | Print_int v \<Rightarrow> int_str (sint v)
   | Print_hex v \<Rightarrow> ''0x'' @ hex_str (unat v)
   | Printf f \<Rightarrow> printf_text (cstr f)
   | _ \<Rightarrow> [])"

definition prints_text :: "con_call \<Rightarrow> bool" where
  "prints_text c \<longleftrightarrow> c \<noteq> Print_int 0x80000000 \<and> c \<noteq> Reset_color \<and> c \<noteq> Clear \<and> (\<forall>col. c \<noteq> Set_fg col)"

lemma run_call_text: "prints_text c \<Longrightarrow> run_call c s = terminal_write (call_text c) s"
  by (cases c) (auto simp: prints_text_def call_text_def terminal_writestring_def terminal_write_single
      terminal_print_int_eq terminal_print_hex_eq terminal_printf_def printf_from_eq)

lemma run_calls_text:
  "\<forall>c \<in> set cs. prints_text c \<Longrightarrow> fold_opt run_call cs s = terminal_write (concat (map call_text cs)) s"
proof (induction cs arbitrary: s)
  case Nil
  then show ?case by (simp add: terminal_write_def)
next
  case (Cons c cs)
  then show ?case by (cases "terminal_write (call_text c) s") (simp_all add: run_call_text terminal_write_append)
qed

lemma cleared_screen:
  assumes "length (vga s) = 2000"
  shows "vga (terminal_clear s) = replicate 2000 (vga_entry (CHR '' '') (terminal_color s))"
    "vga (terminal_initialize s) = replicate 2000 (vga_entry (CHR '' '') 7)"
  using assms
  by (simp_all add: terminal_clear_def terminal_initialize_def fill_rows_eq Let_def vga_entry_color_def
      terminal_set_cursor_visible_def)

lemma terminal_clear_ok:
  assumes "length (vga s) = 2000"
  shows "term_ok (terminal_clear s)" "hw_cursor (terminal_clear s) = pos (terminal_clear s)"
    "term_ok (terminal_initialize s)" "hw_cursor (terminal_initialize s) = pos (terminal_initialize s)"
  using cleared_screen [OF assms]
  by (simp_all add: term_ok_def pos_def terminal_clear_def terminal_initialize_def Let_def
      terminal_move_cursor_at)

text \<open>
  C17: after \<^verbatim>\<open>terminal_initialize\<close>, whatever sequence of calls the components make (only the
  least \<^verbatim>\<open>int\<close> cannot be printed), no cell outside the text page is written, the cursor stays
  on the screen and the CRT controller shows it where the driver has it.
\<close>

theorem console_calls_on_screen:
  assumes "length (vga s) = 2000" "Print_int 0x80000000 \<notin> set calls"
  shows "\<exists>t. fold_opt run_call calls (terminal_initialize s) = Some t \<and> term_ok t \<and> hw_cursor t = pos t"
proof -
  have "\<exists>t. fold_opt run_call calls s = Some t \<and> term_ok t \<and> hw_cursor t = pos t"
    if "term_ok s" "hw_cursor s = pos s" "Print_int 0x80000000 \<notin> set calls" for s calls
    using that
  proof (induction calls arbitrary: s)
    case Nil
    then show ?case by simp
  next
    case (Cons c cs)
    have "\<exists>t. run_call c s = Some t \<and> term_ok t \<and> hw_cursor t = pos t"
    proof (cases "prints_text c")
      case True
      with Cons.prems terminal_write_step [of s "call_text c"] show ?thesis
        by (cases "call_text c") (auto simp: run_call_text terminal_write_def)
    next
      case False
      with Cons.prems(3) consider col where "c = Set_fg col" | "c = Reset_color" | "c = Clear"
        by (auto simp: prints_text_def)
      then show ?thesis
        using Cons.prems terminal_clear_ok [of s]
        by cases (auto simp: terminal_set_fg_color_def terminal_reset_color_def term_ok_def pos_def
            hw_cursor_def Let_def)
    qed
    with Cons.IH Cons.prems(3) show ?case by auto
  qed
  with terminal_clear_ok [OF assms(1)] assms(2) show ?thesis by blast
qed

text \<open>
  C16: what the components print stays readable: the cells before the cursor end with the text
  printed, in the current colour, as long as it is not more than the 1920 characters the page
  keeps.
\<close>

theorem printed_text_stays:
  assumes "term_ok s" "\<forall>c \<in> set calls. prints_text c"
    "\<forall>c \<in> set (concat (map call_text calls)). printable c"
  shows "\<exists>t. fold_opt run_call calls s = Some t \<and>
    suffix (before_cursor t) (before_cursor s
      @ map (\<lambda>c. vga_entry c (terminal_color s)) (concat (map call_text calls))) \<and>
    min 1920 (pos s + length (concat (map call_text calls))) \<le> length (before_cursor t)"
proof -
  let ?m = "concat (map call_text calls)"
  obtain t where t: "terminal_write ?m s = Some t" "term_ok t"
    "screen t = fold (tape_char (terminal_color s)) ?m (screen s)"
    using terminal_write_step [OF assms(1)] by blast
  have "length (vga s) = 2000" "pos s < 2000" using assms(1) pos_bounds by (auto simp: term_ok_def)
  from tape_text [OF this assms(3), of "terminal_color s"] t(2,3) pos_bounds [OF t(2)]
  have "suffix (before_cursor t) (before_cursor s @ map (\<lambda>c. vga_entry c (terminal_color s)) ?m)"
    "min 1920 (pos s + length ?m) \<le> length (before_cursor t)"
    by (auto simp: screen_def before_cursor_def term_ok_def)
  with t(1) run_calls_text [OF assms(2)] show ?thesis by auto
qed

text \<open>
  C1: writing characters, control characters included, is the run of the tape: never a cell
  outside the page, the colour kept, and the hardware cursor at the position of the tape.
\<close>

theorem terminal_refines_tape:
  assumes "term_ok s"
  shows "\<exists>t. terminal_write cs s = Some t \<and> term_ok t \<and> terminal_color t = terminal_color s \<and>
    screen t = fold (tape_char (terminal_color s)) cs (screen s) \<and> (cs \<noteq> [] \<longrightarrow> hw_cursor t = pos t)"
  using assms by (rule terminal_write_step)

text \<open>
  The three number printers write the decimal or hexadecimal digits of their value, from
  which the value can be read back; only the least \<^verbatim>\<open>int\<close> overflows.
\<close>

theorem terminal_print_numbers:
  "terminal_print_uint v s = terminal_write (dec_str (unat v)) s \<and>
   terminal_print_int v s = (if v = 0x80000000 then None else terminal_write (int_str (sint v)) s) \<and>
   terminal_print_hex v s = terminal_write (''0x'' @ hex_str (unat v)) s \<and>
   read_digits 10 hex_val (dec_str (unat v)) = unat v \<and> read_digits 16 hex_val (hex_str (unat v)) = unat v"
proof -
  have "\<forall>d \<in> set [0..<10]. hex_val (decimal_digits ! d) = d" "\<forall>d \<in> set [0..<16]. hex_val (hex_digits ! d) = d"
    by code_simp+
  then have "read_digits 10 hex_val (num_str decimal_digits 10 (unat v)) = unat v"
    "read_digits 16 hex_val (num_str hex_digits 16 (unat v)) = unat v"
    by (intro read_num_str; simp)+
  then show ?thesis
    by (simp add: terminal_print_uint_eq terminal_print_int_eq terminal_print_hex_eq num_str_decimal hex_str_def)
qed

section \<open>Examples\<close>

definition kterm0 :: kterm where
  "kterm0 = \<lparr>vga = replicate 2000 0, terminal_color = 0x1F, terminal_row = 24, terminal_column = 79,
     cursor_visible = True, crt_out = []\<rparr>"

lemma kterm0_ok: "term_ok kterm0"
  by (simp add: kterm0_def term_ok_def)

theorem clear_around_cursor_witness:
  "map_option vga (terminal_clear_screen_to_cursor kterm0) = Some (replicate 2000 0x1F20)"
proof -
  have "Suc (pos kterm0) = 2000" by (simp add: pos_def kterm0_def)
  moreover have "vga_entry (CHR '' '') (terminal_color kterm0) = 0x1F20" by (simp add: kterm0_def vga_entry_def)
  ultimately show ?thesis
    using clear_around_cursor [OF kterm0_ok] by (simp del: replicate_Suc add: kterm0_def)
qed

theorem terminal_refines_tape_witness:
  "\<exists>t. terminal_write ''x'' kterm0 = Some t \<and> hw_cursor t = 1920 \<and> vga t ! 1919 = 0x1F78"
proof -
  have "screen kterm0 = (replicate 2000 0, 1999)" by (simp add: screen_def pos_def kterm0_def)
  moreover have "vga_entry (CHR ''x'') 0x1F = 0x1F78" by (simp add: vga_entry_def)
  ultimately show ?thesis
    using terminal_refines_tape [OF kterm0_ok, of "''x''"]
    by (auto simp: tape_char_def tape_put_def Let_def screen_def nth_append kterm0_def)
qed

theorem console_calls_on_screen_witness:
  "\<exists>t. fold_opt run_call [Puts ''Islenmeyen kesme: '', Print_int 13, Clear] (terminal_initialize kterm0) = Some t
    \<and> term_ok t"
  using console_calls_on_screen [of kterm0 "[Puts ''Islenmeyen kesme: '', Print_int 13, Clear]"]
  by (auto simp: kterm0_def)

theorem printed_text_stays_witness:
  "\<exists>t. fold_opt run_call [Puts ''PID: '', Print_int 7] kterm0 = Some t \<and>
    drop (length (before_cursor t) - 6) (before_cursor t) = map (\<lambda>c. vga_entry c 0x1F) ''PID: 7''"
proof -
  have line: "concat (map call_text [Puts ''PID: '', Print_int 7]) = ''PID: 7''" by code_simp
  have "\<forall>c \<in> set [Puts ''PID: '', Print_int 7]. prints_text c"
    "\<forall>c \<in> set (concat (map call_text [Puts ''PID: '', Print_int 7])). printable c"
    unfolding line by (simp_all add: prints_text_def printable_def)
  from printed_text_stays [OF kterm0_ok this] obtain t where t:
    "fold_opt run_call [Puts ''PID: '', Print_int 7] kterm0 = Some t"
    "suffix (before_cursor t) (before_cursor kterm0 @ map (\<lambda>c. vga_entry c 0x1F) ''PID: 7'')"
    "1920 \<le> length (before_cursor t)"
    unfolding line by (auto simp: kterm0_def pos_def)
  from t(2) obtain ys where ys: "before_cursor kterm0 @ map (\<lambda>c. vga_entry c 0x1F) ''PID: 7'' = ys @ before_cursor t"
    by (auto simp: suffix_def)
  then have "drop (length ys + length (before_cursor t) - 6) (before_cursor kterm0 @ map (\<lambda>c. vga_entry c 0x1F) ''PID: 7'')
      = drop (length (before_cursor t) - 6) (before_cursor t)"
    using t(3) by simp
  moreover have "length ys + length (before_cursor t) = length (before_cursor kterm0) + 6"
    using arg_cong [OF ys, of length] by simp
  ultimately show ?thesis using t(1) by auto
qed

end
