(* ===== verification/ShellParse.thy ===== *)
theory ShellParse
  imports Prelude
begin

text \<open>
  The string helpers and the command-line parser of \<^verbatim>\<open>src/shell/shell.c\<close>. The parser works in
  place: it stores pointers into the line and overwrites separators by NUL. The reference is a
  tokenizer on strings; the theorems show that both agree on every line, up to the limit of 64
  arguments, at which the code writes behind its pointer array.
\<close>

section \<open>String helpers\<close>

text \<open>\<^verbatim>\<open>char\<close> is signed.\<close>

definition schar :: "char \<Rightarrow> int" where
  "schar c = (let n = of_char c in if n < 128 then n else n - 256)"

definition str_copy :: "char list \<Rightarrow> string \<Rightarrow> nat \<Rightarrow> char list option" where
  "str_copy dest src max_len = copy_cstr (max_len - 1) src dest"

fun str_compare :: "string \<Rightarrow> string \<Rightarrow> int" where
  "str_compare (c # cs) (d # ds) = (if c = d then str_compare cs ds else schar c - schar d)"
| "str_compare [] ds = 0 - schar (cchar ds 0)"
| "str_compare cs [] = schar (cchar cs 0) - 0"

primrec str_length :: "string \<Rightarrow> nat" where
  "str_length [] = 0"
| "str_length (c # cs) = Suc (str_length cs)"

definition str_clear :: "char list \<Rightarrow> nat \<Rightarrow> char list" where
  "str_clear s len = fold (\<lambda>i t. t[i := NUL]) [0..<len] s"

section \<open>The parser\<close>

definition is_quote :: "char \<Rightarrow> bool" where
  "is_quote c \<longleftrightarrow> c = CHR 0x22 \<or> c = CHR 0x27"

definition is_blank :: "char \<Rightarrow> bool" where
  "is_blank c \<longleftrightarrow> c = CHR '' '' \<or> c = CHR 0x09"

text \<open>
  The loop of \<^verbatim>\<open>shell_parse_args\<close>. A pointer of \<^verbatim>\<open>argv\<close> is the offset in the line it points to.
\<close>

function parse_loop :: "nat \<Rightarrow> nat \<Rightarrow> bool \<Rightarrow> bool \<Rightarrow> char \<Rightarrow> nat list \<Rightarrow> char list \<Rightarrow>
    (nat list \<times> char list) option" where
  "parse_loop max_args i in_quote in_arg quote_char argv line =
     arr_get line i \<bind> (\<lambda>c.
       if c = NUL \<or> max_args \<le> length argv then Some (argv, line)
       else if is_quote c \<and> \<not> in_quote
       then parse_loop max_args (Suc i) True True c (if in_arg then argv else argv @ [Suc i]) line
       else if c = quote_char \<and> in_quote
       then parse_loop max_args (Suc i) False in_arg NUL argv (line[i := NUL])
       else if is_blank c \<and> \<not> in_quote
       then (if in_arg then parse_loop max_args (Suc i) in_quote False quote_char argv (line[i := NUL])
             else parse_loop max_args (Suc i) in_quote in_arg quote_char argv line)
       else parse_loop max_args (Suc i) in_quote True quote_char (if in_arg then argv else argv @ [i]) line)"
  by pat_completeness auto
termination
  by (relation "measure (\<lambda>(max_args, i, in_quote, in_arg, quote_char, argv, line). length line - i)")
    (auto simp: array_simps)

declare parse_loop.simps [simp del]

text \<open>\<open>cells\<close> is the size of the array \<^verbatim>\<open>argv\<close>, whose cell \<^verbatim>\<open>argc\<close> becomes null.\<close>

definition shell_parse_args :: "nat \<Rightarrow> nat \<Rightarrow> char list \<Rightarrow> (nat list \<times> char list) option" where
  "shell_parse_args cells max_args line = do {
     (argv, line1) \<leftarrow> parse_loop max_args 0 False False NUL [] line;
     if length argv < cells then Some (argv, line1) else None
   }"

text \<open>The strings a handler sees through \<^verbatim>\<open>argv\<close>.\<close>

definition arg_strings :: "nat list \<Rightarrow> char list \<Rightarrow> string list" where
  "arg_strings argv line = map (\<lambda>p. cstr (drop p line)) argv"

text \<open>
  The front of \<^verbatim>\<open>shell_execute_command\<close>: the line is copied to a buffer of 256 bytes, which is
  parsed with 64 pointers.
\<close>

definition parse_command :: "string \<Rightarrow> string list option" where
  "parse_command command_line = do {
     cmd_copy \<leftarrow> str_copy (replicate 256 NUL) command_line 256;
     (argv, line) \<leftarrow> shell_parse_args 64 64 cmd_copy;
     Some (arg_strings argv line)
   }"

section \<open>The reference tokenizer\<close>

text \<open>
  \<open>q\<close> is the open quote, \<open>cur\<close> the argument being read, and whether it is already cut off: a
  closing quote ends the text of an argument, but the characters up to the next blank still
  belong to it.
\<close>

fun grow :: "char \<Rightarrow> (string \<times> bool) option \<Rightarrow> string \<times> bool" where
  "grow c None = ([c], False)"
| "grow c (Some (t, sl)) = (if sl then t else t @ [c], sl)"

fun scan :: "char option \<Rightarrow> (string \<times> bool) option \<Rightarrow> string \<Rightarrow> string list" where
  "scan q cur [] = (case cur of None \<Rightarrow> [] | Some (t, sl) \<Rightarrow> [t])"
| "scan q cur (c # cs) =
     (if is_quote c \<and> q = None
      then scan (Some c) (Some (if cur = None then ([], False) else grow c cur)) cs
      else if q = Some c then scan None (map_option (\<lambda>(t, sl). (t, True)) cur) cs
      else if is_blank c \<and> q = None
      then (case cur of None \<Rightarrow> [] | Some (t, sl) \<Rightarrow> [t]) @ scan q None cs
      else scan q (Some (grow c cur)) cs)"

definition tokens :: "string \<Rightarrow> string list" where
  "tokens line = scan None None line"

section \<open>The parser is the tokenizer\<close>

text \<open>
  The part of the line already parsed holds the arguments done, each ended by a NUL, and the
  beginning of the current one.
\<close>

definition cur_ok :: "(string \<times> bool) option \<Rightarrow> nat list \<Rightarrow> char list \<Rightarrow> bool" where
  "cur_ok cur ps pre = (case cur of
     None \<Rightarrow> ps = []
   | Some (t, sl) \<Rightarrow> (\<exists>p. ps = [p] \<and> p \<le> length pre \<and>
       (if sl then NUL \<in> set (drop p pre) \<and> t = cstr (drop p pre)
        else drop p pre = t \<and> NUL \<notin> set t)))"

definition done_ok :: "string list \<Rightarrow> nat list \<Rightarrow> char list \<Rightarrow> bool" where
  "done_ok ts ps pre \<longleftrightarrow>
     (\<forall>p \<in> set ps. p \<le> length pre \<and> NUL \<in> set (drop p pre)) \<and> ts = map (\<lambda>p. cstr (drop p pre)) ps"

lemma cstr_append_NUL: "NUL \<in> set xs \<Longrightarrow> cstr (xs @ ys) = cstr xs"
  by (simp add: cstr_def takeWhile_append1 [of NUL])

lemma done_ok_extend: "done_ok ts ps pre \<Longrightarrow> done_ok ts ps (pre @ more)"
  by (auto simp: done_ok_def cstr_append_NUL)

lemma scan_nonempty: "scan q (Some a) cs \<noteq> []"
  by (induction cs arbitrary: q a) (auto split: prod.splits)

lemma cur_ok_grow:
  "cur_ok cur cs pre \<Longrightarrow> c \<noteq> NUL \<Longrightarrow>
    cur_ok (Some (grow c cur)) (if cur = None then [length pre] else cs) (pre @ [c])"
  by (cases cur) (auto simp: cur_ok_def cstr_append_NUL split: if_splits)

lemma cur_ok_open: "c \<noteq> NUL \<Longrightarrow> cur_ok (Some ([], False)) [Suc (length pre)] (pre @ [c])"
  by (simp add: cur_ok_def)

lemma cur_ok_seal:
  "cur_ok cur cs pre \<Longrightarrow> cur_ok (map_option (\<lambda>(t, sl). (t, True)) cur) cs (pre @ [NUL])"
  by (cases cur) (auto simp: cur_ok_def cstr_append_NUL split: if_splits)

lemma cur_ok_finish:
  "cur_ok (Some (t, sl)) cs pre \<Longrightarrow> done_ok ts ps pre \<Longrightarrow> done_ok (ts @ [t]) (ps @ cs) (pre @ [NUL])"
  by (auto simp: cur_ok_def done_ok_def cstr_append_NUL split: if_splits)

lemma cur_ok_strings:
  "cur_ok cur cs pre \<Longrightarrow> arg_strings cs (pre @ NUL # junk) = (case cur of None \<Rightarrow> [] | Some (t, sl) \<Rightarrow> [t])"
  by (auto simp: cur_ok_def arg_strings_def cstr_append_NUL split: option.splits if_splits prod.splits)

lemma cur_ok_length: "cur_ok cur cs pre \<Longrightarrow> length cs = (if cur = None then 0 else 1)"
  by (auto simp: cur_ok_def split: option.splits)

lemma length_scan_ge: "(if cur = None then 0 else 1) \<le> length (scan q cur cs)"
  using scan_nonempty [of q "the cur" cs] by (cases cur; cases "scan q cur cs") auto

lemma parse_loop_scan:
  assumes "line = pre @ rest @ NUL # junk" "length pre = i" "NUL \<notin> set rest"
    "done_ok ts ps pre" "cur_ok cur cs pre" "argv = ps @ cs" "length argv \<le> m"
    "in_arg \<longleftrightarrow> cur \<noteq> None" "in_quote \<longleftrightarrow> q \<noteq> None" "q = Some quote_char \<or> q = None"
  shows "\<exists>argv' line'. parse_loop m i in_quote in_arg quote_char argv line = Some (argv', line') \<and>
    length argv' = min m (length (ts @ scan q cur rest)) \<and>
    (length (ts @ scan q cur rest) < m \<longrightarrow> arg_strings argv' line' = ts @ scan q cur rest)"
  using assms
proof (induction rest arbitrary: line pre i ts ps cur cs argv in_arg in_quote q quote_char)
  case Nil
  then have "parse_loop m i in_quote in_arg quote_char argv line = Some (argv, line)"
    by (subst parse_loop.simps) (simp add: nth_append)
  moreover have "arg_strings ps line = ts"
    using Nil.prems(1,4) by (auto simp: done_ok_def arg_strings_def cstr_append_NUL)
  moreover have "length ps = length ts" using Nil.prems(4) by (simp add: done_ok_def)
  ultimately show ?case
    using Nil.prems cur_ok_strings [OF Nil.prems(5), of junk] cur_ok_length [OF Nil.prems(5)]
    by (auto simp: arg_strings_def split: option.splits)
next
  case (Cons c rest)
  have c: "arr_get line i = Some c" "c \<noteq> NUL" using Cons.prems(1-3) by (auto simp: nth_append)
  have len: "length argv = length ts + (if cur = None then 0 else 1)"
    using Cons.prems(4,6) cur_ok_length [OF Cons.prems(5)] by (simp add: done_ok_def)
  have keep: "line = (pre @ [c]) @ rest @ NUL # junk" and put: "line[i := NUL] = (pre @ [NUL]) @ rest @ NUL # junk"
    using Cons.prems(1,2) by (simp_all add: list_update_append)
  have i: "length (pre @ [x]) = Suc i" for x using Cons.prems(2) by simp
  have rest: "NUL \<notin> set rest" using Cons.prems(3) by simp
  note IH = Cons.IH [OF _ i rest]
  have ext: "done_ok ts ps (pre @ [x])" for x using Cons.prems(4) by (rule done_ok_extend)
  show ?case
  proof (cases "m \<le> length argv")
    case True
    then have "parse_loop m i in_quote in_arg quote_char argv line = Some (argv, line)"
      using c by (subst parse_loop.simps) simp
    moreover have "m \<le> length (ts @ scan q cur (c # rest))"
      using True len length_scan_ge [of cur q "c # rest"] by (simp del: scan.simps)
    ultimately show ?thesis using True Cons.prems(7) by (simp del: scan.simps)
  next
    case room: False
    consider (opens) "is_quote c" "q = None" | (closes) "q = Some c"
      | (blank) "\<not> is_quote c \<or> q \<noteq> None" "q \<noteq> Some c" "is_blank c" "q = None"
      | (other) "\<not> (is_quote c \<and> q = None)" "q \<noteq> Some c" "\<not> (is_blank c \<and> q = None)" by blast
    then show ?thesis
    proof cases
      case opens
      let ?cur = "Some (if cur = None then ([], False) else grow c cur)"
      let ?cs = "if cur = None then [Suc (length pre)] else cs"
      have "cur_ok ?cur ?cs (pre @ [c])"
        using cur_ok_grow [OF Cons.prems(5) c(2)] cur_ok_open [OF c(2)] by auto
      from IH [OF keep ext this refl, of True True "Some c" c]
      have "\<exists>argv' line'. parse_loop m (Suc i) True True c (ps @ ?cs) line = Some (argv', line') \<and>
          length argv' = min m (length (ts @ scan (Some c) ?cur rest)) \<and>
          (length (ts @ scan (Some c) ?cur rest) < m \<longrightarrow> arg_strings argv' line' = ts @ scan (Some c) ?cur rest)"
        using room len Cons.prems(6) cur_ok_length [OF Cons.prems(5)] by (auto split: if_splits)
      moreover have "parse_loop m i in_quote in_arg quote_char argv line
          = parse_loop m (Suc i) True True c (ps @ ?cs) line"
        using opens c room Cons.prems cur_ok_length [OF Cons.prems(5)]
        by (subst parse_loop.simps) auto
      ultimately show ?thesis using opens by simp
    next
      case closes
      let ?cur = "map_option (\<lambda>(t, sl). (t, True)) cur"
      have "in_arg \<longleftrightarrow> ?cur \<noteq> None" using Cons.prems(8) by simp
      from IH [OF put ext cur_ok_seal [OF Cons.prems(5)] Cons.prems(6,7) this, of False None NUL]
      have "\<exists>argv' line'. parse_loop m (Suc i) False in_arg NUL argv (line[i := NUL]) = Some (argv', line') \<and>
          length argv' = min m (length (ts @ scan None ?cur rest)) \<and>
          (length (ts @ scan None ?cur rest) < m \<longrightarrow> arg_strings argv' line' = ts @ scan None ?cur rest)"
        by simp
      moreover have "parse_loop m i in_quote in_arg quote_char argv line
          = parse_loop m (Suc i) False in_arg NUL argv (line[i := NUL])"
        using closes c room Cons.prems(9,10) by (subst parse_loop.simps) auto
      ultimately show ?thesis using closes by simp
    next
      case blank
      show ?thesis
      proof (cases cur)
        case None
        have "cur_ok None cs (pre @ [c])" using Cons.prems(5) None by (simp add: cur_ok_def)
        from IH [OF keep ext this Cons.prems(6,7), of in_arg in_quote q quote_char]
        have "\<exists>argv' line'. parse_loop m (Suc i) in_quote in_arg quote_char argv line = Some (argv', line') \<and>
          length argv' = min m (length (ts @ scan q None rest)) \<and>
          (length (ts @ scan q None rest) < m \<longrightarrow> arg_strings argv' line' = ts @ scan q None rest)"
          using Cons.prems(8-10) None by simp
        moreover have "parse_loop m i in_quote in_arg quote_char argv line
            = parse_loop m (Suc i) in_quote in_arg quote_char argv line"
          using blank c room Cons.prems(8,9) None by (subst parse_loop.simps) auto
        ultimately show ?thesis using blank None by simp
      next
        case (Some a)
        obtain t sl where a: "a = (t, sl)" by (cases a)
        have d: "done_ok (ts @ [t]) argv (pre @ [NUL])"
          using cur_ok_finish [of t sl cs pre ts ps] Cons.prems(4-6) Some a by simp
        have n: "cur_ok None [] (pre @ [NUL])" by (simp add: cur_ok_def)
        from IH [OF put d n, of argv False in_quote q quote_char]
        have "\<exists>argv' line'. parse_loop m (Suc i) in_quote False quote_char argv (line[i := NUL]) = Some (argv', line') \<and>
          length argv' = min m (length ((ts @ [t]) @ scan q None rest)) \<and>
          (length ((ts @ [t]) @ scan q None rest) < m \<longrightarrow> arg_strings argv' line' = (ts @ [t]) @ scan q None rest)"
          using Cons.prems(7,9,10) by simp
        moreover have "parse_loop m i in_quote in_arg quote_char argv line
            = parse_loop m (Suc i) in_quote False quote_char argv (line[i := NUL])"
          using blank c room Cons.prems(8,9) Some by (subst parse_loop.simps) auto
        ultimately show ?thesis using blank Some a by simp
      qed
    next
      case other
      let ?cur = "Some (grow c cur)" and ?cs = "if cur = None then [length pre] else cs"
      from IH [OF keep ext cur_ok_grow [OF Cons.prems(5) c(2)] refl, of True in_quote q quote_char]
      have "\<exists>argv' line'. parse_loop m (Suc i) in_quote True quote_char (ps @ ?cs) line = Some (argv', line') \<and>
          length argv' = min m (length (ts @ scan q ?cur rest)) \<and>
          (length (ts @ scan q ?cur rest) < m \<longrightarrow> arg_strings argv' line' = ts @ scan q ?cur rest)"
        using room len Cons.prems(6,9,10) cur_ok_length [OF Cons.prems(5)] by (auto split: if_splits)
      moreover have "parse_loop m i in_quote in_arg quote_char argv line
          = parse_loop m (Suc i) in_quote True quote_char (ps @ ?cs) line"
        using other c room Cons.prems cur_ok_length [OF Cons.prems(5)]
        by (subst parse_loop.simps) auto
      moreover have "scan q cur (c # rest) = scan q ?cur rest" using other by auto
      ultimately show ?thesis by simp
    qed
  qed
qed

lemma str_copy_line:
  "NUL \<notin> set src \<Longrightarrow> n \<le> length dst \<Longrightarrow> 0 < n \<Longrightarrow>
    str_copy dst src n = Some (take (n - 1) src @ NUL # drop (Suc (min (n - 1) (length src))) dst)"
  by (simp add: str_copy_def copy_cstr_eq)

lemma parse_command_eq:
  assumes "NUL \<notin> set line"
  shows "parse_command line = (if length (tokens (take 255 line)) < 64
    then Some (tokens (take 255 line)) else None)"
proof -
  let ?l = "take 255 line"
  let ?junk = "drop (Suc (min 255 (length line))) (replicate 256 NUL)"
  have nul: "NUL \<notin> set ?l" using assms by (meson in_set_takeD)
  have copy: "str_copy (replicate 256 NUL) line 256 = Some (?l @ NUL # ?junk)"
    using assms by (subst str_copy_line) simp_all
  obtain argv line' where p: "parse_loop 64 0 False False NUL [] (?l @ NUL # ?junk) = Some (argv, line')"
    "length argv = min 64 (length (tokens ?l))"
    "length (tokens ?l) < 64 \<longrightarrow> arg_strings argv line' = tokens ?l"
    using parse_loop_scan [of "?l @ NUL # ?junk" "[]" ?l ?junk 0 "[]" "[]" None "[]" "[]" 64 False False None NUL] nul
    by (auto simp: done_ok_def cur_ok_def tokens_def)
  then show ?thesis by (simp add: parse_command_def shell_parse_args_def copy)
qed

lemma str_compare_zero:
  "NUL \<notin> set s \<Longrightarrow> NUL \<notin> set t \<Longrightarrow> str_compare s t = 0 \<longleftrightarrow> s = t"
proof -
  have inj: "schar c = schar d \<longleftrightarrow> c = d" for c d :: char
  proof -
    have r: "0 \<le> (of_char x :: int) \<and> (of_char x :: int) < 256" for x :: char
      using pos_mod_bound [of 256 "of_char x"] pos_mod_sign [of 256 "of_char x"] by simp
    have "schar c = schar d \<longleftrightarrow> (of_char c :: int) = of_char d"
      using r [of c] r [of d] by (auto simp: schar_def Let_def)
    then show ?thesis by simp
  qed
  have "schar NUL = 0" by (simp add: schar_def)
  then have z: "schar c = 0 \<longleftrightarrow> c = NUL" for c using inj [of c NUL] by simp
  show "NUL \<notin> set s \<Longrightarrow> NUL \<notin> set t \<Longrightarrow> ?thesis"
    by (induction s t rule: str_compare.induct) (auto simp: inj z cchar_def, metis length_greater_0_conv nth_mem)
qed

section \<open>Writing arguments that are read back\<close>

text \<open>An argument that needs no quotes is written as it is, any other one between quotes.\<close>

definition plain_arg :: "string \<Rightarrow> bool" where
  "plain_arg a \<longleftrightarrow> a \<noteq> [] \<and> (\<forall>c \<in> set a. \<not> is_quote c \<and> \<not> is_blank c)"

definition shell_quote :: "string \<Rightarrow> string" where
  "shell_quote a = (if plain_arg a then a else CHR 0x22 # a @ [CHR 0x22])"

definition command_line :: "string list \<Rightarrow> string" where
  "command_line args = concat (map (\<lambda>a. shell_quote a @ '' '') args)"

lemma scan_plain:
  "\<forall>c \<in> set a. \<not> is_quote c \<and> \<not> is_blank c \<Longrightarrow>
    scan None (Some (t, False)) (a @ rest) = scan None (Some (t @ a, False)) rest"
  by (induction a arbitrary: t) auto

lemma scan_quoted:
  "q \<notin> set a \<Longrightarrow> scan (Some q) (Some (t, False)) (a @ q # rest) = scan None (Some (t @ a, True)) rest"
  by (induction a arbitrary: t) auto

lemma scan_shell_quote:
  assumes "CHR 0x22 \<notin> set a"
  shows "scan None None (shell_quote a @ CHR '' '' # rest) = a # scan None None rest"
proof (cases "plain_arg a")
  case True
  then obtain c cs where a: "a = c # cs" "\<not> is_quote c" "\<not> is_blank c" "\<forall>c \<in> set cs. \<not> is_quote c \<and> \<not> is_blank c"
    by (cases a) (auto simp: plain_arg_def)
  then show ?thesis using True scan_plain [of cs "[c]"]
    by (simp add: shell_quote_def is_blank_def is_quote_def)
next
  case False
  then show ?thesis using scan_quoted [of "CHR 0x22" a "[]"] assms
    by (simp add: shell_quote_def is_quote_def is_blank_def)
qed

lemma tokens_command_line:
  "\<forall>a \<in> set args. CHR 0x22 \<notin> set a \<Longrightarrow> tokens (command_line args) = args"
  by (induction args) (simp_all add: tokens_def command_line_def scan_shell_quote)

section \<open>Properties\<close>

text \<open>
  C2: on every line the in-place parser of the shell delivers the arguments of the reference
  tokenizer for the first 255 characters; with 64 of them or more it writes its final null
  pointer behind the end of the array.
\<close>

theorem shell_parse_is_tokenizer:
  assumes "NUL \<notin> set line"
  shows "parse_command line = (if length (tokens (take 255 line)) < 64
    then Some (tokens (take 255 line)) else None)"
  using assms by (rule parse_command_eq)

theorem shell_parse_is_tokenizer_witness:
  "parse_command (''echo '' @ [CHR 0x22] @ ''a b'' @ [CHR 0x22] @ ''c  d'') = Some [''echo'', ''a b'', ''d'']"
proof -
  have "tokens (''echo '' @ [CHR 0x22] @ ''a b'' @ [CHR 0x22] @ ''c  d'') = [''echo'', ''a b'', ''d'']"
    by code_simp
  then show ?thesis
    using shell_parse_is_tokenizer [of "''echo '' @ [CHR 0x22] @ ''a b'' @ [CHR 0x22] @ ''c  d''"] by simp
qed

text \<open>
  C18: fewer than 64 arguments without double quotes, each written plainly where it is a word
  and between double quotes otherwise, are read back as they are, if the line has at most 255
  characters.
\<close>

theorem shell_parse_quoted:
  assumes "\<forall>a \<in> set args. CHR 0x22 \<notin> set a \<and> NUL \<notin> set a" "length args < 64"
    "length (command_line args) \<le> 255"
  shows "parse_command (command_line args) = Some args"
proof -
  have "NUL \<notin> set (shell_quote a)" if "a \<in> set args" for a
    using assms(1) that by (auto simp: shell_quote_def)
  then have "NUL \<notin> set (command_line args)" by (auto simp: command_line_def)
  with assms show ?thesis by (simp add: parse_command_eq tokens_command_line)
qed

theorem shell_parse_quoted_witness:
  "parse_command (command_line [''echo'', ''it is '', [], ''x'']) = Some [''echo'', ''it is '', [], ''x'']"
  by (rule shell_parse_quoted) (simp_all add: command_line_def shell_quote_def)

end
