(* ===== verification/Shell.thy ===== *)
theory Shell
  imports Filesystem MemoryInit Terminal ShellParse
begin

text \<open>
  The command shell, \<^verbatim>\<open>src/shell/shell.c\<close>: its context, the command table, the dispatch of a
  line to a command and the commands over the file system, the process list and the memory
  manager. Commands get their arguments as strings; what they print is recorded as calls of
  the terminal. The line a user types comes from \<open>input\<close>, the model of \<^verbatim>\<open>terminal_read_line\<close>.
\<close>

section \<open>State and command table\<close>

datatype shell_status =
    SHELL_OK | SHELL_ERROR_COMMAND_NOT_FOUND | SHELL_ERROR_INVALID_ARGUMENTS
  | SHELL_ERROR_PERMISSION_DENIED | SHELL_ERROR_INTERNAL | SHELL_EXIT

primrec status_code :: "shell_status \<Rightarrow> int" where
  "status_code SHELL_OK = 0"
| "status_code SHELL_ERROR_COMMAND_NOT_FOUND = 1"
| "status_code SHELL_ERROR_INVALID_ARGUMENTS = 2"
| "status_code SHELL_ERROR_PERMISSION_DENIED = 3"
| "status_code SHELL_ERROR_INTERNAL = 4"
| "status_code SHELL_EXIT = 5"

abbreviation SHELL_FLAG_ECHO :: u32 where "SHELL_FLAG_ECHO \<equiv> 1"
abbreviation SHELL_FLAG_COLOR :: u32 where "SHELL_FLAG_COLOR \<equiv> 2"
abbreviation SHELL_MAX_COMMAND_LENGTH :: nat where "SHELL_MAX_COMMAND_LENGTH \<equiv> 256"

definition SHELL_VERSION :: string where
  "SHELL_VERSION = ''0.1.0''"

text \<open>The static \<^verbatim>\<open>shell_ctx\<close>.\<close>

record kshell = kfs +
  current_dir :: "char list"
  sh_flags :: u32
  username :: "char list"
  hostname :: "char list"
  last_command :: "char list"
  exit_code :: int

text \<open>A handler of the table: the function that runs the command.\<close>

datatype shell_handler =
    cmd_help_fn | cmd_clear_fn | cmd_echo_fn | cmd_exit_fn | cmd_version_fn | cmd_ls_fn
  | cmd_cd_fn | cmd_cat_fn | cmd_ps_fn | cmd_uptime_fn | cmd_meminfo_fn

record shell_command =
  c_name :: string
  c_description :: string
  c_handler :: shell_handler
  c_usage :: string

definition commands :: "shell_command list" where
  "commands =
    [\<lparr>c_name = ''help'', c_description = ''Show help information about commands'',
       c_handler = cmd_help_fn, c_usage = ''help [command]''\<rparr>,
     \<lparr>c_name = ''clear'', c_description = ''Clear the screen'',
       c_handler = cmd_clear_fn, c_usage = ''clear''\<rparr>,
     \<lparr>c_name = ''echo'', c_description = ''Print text to the screen'',
       c_handler = cmd_echo_fn, c_usage = ''echo [text...]''\<rparr>,
     \<lparr>c_name = ''exit'', c_description = ''Exit the shell'',
       c_handler = cmd_exit_fn, c_usage = ''exit''\<rparr>,
     \<lparr>c_name = ''version'', c_description = ''Show system version information'',
       c_handler = cmd_version_fn, c_usage = ''version''\<rparr>,
     \<lparr>c_name = ''ls'', c_description = ''List directory contents'',
       c_handler = cmd_ls_fn, c_usage = ''ls [directory]''\<rparr>,
     \<lparr>c_name = ''cd'', c_description = ''Change directory'',
       c_handler = cmd_cd_fn, c_usage = ''cd [directory]''\<rparr>,
     \<lparr>c_name = ''cat'', c_description = ''Show file contents'',
       c_handler = cmd_cat_fn, c_usage = ''cat file''\<rparr>,
     \<lparr>c_name = ''ps'', c_description = ''List running processes'',
       c_handler = cmd_ps_fn, c_usage = ''ps''\<rparr>,
     \<lparr>c_name = ''uptime'', c_description = ''Show system uptime'',
       c_handler = cmd_uptime_fn, c_usage = ''uptime''\<rparr>,
     \<lparr>c_name = ''meminfo'', c_description = ''Show memory information'',
       c_handler = cmd_meminfo_fn, c_usage = ''meminfo''\<rparr>]"

definition find_command :: "string \<Rightarrow> shell_command option" where
  "find_command name = find (\<lambda>c. str_compare name (c_name c) = 0) commands"

text \<open>\<^verbatim>\<open>keyboard_connect_terminal\<close>, which ends the initialisation, has an empty body.\<close>

definition shell_init :: "'a kshell_scheme \<Rightarrow> 'a kshell_scheme option" where
  "shell_init s = do {
     d \<leftarrow> str_copy (current_dir s) ''/'' 256;
     u \<leftarrow> str_copy (username s) ''root'' 32;
     h \<leftarrow> str_copy (hostname s) ''kluxos'' 32;
     Some (s\<lparr>current_dir := d, sh_flags := SHELL_FLAG_ECHO OR SHELL_FLAG_COLOR, username := u,
       hostname := h, last_command := str_clear (last_command s) 256, exit_code := 0\<rparr>)
   }"

section \<open>Output\<close>

definition set_fg :: "vga_color \<Rightarrow> 'a console_scheme \<Rightarrow> 'a console_scheme" where
  "set_fg col = emit (Set_fg col)"

definition shell_print_prompt :: "'a kshell_scheme \<Rightarrow> 'a kshell_scheme" where
  "shell_print_prompt s =
     (let s1 = puts (cstr (username s)) (set_fg VGA_COLOR_GREEN s);
          s2 = puts ''@'' (set_fg VGA_COLOR_WHITE s1);
          s3 = puts (cstr (hostname s)) (set_fg VGA_COLOR_LIGHT_BLUE s2);
          s4 = puts '':'' (set_fg VGA_COLOR_WHITE s3);
          s5 = puts (cstr (current_dir s)) (set_fg VGA_COLOR_LIGHT_BROWN s4);
          s6 = puts ''$ '' (set_fg VGA_COLOR_WHITE s5)
      in emit Reset_color s6)"

definition shell_clear_screen :: "'a console_scheme \<Rightarrow> 'a console_scheme" where
  "shell_clear_screen = emit Clear"

abbreviation backslash :: char where "backslash \<equiv> CHR 0x5C"

definition banner_lines :: "string list" where
  "banner_lines =
    [''  _  __ _               ___  ____  '',
     '' | |/ /| | _   _ __  __/ _ '' @ [backslash] @ ''/ ___| '',
     '' | '' @ [CHR 0x27] @ '' / | || | | |'' @ [backslash] @ '' '' @ [backslash] @ ''/ / | | ''
       @ [backslash] @ ''___ '' @ [backslash] @ '' '',
     '' | . '' @ [backslash] @ '' | || |_| | >  <| |_| |___) |'',
     '' |_|'' @ [backslash] @ ''_'' @ [backslash] @ ''|_| '' @ [backslash] @ ''__,_|/_/'' @ [backslash]
       @ ''_'' @ [backslash, backslash] @ ''___/|____/ '']"

definition shell_print_banner :: "'a console_scheme \<Rightarrow> 'a console_scheme" where
  "shell_print_banner s =
     (let s1 = puts newline (set_fg VGA_COLOR_LIGHT_RED (emit Clear s));
          s2 = fold (\<lambda>l. puts (l @ newline)) banner_lines s1;
          s3 = set_fg VGA_COLOR_LIGHT_GREY (puts newline s2);
          s4 = puts newline (puts SHELL_VERSION (puts ''KluxOS Terminal - Version '' s3));
          s5 = puts (''Type '' @ [CHR 0x27] @ ''help'' @ [CHR 0x27] @ '' for assistance.'' @ newline) s4
      in emit Reset_color (puts newline s5))"

definition help_line :: "shell_command \<Rightarrow> 'a console_scheme \<Rightarrow> 'a console_scheme" where
  "help_line c s =
     (let s1 = puts (c_name c) (puts ''  '' (set_fg VGA_COLOR_LIGHT_GREEN s));
          s2 = set_fg VGA_COLOR_LIGHT_GREY s1;
          s3 = ((puts '' '') ^^ (12 - str_length (c_name c))) s2
      in puts newline (puts (c_description c) s3))"

definition shell_help :: "'a console_scheme \<Rightarrow> 'a console_scheme" where
  "shell_help s =
     (let s1 = fold help_line commands (puts (''Available commands:'' @ newline @ newline) s)
      in puts newline (emit Reset_color s1))"

text \<open>A message about a name, and the status the caller returns with it.\<close>

definition complain :: "string \<Rightarrow> string \<Rightarrow> shell_status \<Rightarrow> 'a console_scheme \<Rightarrow>
    shell_status \<times> 'a console_scheme" where
  "complain msg name st s = (st, puts newline (puts name (puts msg s)))"

section \<open>Commands\<close>

definition cmd_help :: "string list \<Rightarrow> 'a console_scheme \<Rightarrow> shell_status \<times> 'a console_scheme" where
  "cmd_help argv s =
     (if length argv = 1 then (SHELL_OK, shell_help s)
      else case find_command (argv ! 1) of
        Some c \<Rightarrow>
          (let s1 = puts newline (puts (c_name c) (puts ''Command: '' (set_fg VGA_COLOR_LIGHT_GREEN s)));
               s2 = set_fg VGA_COLOR_LIGHT_GREY (puts ''Description: '' (set_fg VGA_COLOR_WHITE s1));
               s3 = puts newline (puts (c_description c) s2);
               s4 = set_fg VGA_COLOR_LIGHT_GREY (puts ''Usage: '' (set_fg VGA_COLOR_WHITE s3));
               s5 = puts newline (puts (c_usage c) s4)
           in (SHELL_OK, emit Reset_color s5))
      | None \<Rightarrow> complain ''Command not found: '' (argv ! 1) SHELL_ERROR_COMMAND_NOT_FOUND s)"

definition cmd_clear :: "string list \<Rightarrow> 'a console_scheme \<Rightarrow> shell_status \<times> 'a console_scheme" where
  "cmd_clear argv s = (SHELL_OK, shell_clear_screen s)"

definition cmd_echo :: "string list \<Rightarrow> 'a console_scheme \<Rightarrow> shell_status \<times> 'a console_scheme" where
  "cmd_echo argv s =
     (let s1 = fold (\<lambda>i t. let t1 = puts (argv ! i) t
            in if i < length argv - 1 then puts '' '' t1 else t1) [1..<length argv] s
      in (SHELL_OK, puts newline s1))"

definition cmd_exit :: "string list \<Rightarrow> 'a console_scheme \<Rightarrow> shell_status \<times> 'a console_scheme" where
  "cmd_exit argv s = (SHELL_EXIT, puts (''Shell'' @ [CHR 0x27] @ ''den cikiliyor...'' @ newline) s)"

definition cmd_version :: "string list \<Rightarrow> 'a console_scheme \<Rightarrow> shell_status \<times> 'a console_scheme" where
  "cmd_version argv s =
     (SHELL_OK, puts newline (puts SHELL_VERSION (puts ''KluxOS Terminal - Version '' s)))"

text \<open>One child in a listing; \<open>count\<close> includes it.\<close>

definition ls_entry :: "fs_node \<Rightarrow> nat \<Rightarrow> 'a console_scheme \<Rightarrow> 'a console_scheme" where
  "ls_entry n count s =
     (let s1 = set_fg (if fn_type n = FS_DIRECTORY then VGA_COLOR_LIGHT_BLUE
            else if fn_type n = FS_FILE then VGA_COLOR_LIGHT_GREY else VGA_COLOR_LIGHT_RED) s;
          s2 = puts (cstr (fn_name n)) s1;
          s3 = (if fn_type n = FS_DIRECTORY then puts ''/'' s2 else s2)
      in if count mod 5 = 0 then puts newline s3 else puts [CHR 0x09] s3)"

partial_function (option) ls_loop :: "u32 \<Rightarrow> nat \<Rightarrow> 'a kfs_scheme \<Rightarrow> (nat \<times> 'a kfs_scheme) option" where
  "ls_loop child count s =
     (if child = 0 then Some (count, s)
      else nodes s child \<bind> (\<lambda>n. ls_loop (fn_next n) (Suc count) (ls_entry n (Suc count) s)))"

text \<open>The directory of \<^verbatim>\<open>ls\<close> and \<^verbatim>\<open>cd\<close>, or the message why there is none.\<close>

definition enter_dir :: "'a kfs_scheme fs_driver \<Rightarrow> string \<Rightarrow> u32 \<Rightarrow> 'a kfs_scheme \<Rightarrow>
    (shell_status \<times> fs_node option \<times> 'a kfs_scheme) option" where
  "enter_dir drv path node s =
     (if node = 0
      then (let (st, s1) = complain ''Dizin bulunamadi: '' path SHELL_ERROR_INVALID_ARGUMENTS s
            in Some (st, None, s1))
      else nodes s node \<bind> (\<lambda>n.
        if fn_type n \<noteq> FS_DIRECTORY
        then (let (st, s1) = complain ''Dizin degil: '' path SHELL_ERROR_INVALID_ARGUMENTS s
              in Some (st, None, s1))
        else Some (SHELL_OK, Some n, s)))"

definition cmd_ls :: "'a kshell_scheme fs_driver \<Rightarrow> string list \<Rightarrow> 'a kshell_scheme \<Rightarrow>
    (shell_status \<times> 'a kshell_scheme) option" where
  "cmd_ls drv argv s = do {
     let path = (if 1 < length argv then argv ! 1 else cstr (current_dir s));
     (node, s1) \<leftarrow> (if str_compare path ''/'' = 0 then Some (fs_root s, s)
       else fs_finddir drv (fs_root s) path s);
     (st, dir, s2) \<leftarrow> enter_dir drv path node s1;
     case dir of
       None \<Rightarrow> Some (st, s2)
     | Some n \<Rightarrow> do {
         (count, s3) \<leftarrow> ls_loop (fn_children n) 0 s2;
         let s4 = (if count mod 5 \<noteq> 0 then puts newline s3 else s3);
         let s5 = puts (newline @ ''Toplam: '') (emit Reset_color s4);
         Some (SHELL_OK, puts ('' oge'' @ newline) (emit (Print_int (of_nat count)) s5))
       }
   }"

text \<open>The search for the last slash of the current directory.\<close>

definition last_slash :: "string \<Rightarrow> nat option" where
  "last_slash d = find (\<lambda>i. d ! i = CHR ''/'') (rev [0..<length d])"

definition cmd_cd :: "'a kshell_scheme fs_driver \<Rightarrow> string list \<Rightarrow> 'a kshell_scheme \<Rightarrow>
    (shell_status \<times> 'a kshell_scheme) option" where
  "cmd_cd drv argv s =
     (let go_root = str_copy (current_dir s) ''/'' 256 \<bind> (\<lambda>d. Some (SHELL_OK, s\<lparr>current_dir := d\<rparr>))
      in if length argv < 2 then go_root
      else let path = argv ! 1 in
        if str_compare path ''/'' = 0 then go_root
        else if str_compare path ''..'' = 0
        then (case last_slash (cstr (current_dir s)) of
            None \<Rightarrow> Some (SHELL_OK, s)
          | Some i \<Rightarrow> if i = 0 then go_root
              else Some (SHELL_OK, s\<lparr>current_dir := (current_dir s)[i := NUL]\<rparr>))
        else do {
          (node, s1) \<leftarrow> fs_finddir drv (fs_root s) path s;
          (st, dir, s2) \<leftarrow> enter_dir drv path node s1;
          case dir of
            None \<Rightarrow> Some (st, s2)
          | Some n \<Rightarrow> str_copy (current_dir s2) path 256 \<bind> (\<lambda>d. Some (SHELL_OK, s2\<lparr>current_dir := d\<rparr>))
        })"

text \<open>\<open>buffer\<close> is the address of the local array of 1024 bytes.\<close>

definition cmd_cat :: "'a kshell_scheme fs_driver \<Rightarrow> u32 \<Rightarrow> string list \<Rightarrow> 'a kshell_scheme \<Rightarrow>
    (shell_status \<times> 'a kshell_scheme) option" where
  "cmd_cat drv buffer argv s =
     (if length argv < 2
      then Some (SHELL_ERROR_INVALID_ARGUMENTS, puts (''Kullanim: cat <dosya>'' @ newline) s)
      else do {
        let filename = argv ! 1;
        (node, s1) \<leftarrow> fs_finddir drv (fs_root s) filename s;
        if node = 0
        then Some (complain ''Dosya bulunamadi: '' filename SHELL_ERROR_INVALID_ARGUMENTS s1)
        else do {
          n \<leftarrow> nodes s1 node;
          if fn_type n \<noteq> FS_FILE
          then Some (complain ''Dosya degil: '' filename SHELL_ERROR_INVALID_ARGUMENTS s1)
          else do {
            s2 \<leftarrow> fs_open drv node s1;
            n2 \<leftarrow> nodes s2 node;
            (count, s3) \<leftarrow> fs_read drv node 0 (if 1024 < fn_length n2 then 1024 else fn_length n2) buffer s2;
            if 1024 < count then None
            else do {
              let s4 = fold (\<lambda>i t. emit (Putc (char_of (unat (bytes t (buffer + of_nat i))))) t) [0..<unat count] s3;
              let s5 = (if 0 < count \<and> bytes s4 (buffer + (count - 1)) \<noteq> 0x0A then puts newline s4 else s4);
              s6 \<leftarrow> fs_close drv node s5;
              Some (SHELL_OK, s6)
            }
          }
        }
      })"

definition ps_format :: string where
  "ps_format = ''  %3d  | %8s | %s'' @ newline"

partial_function (option) ps_loop :: "u32 \<Rightarrow> nat \<Rightarrow> 'a kproc_scheme \<Rightarrow> (nat \<times> 'a kproc_scheme) option" where
  "ps_loop current count s =
     (if current = 0 then Some (count, s)
      else procs s current \<bind> (\<lambda>p. ps_loop (p_next p) (Suc count) (emit (Printf ps_format) s)))"

definition cmd_ps :: "string list \<Rightarrow> 'a kproc_scheme \<Rightarrow> (shell_status \<times> 'a kproc_scheme) option" where
  "cmd_ps argv s = do {
     let s1 = puts (''-------|---------|----------------'' @ newline)
       (puts (''  PID  |  DURUM  |  AD'' @ newline) s);
     (count, s2) \<leftarrow> ps_loop (process_list s1) 0 s1;
     Some (SHELL_OK, if count = 0 then puts (''Aktif islem bulunamadi.'' @ newline) s2 else s2)
   }"

text \<open>Days, hours and minutes; \<^verbatim>\<open>terminal_printf\<close> prints its format only.\<close>

definition uptime_parts :: "u32 \<Rightarrow> u32 \<times> u32 \<times> u32" where
  "uptime_parts ticks =
     (let seconds = ticks div 100; minutes = seconds div 60; hours = minutes div 60; days = hours div 24
      in (days, hours mod 24, minutes mod 60))"

definition cmd_uptime :: "string list \<Rightarrow> 'a kproc_scheme \<Rightarrow> shell_status \<times> 'a kproc_scheme" where
  "cmd_uptime argv s =
     (let (days, hours, minutes) = uptime_parts (get_tick_count s)
      in (SHELL_OK, emit (Printf (''%u days, %u hours, %u minutes'' @ newline)) (puts ''System uptime: '' s)))"

definition cmd_meminfo :: "string list \<Rightarrow> 'a kmem_scheme \<Rightarrow> shell_status \<times> 'a kmem_scheme" where
  "cmd_meminfo argv s = (SHELL_OK, memory_info s)"

section \<open>Running commands\<close>

definition run_handler :: "'a kshell_scheme fs_driver \<Rightarrow> u32 \<Rightarrow> shell_handler \<Rightarrow> string list \<Rightarrow>
    'a kshell_scheme \<Rightarrow> (shell_status \<times> 'a kshell_scheme) option" where
  "run_handler drv buffer h argv s = (case h of
     cmd_help_fn \<Rightarrow> Some (cmd_help argv s)
   | cmd_clear_fn \<Rightarrow> Some (cmd_clear argv s)
   | cmd_echo_fn \<Rightarrow> Some (cmd_echo argv s)
   | cmd_exit_fn \<Rightarrow> Some (cmd_exit argv s)
   | cmd_version_fn \<Rightarrow> Some (cmd_version argv s)
   | cmd_ls_fn \<Rightarrow> cmd_ls drv argv s
   | cmd_cd_fn \<Rightarrow> cmd_cd drv argv s
   | cmd_cat_fn \<Rightarrow> cmd_cat drv buffer argv s
   | cmd_ps_fn \<Rightarrow> cmd_ps argv s
   | cmd_uptime_fn \<Rightarrow> Some (cmd_uptime argv s)
   | cmd_meminfo_fn \<Rightarrow> Some (cmd_meminfo argv s))"

definition shell_execute_command :: "'a kshell_scheme fs_driver \<Rightarrow> u32 \<Rightarrow> string \<Rightarrow> 'a kshell_scheme \<Rightarrow>
    (shell_status \<times> 'a kshell_scheme) option" where
  "shell_execute_command drv buffer line s = do {
     argv \<leftarrow> parse_command line;
     if 0 < length argv
     then (case find_command (argv ! 0) of
         Some c \<Rightarrow> run_handler drv buffer (c_handler c) argv s
       | None \<Rightarrow> Some (complain ''Command not found: '' (argv ! 0) SHELL_ERROR_COMMAND_NOT_FOUND s))
     else Some (SHELL_OK, s)
   }"

text \<open>
  One round of the loop of \<^verbatim>\<open>shell_run\<close> with the line read, and the loop. The flag says that the
  loop is left.
\<close>

definition shell_round :: "'a kshell_scheme fs_driver \<Rightarrow> u32 \<Rightarrow> string \<Rightarrow> 'a kshell_scheme \<Rightarrow>
    (bool \<times> 'a kshell_scheme) option" where
  "shell_round drv buffer line s =
     (if line = [] then Some (False, s)
      else do {
        lc \<leftarrow> str_copy (last_command s) line SHELL_MAX_COMMAND_LENGTH;
        (st, s1) \<leftarrow> shell_execute_command drv buffer line (s\<lparr>last_command := lc\<rparr>);
        if st = SHELL_EXIT then Some (True, s1)
        else Some (False, s1\<lparr>exit_code := status_code st\<rparr>)
      })"

partial_function (option) shell_loop ::
  "'a kshell_scheme fs_driver \<Rightarrow> u32 \<Rightarrow> ('a kshell_scheme \<Rightarrow> (string \<times> 'a kshell_scheme) option) \<Rightarrow>
    'a kshell_scheme \<Rightarrow> 'a kshell_scheme option" where
  "shell_loop drv buffer input s = do {
     (line, s1) \<leftarrow> input (shell_print_prompt s);
     (leave, s2) \<leftarrow> shell_round drv buffer line s1;
     if leave then Some s2 else shell_loop drv buffer input s2
   }"

definition shell_run :: "'a kshell_scheme fs_driver \<Rightarrow> u32 \<Rightarrow>
    ('a kshell_scheme \<Rightarrow> (string \<times> 'a kshell_scheme) option) \<Rightarrow> 'a kshell_scheme \<Rightarrow> 'a kshell_scheme option" where
  "shell_run drv buffer input s = shell_loop drv buffer input (shell_print_banner s)"

text \<open>\<^verbatim>\<open>terminal_read_line\<close> of the terminal driver into the 256 bytes of \<^verbatim>\<open>command_line\<close>.\<close>

definition read_from_terminal :: "kterm \<Rightarrow> 'a kshell_scheme \<Rightarrow> (string \<times> 'a kshell_scheme) option" where
  "read_from_terminal term s =
     terminal_read_line (replicate 256 NUL) SHELL_MAX_COMMAND_LENGTH term \<bind> (\<lambda>(r, buf, term1). Some (cstr buf, s))"

section \<open>Lemmas\<close>

lemma emit_kshell [simp]:
  "current_dir (emit c s) = current_dir s" "last_command (emit c s) = last_command s"
  "username (emit c s) = username s" "hostname (emit c s) = hostname s"
  by (simp_all add: emit_def)

lemma commands_no_NUL: "c \<in> set commands \<Longrightarrow> NUL \<notin> set (c_name c)"
  by (auto simp: commands_def)

text \<open>The search by \<^verbatim>\<open>str_compare\<close> is the lookup of the name in the table.\<close>

lemma find_by_name:
  "NUL \<notin> set name \<Longrightarrow> \<forall>c \<in> set cs. NUL \<notin> set (c_name c) \<Longrightarrow>
    map_option c_handler (find (\<lambda>c. str_compare name (c_name c) = 0) cs)
      = map_of (map (\<lambda>c. (c_name c, c_handler c)) cs) name"
  by (induction cs) (auto simp: str_compare_zero)

lemma find_command_handler:
  "NUL \<notin> set name \<Longrightarrow> map_option c_handler (find_command name)
    = map_of (map (\<lambda>c. (c_name c, c_handler c)) commands) name"
  unfolding find_command_def by (rule find_by_name) (auto dest: commands_no_NUL)

definition cur_chars :: "(string \<times> bool) option \<Rightarrow> char set" where
  "cur_chars cur = (case cur of None \<Rightarrow> {} | Some a \<Rightarrow> set (fst a))"

lemma cur_chars_simps [simp]:
  "cur_chars None = {}" "cur_chars (Some a) = set (fst a)"
  "cur_chars (map_option (\<lambda>(t, sl). (t, True)) cur) = cur_chars cur"
  by (auto simp: cur_chars_def split: option.splits)

lemma scan_chars: "t \<in> set (scan q cur cs) \<Longrightarrow> set t \<subseteq> set cs \<union> cur_chars cur"
proof (induction cs arbitrary: q cur t)
  case Nil
  then show ?case by (auto split: option.splits)
next
  case (Cons c cs)
  have g: "set (fst (grow c cur)) \<subseteq> insert c (cur_chars cur)"
    by (cases "(c, cur)" rule: grow.cases) auto
  consider "t \<in> set (scan (Some c) (Some (if cur = None then ([], False) else grow c cur)) cs)"
    | "t \<in> set (scan None (map_option (\<lambda>(t, sl). (t, True)) cur) cs)"
    | "t \<in> set (case cur of None \<Rightarrow> [] | Some (t, sl) \<Rightarrow> [t])" | "t \<in> set (scan q None cs)"
    | "t \<in> set (scan q (Some (grow c cur)) cs)"
    using Cons.prems by (auto split: if_splits)
  then show ?case
  proof cases
    case 1
    from Cons.IH [OF this] g show ?thesis by (auto split: if_splits)
  next
    case 3
    then show ?thesis by (auto split: option.splits)
  qed (use Cons.IH g in fastforce)+
qed

lemma tokens_no_NUL: "NUL \<notin> set line \<Longrightarrow> t \<in> set (tokens line) \<Longrightarrow> NUL \<notin> set t"
  using scan_chars [of t None None line] by (auto simp: tokens_def)

lemma execute_tokens:
  assumes "parse_command line = Some toks" "\<forall>t \<in> set toks. NUL \<notin> set t"
  shows "shell_execute_command drv buffer line s = (case toks of
      [] \<Rightarrow> Some (SHELL_OK, s)
    | name # args \<Rightarrow> (case map_of (map (\<lambda>c. (c_name c, c_handler c)) commands) name of
          Some h \<Rightarrow> run_handler drv buffer h toks s
        | None \<Rightarrow> Some (SHELL_ERROR_COMMAND_NOT_FOUND,
            fold emit [Puts ''Command not found: '', Puts name, Puts newline] s)))"
proof (cases toks)
  case Nil
  with assms show ?thesis by (simp add: shell_execute_command_def)
next
  case (Cons name args)
  then show ?thesis
    using assms find_command_handler [of name]
    by (cases "find_command name") (auto simp: shell_execute_command_def complain_def split: option.splits)
qed

fun join_words :: "string list \<Rightarrow> string" where
  "join_words [] = []"
| "join_words [a] = a"
| "join_words (a # b # as) = a @ '' '' @ join_words (b # as)"

definition echo_calls :: "string list \<Rightarrow> nat \<Rightarrow> con_call list" where
  "echo_calls args i = Puts (args ! i) # (if Suc i < length args then [Puts '' ''] else [])"

lemma cmd_echo_calls:
  "cmd_echo (name # args) (s :: 'a console_scheme) = (SHELL_OK,
    fold emit (concat (map (echo_calls args) [0..<length args]) @ [Puts newline]) s)"
proof -
  let ?f = "\<lambda>i (t :: 'a console_scheme). let t1 = puts ((name # args) ! i) t in if i < length (name # args) - 1 then puts '' '' t1 else t1"
  have "[1..<length (name # args)] = map Suc [0..<length args]" by (simp add: map_Suc_upt)
  moreover have "?f \<circ> Suc = (\<lambda>i. fold emit (echo_calls args i))"
    by (rule ext)+ (simp add: echo_calls_def)
  ultimately have "fold ?f [1..<length (name # args)] s = fold (\<lambda>i. fold emit (echo_calls args i)) [0..<length args] s"
    by (simp only: fold_map)
  then show ?thesis by (simp only: cmd_echo_def Let_def fold_fold_emit) simp
qed

lemma echo_text:
  "\<forall>a \<in> set args. NUL \<notin> set a \<Longrightarrow>
    concat (map call_text (concat (map (echo_calls args) [0..<length args]))) = join_words args"
proof (induction args rule: join_words.induct)
  case 1
  then show ?case by simp
next
  case (2 a)
  then show ?case by (simp add: echo_calls_def call_text_def cstr_id)
next
  case (3 a b as)
  have "[0..<length (a # b # as)] = 0 # map Suc [0..<length (b # as)]"
    by (simp add: map_Suc_upt upt_conv_Cons del: upt_Suc)
  moreover have "echo_calls (a # b # as) \<circ> Suc = echo_calls (b # as)"
    by (rule ext) (simp add: echo_calls_def)
  ultimately have eq: "concat (map (echo_calls (a # b # as)) [0..<length (a # b # as)])
    = echo_calls (a # b # as) 0 @ concat (map (echo_calls (b # as)) [0..<length (b # as)])"
    by (simp only: list.map map_map concat.simps)
  have e0: "concat (map call_text (echo_calls (a # b # as) 0)) = a @ '' ''"
    using 3 by (simp add: echo_calls_def call_text_def cstr_id)
  have "concat (map call_text (concat (map (echo_calls (b # as)) [0..<length (b # as)]))) = join_words (b # as)"
    using 3 by (simp del: upt_Suc)
  then show ?case
    by (simp only: eq map_append concat_append e0 join_words.simps append_assoc)
qed

section \<open>Files\<close>

lemma fs_finddir_hangs:
  assumes "nodes s node = Some n" "node \<noteq> 0" "fn_type n = FS_DIRECTORY" "fn_finddir n = Op_fs"
  shows "fs_finddir drv node name s = None"
  using fs_finddir_self [OF _ assms] by (cases "fs_finddir drv node name s") blast+

lemma shell_loop_no_input: "input (shell_print_prompt s) = None \<Longrightarrow> shell_loop drv buffer input s = None"
  by (subst shell_loop.simps) simp

lemma read_from_terminal_None: "read_from_terminal term s = None"
  by (simp add: read_from_terminal_def terminal_read_line_def terminal_gets_eq)

text \<open>Printing children one after the other.\<close>

definition entry_calls :: "fs_node \<Rightarrow> nat \<Rightarrow> con_call list" where
  "entry_calls n count =
     [Set_fg (if fn_type n = FS_DIRECTORY then VGA_COLOR_LIGHT_BLUE
        else if fn_type n = FS_FILE then VGA_COLOR_LIGHT_GREY else VGA_COLOR_LIGHT_RED),
      Puts (cstr (fn_name n))] @ (if fn_type n = FS_DIRECTORY then [Puts ''/''] else [])
     @ [Puts (if count mod 5 = 0 then newline else [CHR 0x09])]"

definition listing :: "fs_node list \<Rightarrow> con_call list" where
  "listing ns = concat (map (\<lambda>i. entry_calls (ns ! i) (Suc i)) [0..<length ns])
     @ (if length ns mod 5 \<noteq> 0 then [Puts newline] else [])
     @ [Reset_color, Puts (newline @ ''Toplam: ''), Print_int (of_nat (length ns)), Puts ('' oge'' @ newline)]"

lemma ls_entry_calls: "ls_entry n count s = fold emit (entry_calls n count) s"
  by (simp add: ls_entry_def entry_calls_def set_fg_def Let_def)

lemma nodes_fold_emit [simp]: "nodes (fold emit cs s) = nodes s"
  by (simp add: fold_emit)

lemma ls_loop_eq:
  "chain fn_next (nodes s) p xs \<Longrightarrow> ls_loop p k s = Some (k + length xs,
    fold emit (concat (map (\<lambda>i. entry_calls (the (nodes s (xs ! i))) (Suc (k + i))) [0..<length xs])) s)"
proof (induction xs arbitrary: p k s)
  case Nil
  then show ?case by (subst ls_loop.simps) simp
next
  case (Cons x xs)
  then obtain n where n: "p = x" "x \<noteq> 0" "nodes s x = Some n" "chain fn_next (nodes s) (fn_next n) xs" by auto
  let ?t = "ls_entry n (Suc k) s"
  have t: "nodes ?t = nodes s" by (simp add: ls_entry_calls)
  have up: "[0..<length (x # xs)] = 0 # map Suc [0..<length xs]"
    by (simp add: map_Suc_upt upt_conv_Cons del: upt_Suc)
  have "ls_loop p k s = ls_loop (fn_next n) (Suc k) ?t" using n by (subst ls_loop.simps) simp
  also have "\<dots> = Some (Suc k + length xs,
    fold emit (concat (map (\<lambda>i. entry_calls (the (nodes s (xs ! i))) (Suc (Suc k + i))) [0..<length xs])) ?t)"
    using Cons.IH [of ?t "fn_next n" "Suc k"] n t by simp
  finally show ?case
    unfolding up using n by (simp add: ls_entry_calls comp_def)
qed

lemma cmd_ls_root:
  assumes "children_of s (fs_root s) xs" "length argv = 1" "cstr (current_dir s) = ''/''"
  shows "cmd_ls drv argv s = Some (SHELL_OK, fold emit (listing (map (\<lambda>x. the (nodes s x)) xs)) s)"
proof -
  obtain dn where dn: "fs_root s \<noteq> 0" "nodes s (fs_root s) = Some dn" "fn_type dn = FS_DIRECTORY"
    "chain fn_next (nodes s) (fn_children dn) xs"
    using assms(1) by (auto simp: children_of_def)
  have "enter_dir drv ''/'' (fs_root s) s = Some (SHELL_OK, Some dn, s)"
    using dn by (simp add: enter_dir_def)
  moreover have "str_compare ''/'' ''/'' = 0" by (simp add: schar_def)
  moreover have "concat (map (\<lambda>i. entry_calls (map (\<lambda>x. the (nodes s x)) xs ! i) (Suc i)) [0..<length xs])
      = concat (map (\<lambda>i. entry_calls (the (nodes s (xs ! i))) (Suc i)) [0..<length xs])"
    by (rule arg_cong [of _ _ concat]) simp
  then have "listing (map (\<lambda>x. the (nodes s x)) xs)
      = concat (map (\<lambda>i. entry_calls (the (nodes s (xs ! i))) (Suc i)) [0..<length xs])
        @ (if length xs mod 5 \<noteq> 0 then [Puts newline] else [])
        @ [Reset_color, Puts (newline @ ''Toplam: ''), Print_int (of_nat (length xs)), Puts ('' oge'' @ newline)]"
    by (simp only: listing_def length_map)
  ultimately show ?thesis
    using assms(2,3) ls_loop_eq [OF dn(4), of 0]
    by (simp add: cmd_ls_def Let_def del: str_compare.simps)
qed

lemma ps_loop_eq:
  "chain p_next (procs s) p xs \<Longrightarrow>
    ps_loop p k s = Some (k + length xs, fold emit (replicate (length xs) (Printf ps_format)) s)"
proof (induction xs arbitrary: p k s)
  case Nil
  then show ?case by (subst ps_loop.simps) simp
next
  case (Cons x xs)
  then obtain pr where pr: "p = x" "x \<noteq> 0" "procs s x = Some pr" "chain p_next (procs s) (p_next pr) xs" by auto
  have "ps_loop p k s = ps_loop (p_next pr) (Suc k) (emit (Printf ps_format) s)"
    using pr by (subst ps_loop.simps) simp
  with Cons.IH [of "emit (Printf ps_format) s" "p_next pr" "Suc k"] pr show ?case by simp
qed

section \<open>The current directory\<close>

lemma last_slash_eq: "CHR ''/'' \<notin> set n \<Longrightarrow> last_slash (p @ CHR ''/'' # n) = Some (length p)"
proof (induction n rule: rev_induct)
  case Nil
  then show ?case by (simp add: last_slash_def)
next
  case (snoc c n)
  let ?d = "p @ CHR ''/'' # n"
  have "find (\<lambda>i. (?d @ [c]) ! i = CHR ''/'') (rev [0..<length ?d]) = find (\<lambda>i. ?d ! i = CHR ''/'') (rev [0..<length ?d])"
    by (intro find_cong refl) (simp only: set_rev set_upt atLeastLessThan_iff nth_append_left)
  moreover have "(?d @ [c]) ! length ?d \<noteq> CHR ''/''" using snoc.prems by (simp only: nth_append_length) auto
  ultimately have "last_slash (?d @ [c]) = last_slash ?d" by (simp add: last_slash_def)
  with snoc show ?case by simp
qed

lemma cstr_cut:
  assumes "i < length (cstr b)"
  shows "cstr (b[i := NUL]) = take i (cstr b)"
proof -
  let ?c = "cstr b"
  have b: "b = ?c @ dropWhile (\<lambda>c. c \<noteq> NUL) b" by (simp add: cstr_def)
  have pre: "take i b = take i ?c" using assms by (subst b) simp
  have len: "i < length b" using assms by (subst b) simp
  have "NUL \<notin> set (take i ?c)" using cstr_no_NUL by (meson in_set_takeD)
  then show ?thesis by (simp only: upd_conv_take_nth_drop [OF len] pre cstr_ends not_False_eq_True)
qed

lemma cd_copy:
  "length b = 256 \<Longrightarrow> NUL \<notin> set path \<Longrightarrow>
    \<exists>d. str_copy b path 256 = Some d \<and> length d = 256 \<and> cstr d = take 255 path"
  using copy_cstr_cstr [of path 255 b] by (auto simp: str_copy_def)


section \<open>Properties of the whole\<close>

text \<open>
  C19: a line runs the command whose name its first argument is, with all arguments of the
  reference tokenizer; an unknown name is reported, and a blank line does nothing.
\<close>

theorem shell_dispatch:
  assumes "NUL \<notin> set line" "length (tokens (take 255 line)) < 64"
  shows "shell_execute_command drv buffer line s = (case tokens (take 255 line) of
      [] \<Rightarrow> Some (SHELL_OK, s)
    | name # args \<Rightarrow> (case map_of (map (\<lambda>c. (c_name c, c_handler c)) commands) name of
          Some h \<Rightarrow> run_handler drv buffer h (name # args) s
        | None \<Rightarrow> Some (SHELL_ERROR_COMMAND_NOT_FOUND,
            fold emit [Puts ''Command not found: '', Puts name, Puts newline] s)))"
proof -
  have "NUL \<notin> set (take 255 line)" using assms(1) by (meson in_set_takeD)
  then have "\<forall>t \<in> set (tokens (take 255 line)). NUL \<notin> set t" using tokens_no_NUL by blast
  moreover have "parse_command line = Some (tokens (take 255 line))"
    using assms by (simp add: parse_command_eq)
  ultimately have "shell_execute_command drv buffer line s = (case tokens (take 255 line) of
      [] \<Rightarrow> Some (SHELL_OK, s)
    | name # args \<Rightarrow> (case map_of (map (\<lambda>c. (c_name c, c_handler c)) commands) name of
          Some h \<Rightarrow> run_handler drv buffer h (tokens (take 255 line)) s
        | None \<Rightarrow> Some (SHELL_ERROR_COMMAND_NOT_FOUND,
            fold emit [Puts ''Command not found: '', Puts name, Puts newline] s)))"
    by (intro execute_tokens)
  then show ?thesis by (cases "tokens (take 255 line)") (simp_all split: option.split)
qed

text \<open>
  C21: \<^verbatim>\<open>echo\<close> with arguments written for the shell prints these arguments, separated by blanks,
  and a line feed: the text that reaches the terminal is what was asked for.
\<close>

theorem shell_echo:
  assumes "\<forall>a \<in> set args. CHR 0x22 \<notin> set a \<and> NUL \<notin> set a" "length args < 63"
    "length (command_line (''echo'' # args)) \<le> 255"
  shows "\<exists>calls. shell_execute_command drv buffer (command_line (''echo'' # args)) s
      = Some (SHELL_OK, fold emit calls s) \<and>
    concat (map call_text calls) = join_words args @ newline"
proof -
  let ?calls = "concat (map (echo_calls args) [0..<length args]) @ [Puts newline]"
  have "NUL \<notin> set (command_line (''echo'' # args))"
    using assms(1) by (auto simp: command_line_def shell_quote_def)
  moreover have "tokens (command_line (''echo'' # args)) = ''echo'' # args"
    using assms(1) by (intro tokens_command_line) auto
  ultimately have "parse_command (command_line (''echo'' # args)) = Some (''echo'' # args)"
    using assms(2,3) by (simp add: parse_command_eq)
  then have "shell_execute_command drv buffer (command_line (''echo'' # args)) s = Some (SHELL_OK, fold emit ?calls s)"
    using assms(1) by (subst execute_tokens) (auto simp: commands_def run_handler_def cmd_echo_calls)
  moreover have "concat (map call_text ?calls) = join_words args @ newline"
    using echo_text [of args] assms(1) by (simp add: call_text_def newline_def cstr_id)
  ultimately show ?thesis by blast
qed

text \<open>
  \<^verbatim>\<open>ls\<close> in the root prints every child once, in list order, with its kind, and their number;
  \<^verbatim>\<open>ps\<close> prints one line per process, but the same line for all: the terminal's
  \<^verbatim>\<open>terminal_printf\<close> shows neither number nor state nor name.
\<close>

theorem shell_lists:
  assumes "children_of s (fs_root s) xs" "cstr (current_dir s) = ''/''"
    "chain p_next (procs s) (process_list s) ps" "ps \<noteq> []"
  shows "cmd_ls drv [''ls''] s = Some (SHELL_OK, fold emit (listing (map (\<lambda>x. the (nodes s x)) xs)) s) \<and>
    cmd_ps [''ps''] s = Some (SHELL_OK, fold emit ([Puts (''  PID  |  DURUM  |  AD'' @ newline),
      Puts (''-------|---------|----------------'' @ newline)] @ replicate (length ps) (Printf ps_format)) s) \<and>
    call_text (Printf ps_format) = ''  %3d  | %8s | (string)'' @ newline"
proof -
  have "call_text (Printf ps_format) = ''  %3d  | %8s | (string)'' @ newline" by code_simp
  moreover have "cmd_ps [''ps''] s = Some (SHELL_OK, fold emit ([Puts (''  PID  |  DURUM  |  AD'' @ newline),
      Puts (''-------|---------|----------------'' @ newline)] @ replicate (length ps) (Printf ps_format)) s)"
    using assms(3,4) ps_loop_eq [of "puts (''-------|---------|----------------'' @ newline)
      (puts (''  PID  |  DURUM  |  AD'' @ newline) s)" "process_list s" ps 0]
    by (simp add: cmd_ps_def Let_def)
  ultimately show ?thesis using cmd_ls_root [OF assms(1) _ assms(2), of "[''ls'']"] by simp
qed

text \<open>
  On the file system that \<^verbatim>\<open>fs_init\<close> sets up, \<^verbatim>\<open>ls\<close>, \<^verbatim>\<open>cd\<close> and \<^verbatim>\<open>cat\<close> of any name never
  return, since the lookup in the root calls itself.
\<close>

theorem shell_files_never_return:
  assumes "fs_init s = Some t" "heap_end s \<noteq> 0" "NUL \<notin> set name" "name \<noteq> ''/''" "name \<noteq> ''..''"
  shows "cmd_ls drv [''ls'', name] t = None \<and> cmd_cd drv [''cd'', name] t = None \<and>
    cmd_cat drv buffer [''cat'', name] t = None"
proof -
  obtain n where "nodes t (fs_root t) = Some n" "fs_root t \<noteq> 0" "fn_type n = FS_DIRECTORY" "fn_finddir n = Op_fs"
    using fs_init_root [OF assms(2)] assms(1,2) by auto
  then have "fs_finddir drv (fs_root t) name t = None" by (intro fs_finddir_hangs)
  then show ?thesis
    using assms(3-5) by (simp add: cmd_ls_def cmd_cd_def cmd_cat_def str_compare_zero del: str_compare.simps)
qed

text \<open>
  With the terminal of the kernel the shell never runs a command: the first line it reads
  never comes, whatever is on the screen or in the keyboard buffer.
\<close>

theorem shell_run_never_reads:
  "shell_run drv buffer (read_from_terminal term) s = None"
  by (simp add: shell_run_def shell_loop_no_input read_from_terminal_None)

section \<open>Examples\<close>

text \<open>
  A shell in \<^verbatim>\<open>/home/u\<close>, over the directory of the file system's example, with two processes and a
  driver whose lookup knows one name.
\<close>

definition kshell0 :: kshell where
  "kshell0 = (kfs.extend kfs_dir \<lparr>current_dir = ''/home/u'' @ replicate 249 NUL, sh_flags = 0,
     username = replicate 32 NUL, hostname = replicate 32 NUL, last_command = replicate 256 NUL,
     exit_code = 0\<rparr>)\<lparr>process_list := 0x101000,
       procs := [0x101000 \<mapsto> junk_proc\<lparr>p_next := 0x102000\<rparr>, 0x102000 \<mapsto> junk_proc]\<rparr>"

definition etc_driver :: "kshell fs_driver" where
  "etc_driver = \<lparr>drv_read = (\<lambda>_ _ _ _ _ _. None), drv_write = (\<lambda>_ _ _ _ _ _. None),
     drv_open = (\<lambda>_ _ _. None), drv_close = (\<lambda>_ _ _. None), drv_readdir = (\<lambda>_ _ _ _. None),
     drv_finddir = (\<lambda>_ _ nm s. Some (if nm = ''etc'' then 0x2000 else 0, s))\<rparr>"

lemma kshell0_simps [simp]:
  "current_dir kshell0 = ''/home/u'' @ replicate 249 NUL" "process_list kshell0 = 0x101000"
  "procs kshell0 = [0x101000 \<mapsto> junk_proc\<lparr>p_next := 0x102000\<rparr>, 0x102000 \<mapsto> junk_proc]"
  "nodes kshell0 = nodes kfs_dir" "fs_root kshell0 = 0x2000" "heap_end kshell0 = 0x100000"
  by (simp_all add: kshell0_def kfs_dir_def kfs0_def kproc.defs kfs.defs)

lemma kshell0_dir: "nodes kshell0 0x2000 = Some (zero_node\<lparr>fn_type := FS_DIRECTORY,
    fn_children := 0x3000, fn_finddir := Op_dev 0\<rparr>)"
  by (simp add: kfs_dir_def)


theorem shell_dispatch_witness:
  "shell_execute_command etc_driver 0x9000 '' sudo rm'' kshell0 = Some (SHELL_ERROR_COMMAND_NOT_FOUND,
    fold emit [Puts ''Command not found: '', Puts ''sudo'', Puts newline] kshell0)"
proof -
  have "tokens '' sudo rm'' = [''sudo'', ''rm'']" by code_simp
  then show ?thesis
    using shell_dispatch [of "'' sudo rm''" etc_driver "0x9000" kshell0] by (simp add: commands_def)
qed

theorem shell_echo_witness:
  "\<exists>calls. shell_execute_command etc_driver 0x9000 (command_line [''echo'', ''a b'', ''c'']) kshell0
      = Some (SHELL_OK, fold emit calls kshell0) \<and> concat (map call_text calls) = ''a b c'' @ newline"
  using shell_echo [of "[''a b'', ''c'']" etc_driver "0x9000" kshell0]
  by (simp add: command_line_def shell_quote_def)

theorem shell_lists_witness:
  "\<exists>u v. u = kshell0\<lparr>current_dir := ''/'' @ replicate 255 NUL\<rparr> \<and>
    cmd_ps [''ps''] u = Some (SHELL_OK, v) \<and> length (con_out v) = length (con_out u) + 4 \<and>
    cmd_ls etc_driver [''ls''] u = Some (SHELL_OK, fold emit (listing [the (nodes kfs_dir 0x3000)]) u)"
proof -
  let ?u = "kshell0\<lparr>current_dir := ''/'' @ replicate 255 NUL\<rparr>"
  have "children_of ?u (fs_root ?u) [0x3000]"
    by (simp add: children_of_def kfs_dir_def zero_node_def)
  moreover have "cstr (current_dir ?u) = ''/''" by (simp add: cstr_def)
  moreover have "chain p_next (procs ?u) (process_list ?u) [0x101000, 0x102000]"
    by (simp add: junk_proc_def)
  ultimately show ?thesis
    using shell_lists [of ?u "[0x3000]" "[0x101000, 0x102000]" etc_driver] by simp
qed

theorem shell_files_never_return_witness:
  "\<exists>t. fs_init kshell0 = Some t \<and> cmd_cat etc_driver 0x9000 [''cat'', ''readme''] t = None"
proof -
  obtain t where "fs_init kshell0 = Some t" using fs_init_root [of kshell0] by auto
  then show ?thesis using shell_files_never_return [of kshell0 t "''readme''" etc_driver "0x9000"] by auto
qed

end
