(* ===== verification/Boot.thy ===== *)
theory Boot
  imports MemoryInit Timer Keyboard Shell
begin

text \<open>
  The start of the kernel, \<^verbatim>\<open>kernel_main\<close> of \<^verbatim>\<open>src/kernel/init/main.c\<close>, which calls the start-up
  functions of the other components in turn. The machine consists of what the components share,
  the memory, the interrupt tables and the console, and of the static variables of the timer,
  the keyboard and the shell. \<^verbatim>\<open>keyboard_wait_keypress\<close> is defined in no file of the repository and
  is a parameter.
\<close>

section \<open>The machine\<close>

record boot_info =
  mem_lower :: u32
  mem_upper :: u32
  cmdline :: string
  boot_loader_name :: string

record kboot =
  core :: kintr
  timer_part :: "unit ktimer_ext"
  keyboard_part :: "unit kkbd_ext"
  shell_part :: "unit kshell_ext kfs_ext kproc_ext"
  screen_part :: kterm
  sys_info :: boot_info

definition on_core :: "(kintr \<Rightarrow> kintr) \<Rightarrow> kboot \<Rightarrow> kboot" where
  "on_core f m = m\<lparr>core := f (core m)\<rparr>"

definition on_timer :: "(ktimer \<Rightarrow> ktimer) \<Rightarrow> kboot \<Rightarrow> kboot" where
  "on_timer f m =
     (let w = f (kintr.extend (core m) (timer_part m))
      in m\<lparr>core := kintr.truncate w, timer_part := kintr.more w\<rparr>)"

definition on_keyboard :: "(kkbd \<Rightarrow> kkbd) \<Rightarrow> kboot \<Rightarrow> kboot" where
  "on_keyboard f m =
     (let w = f (kintr.extend (core m) (keyboard_part m))
      in m\<lparr>core := kintr.truncate w, keyboard_part := kintr.more w\<rparr>)"

abbreviation KLUXOS_VERSION :: string where "KLUXOS_VERSION \<equiv> ''0.1.0''"
abbreviation KLUXOS_NAME :: string where "KLUXOS_NAME \<equiv> ''KluxOS''"

definition boot_banner :: "con_call list" where
  "boot_banner =
     [Set_fg VGA_COLOR_LIGHT_CYAN, Puts newline,
      Puts (''  K   K L     U   U X   X   OOO   SSSS '' @ newline),
      Puts (''  K  K  L     U   U  X X   O   O S     '' @ newline),
      Puts (''  KKK   L     U   U   X    O   O  SSS  '' @ newline),
      Puts (''  K  K  L     U   U  X X   O   O     S '' @ newline),
      Puts (''  K   K LLLLL  UUU  X   X   OOO  SSSS  '' @ newline),
      Puts newline, Set_fg VGA_COLOR_WHITE, Puts '' '', Puts KLUXOS_NAME, Puts '' '', Puts KLUXOS_VERSION,
      Puts ('' - Basit x86 Isletim Sistemi'' @ newline),
      Puts ('' (c) 2023-2024 KluxOS Gelistirme Ekibi'' @ newline @ newline), Reset_color]"

definition system_lines :: "boot_info \<Rightarrow> con_call list" where
  "system_lines info =
     [Set_fg VGA_COLOR_LIGHT_GREY, Puts (''Sistem Bilgileri:'' @ newline), Puts (''----------------'' @ newline),
      Reset_color, Puts ''Bootloader: '', Puts (boot_loader_name info), Puts newline,
      Puts ''Bellek: Alt: '', Print_int (mem_lower info), Puts '' KB, Ust: '', Print_int (mem_upper info),
      Puts ('' KB'' @ newline), Puts ''Komut Satiri: '', Puts (cmdline info), Puts (newline @ newline)]"

text \<open>
  Everything before the key press. The pointer of the boot loader is not looked at. \<^const>\<open>None\<close>
  is the endless loop of the frame allocation, or the processor that cannot go on once
  \<^verbatim>\<open>init_paging\<close> has switched paging on.
\<close>

definition kernel_start :: "(u16 \<Rightarrow> u8) \<Rightarrow> (nat \<Rightarrow> u32) \<Rightarrow> u32 \<Rightarrow> kboot \<Rightarrow> kboot option" where
  "kernel_start inb isr_addr table m =
     do {
       let m1 = m\<lparr>sys_info := \<lparr>mem_lower = 640, mem_upper = 64 * 1024,
         cmdline = ''root=/dev/sda1'', boot_loader_name = ''GRUB''\<rparr>\<rparr>;
       let m2 = m1\<lparr>screen_part := terminal_initialize (screen_part m1)\<rparr>;
       let m3 = on_core (fold emit boot_banner) m2;
       c \<leftarrow> init_memory (core m3);
       let m4 = m3\<lparr>core := c\<rparr>;
       let m5 = on_core (idt_init inb isr_addr table) m4;
       let m6 = on_timer (pit_init 100) m5;
       let m7 = on_timer register_timer_callback m6;
       let m8 = on_keyboard keyboard_init m7;
       let m9 = on_core (fold emit (system_lines (sys_info m8))) m8;
       let m10 = on_core memory_info m9;
       let m11 = on_timer (init_complete_update (\<lambda>_. True)) m10;
       Some (on_core (puts (newline @ ''Kabu'' @ tr_g @ ''u ba'' @ tr_s @ ''latmak i'' @ tr_c @
         ''in herhangi bir tu'' @ tr_s @ ''a bas'' @ tr_i @ ''n...'' @ newline)) m11)
     }"

text \<open>The result would be the machine in which the last loop halts the processor for good.\<close>

definition kernel_main :: "(u16 \<Rightarrow> u8) \<Rightarrow> (nat \<Rightarrow> u32) \<Rightarrow> u32 \<Rightarrow> (kboot \<Rightarrow> kboot option) \<Rightarrow>
    kshell fs_driver \<Rightarrow> u32 \<Rightarrow> kboot \<Rightarrow> kboot option" where
  "kernel_main inb isr_addr table keyboard_wait_keypress drv buffer m =
     do {
       m1 \<leftarrow> kernel_start inb isr_addr table m;
       m2 \<leftarrow> keyboard_wait_keypress m1;
       w \<leftarrow> shell_run drv buffer (read_from_terminal (screen_part m2)) (kintr.extend (core m2) (shell_part m2));
       Some (m2\<lparr>core := kintr.truncate w, shell_part := kintr.more w\<rparr>)
     }"

section \<open>The start\<close>

lemma kintr_more:
  "kmem.more t = kmem.more (s :: kintr) \<Longrightarrow> idt_entries t = idt_entries s \<and> handlers t = handlers s \<and>
    port_out t = port_out s \<and> pic1_mask t = pic1_mask s \<and> int_enabled t = int_enabled s"
  by (cases s; cases t) simp

lemma view_fields [simp]:
  "kintr.truncate (kintr.extend c x) = c" "kintr.more (kintr.extend c x) = x"
  "idt_entries (kintr.truncate w) = idt_entries w" "handlers (kintr.truncate w) = handlers w"
  "port_out (kintr.truncate w) = port_out w" "int_enabled (kintr.truncate w) = int_enabled w"
  "idt_entries (kintr.extend c x) = idt_entries c" "handlers (kintr.extend c x) = handlers c"
  "port_out (kintr.extend c x) = port_out c" "int_enabled (kintr.extend c x) = int_enabled c"
  by (simp_all add: kintr.defs)

lemma timer_callback_shared [simp]:
  "idt_entries (register_timer_callback w) = idt_entries w" "handlers (register_timer_callback w) = handlers w"
  "port_out (register_timer_callback w) = port_out w" "int_enabled (register_timer_callback w) = int_enabled w"
  by (simp_all add: register_timer_callback_def)

lemma pit_init_shared [simp]:
  "idt_entries (pit_init f w) = idt_entries w" "int_enabled (pit_init f w) = int_enabled w"
  by (simp_all add: pit_init_def Let_def io_wait_def register_interrupt_handler_def emit_def outb_def)

lemma keyboard_init_shared [simp]:
  "idt_entries (keyboard_init w) = idt_entries w" "int_enabled (keyboard_init w) = int_enabled w"
  "port_out (keyboard_init w) = port_out w"
  "handlers (keyboard_init w) = (handlers w)[33 := Some Isr_keyboard_handler]"
  "buffer_count (keyboard_init w) = 0"
  by (simp_all add: keyboard_init_def Let_def register_interrupt_handler_def emit_def IRQ1_def)

lemma fold_emit_kintr [simp]:
  "idt_entries (fold emit cs s) = idt_entries s" "handlers (fold emit cs s) = handlers s"
  "port_out (fold emit cs s) = port_out s" "int_enabled (fold emit cs s) = int_enabled s"
  by (simp_all add: fold_emit)

lemma memory_info_kintr [simp]:
  "idt_entries (memory_info s) = idt_entries s" "handlers (memory_info s) = handlers s"
  "port_out (memory_info s) = port_out s" "int_enabled (memory_info s) = int_enabled s"
  by (simp_all add: memory_info_def Let_def report_kb_def emit_def)

lemma idt_init_kintr [simp]:
  "handlers (idt_init inb isr_addr table s) = handlers s" "int_enabled (idt_init inb isr_addr table s)"
proof -
  have "handlers (fold (\<lambda>i. idt_gate i (f i)) is u) = handlers u" for f "is" and u :: "'a kintr_scheme"
    by (induction "is" arbitrary: u) (simp_all add: idt_gate_def)
  then show "handlers (idt_init inb isr_addr table s) = handlers s" "int_enabled (idt_init inb isr_addr table s)"
    by (simp_all add: idt_init_def Let_def del: upt_rec_numeral)
qed

lemma pit_init_handlers: "handlers (pit_init f w) = (handlers w)[32 := Some Isr_pit_handler]"
  by (simp add: pit_init_def Let_def io_wait_def register_interrupt_handler_def)

text \<open>What \<open>kernel_start\<close> returns, in terms of the memory after \<open>init_memory\<close>.\<close>

lemma kernel_start_fields:
  assumes "init_memory (fold emit boot_banner (core m)) = Some c"
  shows "\<exists>t. kernel_start inb isr_addr table m = Some t \<and>
    idt_entries (core t) = idt_entries (idt_init inb isr_addr table c) \<and>
    handlers (core t) = (handlers c)[32 := Some Isr_pit_handler, 33 := Some Isr_keyboard_handler] \<and>
    int_enabled (core t) \<and> shell_part t = shell_part m \<and>
    (\<exists>rest. port_out (core t) = port_out (pic_init inb 0x20 0x28 c) @ rest \<and>
      map fst rest = [PIT_COMMAND, PIT_CHANNEL0, 0x80, PIT_CHANNEL0])"
  using assms
  by (simp add: kernel_start_def on_core_def on_timer_def on_keyboard_def Let_def idt_init_ports pit_init_out
      pit_init_handlers del: fold_simps)

text \<open>
  The mask of a controller line: the last byte written to the data port of the controller.
\<close>

definition last_write :: "u16 \<Rightarrow> (u16 \<times> u8) list \<Rightarrow> u8" where
  "last_write port out = snd (last (filter (\<lambda>w. fst w = port) out))"

text \<open>No start function after \<^verbatim>\<open>pic_init\<close> writes a mask.\<close>

lemma kernel_start_masked:
  assumes out: "out = port_out (pic_init inb 0x20 0x28 c) @ rest"
    and rest: "map fst rest = [PIT_COMMAND, PIT_CHANNEL0, 0x80, PIT_CHANNEL0]"
  shows "last_write PIC1_DATA out = 0xFF" "last_write PIC2_DATA out = 0xFF"
proof -
  have "filter (\<lambda>w. fst w = p) rest = []" if "p \<in> {PIC1_DATA, PIC2_DATA}" for p
  proof -
    have "fst ` set rest = {PIT_COMMAND, PIT_CHANNEL0, 0x80, PIT_CHANNEL0}"
      using arg_cong [OF rest, of set] by simp
    moreover have "p \<notin> {PIT_COMMAND, PIT_CHANNEL0, 0x80, PIT_CHANNEL0}"
      using that by (auto simp: PIC1_DATA_def PIC2_DATA_def)
    ultimately have "p \<notin> fst ` set rest" by simp
    then show ?thesis by (auto simp: filter_empty_conv image_iff)
  qed
  then show "last_write PIC1_DATA out = 0xFF" "last_write PIC2_DATA out = 0xFF"
    by (simp_all add: last_write_def out pic_init_def io_wait_def Let_def PIC1_DATA_def PIC2_DATA_def
      PIC1_COMMAND_def PIC2_COMMAND_def)
qed

text \<open>The console does not touch the layout.\<close>

lemma start_layout_emit:
  "start_layout (fold emit cs s) = start_layout s" "bytes (fold emit cs s) = bytes s"
  "kernel_end (fold emit cs s) = kernel_end s"
proof -
  have e: "bytes (fold emit cs s) = bytes s" "kernel_end (fold emit cs s) = kernel_end s"
    "page_directory (fold emit cs s) = page_directory s" "kernel_heap (fold emit cs s) = kernel_heap s"
    by (simp_all add: fold_emit)
  then show "bytes (fold emit cs s) = bytes s" "kernel_end (fold emit cs s) = kernel_end s" by simp_all
  show "start_layout (fold emit cs s) = start_layout s"
    using e by (simp add: start_layout_def boot_written_def stray_word_def boot_directory_def pte_addr_def pde_addr_def)
qed

lemma kernel_start_memory:
  "kernel_start inb isr_addr table m = Some t \<Longrightarrow> \<exists>c. init_memory (fold emit boot_banner (core m)) = Some c"
  by (cases "init_memory (fold emit boot_banner (core m))")
    (simp_all add: kernel_start_def on_core_def Let_def del: fold_simps)

lemma kernel_start_result:
  assumes "kernel_start inb isr_addr table m = Some t"
  obtains c rest where "init_memory (fold emit boot_banner (core m)) = Some c"
    "idt_entries c = idt_entries (core m)" "handlers c = handlers (core m)"
    "idt_entries (core t) = idt_entries (idt_init inb isr_addr table c)"
    "handlers (core t) = (handlers (core m))[32 := Some Isr_pit_handler, 33 := Some Isr_keyboard_handler]"
    "int_enabled (core t)" "shell_part t = shell_part m"
    "port_out (core t) = port_out (pic_init inb 0x20 0x28 c) @ rest"
    "map fst rest = [PIT_COMMAND, PIT_CHANNEL0, 0x80, PIT_CHANNEL0]"
proof -
  obtain c where c: "init_memory (fold emit boot_banner (core m)) = Some c" using kernel_start_memory [OF assms] by blast
  have k: "idt_entries c = idt_entries (core m)" "handlers c = handlers (core m)"
    using kintr_more [OF init_memory_more [OF c]] by simp_all
  obtain u rest where u: "kernel_start inb isr_addr table m = Some u"
    "idt_entries (core u) = idt_entries (idt_init inb isr_addr table c)"
    "handlers (core u) = (handlers c)[32 := Some Isr_pit_handler, 33 := Some Isr_keyboard_handler]"
    "int_enabled (core u)" "shell_part u = shell_part m"
    "port_out (core u) = port_out (pic_init inb 0x20 0x28 c) @ rest"
    "map fst rest = [PIT_COMMAND, PIT_CHANNEL0, 0x80, PIT_CHANNEL0]"
    using kernel_start_fields [OF c] by metis
  have "u = t" using u(1) assms by simp
  with u k that c show ?thesis by simp
qed

lemma kernel_start_defined:
  assumes "start_layout (core m)"
  shows "kernel_start inb isr_addr table m \<noteq> None \<longleftrightarrow> maps_kernel (bytes (core m)) 0 (kernel_end (core m))"
  using init_memory_outcome [of "fold emit boot_banner (core m)"] assms kernel_start_fields
    kernel_start_memory [of inb isr_addr table m]
  unfolding start_layout_emit by fastforce


text \<open>The machine with zeroed memory, and with tables at address 0 that map the first 4 MB.\<close>

definition kboot0 :: kboot where
  "kboot0 = \<lparr>core = kintr0, timer_part = kintr.more ktimer0, keyboard_part = kintr.more kkbd0,
     shell_part = kintr.more kshell0, screen_part = kterm0,
     sys_info = \<lparr>mem_lower = 0, mem_upper = 0, cmdline = [], boot_loader_name = []\<rparr>\<rparr>"

definition kboot1 :: kboot where
  "kboot1 = kboot0\<lparr>core := kintr0\<lparr>bytes := identity_tables\<rparr>\<rparr>"

lemma kboot_layouts:
  "start_layout (core kboot0)" "\<not> maps_kernel (bytes (core kboot0)) 0 (kernel_end (core kboot0))"
  "start_layout (core kboot1)" "maps_kernel (bytes (core kboot1)) 0 (kernel_end (core kboot1))"
  "tables_ok (core kboot0)" "tables_ok (core kboot1)"
proof -
  have e: "example_layout (core kboot0)" "bytes (core kboot0) = (\<lambda>_. 0)"
    "example_layout (core kboot1)" "bytes (core kboot1) = identity_tables"
    by (simp_all add: example_layout_def kboot0_def kboot1_def kintr0_def kmem.defs kmem0_def)
  show "start_layout (core kboot0)" "\<not> maps_kernel (bytes (core kboot0)) 0 (kernel_end (core kboot0))"
    by (rule zero_memory_not_mapped [OF e(1,2)])+
  show "start_layout (core kboot1)" "maps_kernel (bytes (core kboot1)) 0 (kernel_end (core kboot1))"
    by (rule identity_tables_mapped [OF e(3,4)])+
  show "tables_ok (core kboot0)" "tables_ok (core kboot1)"
    using tables_ok_kintr0 by (simp_all add: kboot0_def kboot1_def tables_ok_def)
qed


end
