(* ===== verification/Machine.thy ===== *)
theory Machine
  imports Boot
begin

text \<open>
  The running machine: interrupts of the devices on the kernel that \<^verbatim>\<open>kernel_main\<close> has started. A
  line that is not masked makes the stub of \<^verbatim>\<open>interrupt.s\<close> call \<^verbatim>\<open>irq_handler\<close> of \<^verbatim>\<open>idt.c\<close> with the
  number of the line, and that calls the registered handler of the component. The handlers of
  the timer and of the keyboard are steps of \<open>Timer\<close> and \<open>Keyboard\<close> on their own variables and on
  what all components share.
\<close>

section \<open>Handlers on the machine\<close>

text \<open>All static variables in one record: what the components share, and the variables of each.\<close>

type_synonym kparts = "unit ktimer_ext \<times> unit kkbd_ext \<times> unit kshell_ext kfs_ext kproc_ext"

definition machine_view :: "kboot \<Rightarrow> kparts kintr_scheme" where
  "machine_view m = kintr.extend (core m) (timer_part m, keyboard_part m, shell_part m)"

definition machine_update :: "kparts kintr_scheme \<Rightarrow> kboot \<Rightarrow> kboot" where
  "machine_update w m =
     (case kintr.more w of (tp, kp, pp) \<Rightarrow>
       m\<lparr>core := kintr.truncate w, timer_part := tp, keyboard_part := kp, shell_part := pp\<rparr>)"

text \<open>
  A call through the handler table. The handlers of the keyboard and of the scheduler take no
  argument and ignore the error code; the handler of system calls would read arguments that
  nobody passes. \<open>inb\<close> is what the ports answer while the handler runs.
\<close>

definition run_isr :: "(u16 \<Rightarrow> u16 \<Rightarrow> con_call list) \<Rightarrow> (u16 \<Rightarrow> u8) \<Rightarrow> isr \<Rightarrow> u32 \<Rightarrow>
    kparts kintr_scheme \<Rightarrow> kparts kintr_scheme option" where
  "run_isr goto inb h err w =
     (case kintr.more w of (tp, kp, pp) \<Rightarrow>
       (case h of
         Isr_pit_handler \<Rightarrow>
           (let v = pit_handler goto (kintr.extend (kintr.truncate w) tp)
            in Some (kintr.extend (kintr.truncate v) (kintr.more v, kp, pp)))
       | Isr_keyboard_handler \<Rightarrow>
           (let v = keyboard_handler inb (kintr.extend (kintr.truncate w) kp)
            in Some (kintr.extend (kintr.truncate v) (tp, kintr.more v, pp)))
       | Isr_scheduler_tick \<Rightarrow>
           map_option (\<lambda>v. kintr.extend (kintr.truncate v) (tp, kp, kintr.more v))
             (scheduler_tick (kintr.extend (kintr.truncate w) pp))
       | Isr_syscall_handler \<Rightarrow> None))"

section \<open>Device events\<close>

text \<open>
  A tick of the timer or a scancode of the keyboard. An event on a masked line, or while the
  processor takes no interrupts, has no effect here; the one event that a controller keeps for
  a line until it is unmasked is left out.
\<close>

datatype device_event = Tick | Scancode u8

primrec event_line :: "device_event \<Rightarrow> nat" where
  "event_line Tick = 0"
| "event_line (Scancode sc) = 1"

primrec event_port :: "device_event \<Rightarrow> u16 \<Rightarrow> u8" where
  "event_port Tick = (\<lambda>_. 0xFF)"
| "event_port (Scancode sc) = (\<lambda>_. sc)"

definition line_open :: "nat \<Rightarrow> (u16 \<times> u8) list \<Rightarrow> bool" where
  "line_open i out \<longleftrightarrow>
     (if i < 8 then \<not> bit (last_write PIC1_DATA out) i
      else \<not> bit (last_write PIC1_DATA out) 2 \<and> \<not> bit (last_write PIC2_DATA out) (i - 8))"

definition device_event :: "(u16 \<Rightarrow> u16 \<Rightarrow> con_call list) \<Rightarrow> device_event \<Rightarrow> kboot \<Rightarrow> kboot option" where
  "device_event goto e m =
     (if int_enabled (core m) \<and> line_open (event_line e) (port_out (core m))
      then map_option (\<lambda>w. machine_update w m)
        (irq_handler2 (run_isr goto (event_port e)) (of_nat (event_line e)) (machine_view m))
      else Some m)"

abbreviation timer_view :: "kboot \<Rightarrow> ktimer" where
  "timer_view m \<equiv> kintr.extend (core m) (timer_part m)"

abbreviation keyboard_view :: "kboot \<Rightarrow> kkbd" where
  "keyboard_view m \<equiv> kintr.extend (core m) (keyboard_part m)"

section \<open>Each handler works on its own part\<close>

lemma view_more: "kintr.more (kintr.extend c x) = x" "kintr.truncate (kintr.extend c x) = c"
  by (simp_all add: kintr.defs)

lemma timer_more_fields:
  "kintr.more w = kintr.more (v :: ktimer) \<Longrightarrow> tm_ticks w = tm_ticks v \<and> tm_uptime_ms w = tm_uptime_ms v \<and>
    seconds w = seconds v \<and> last_tick w = last_tick v \<and> tm_frequency w = tm_frequency v \<and>
    tm_ms_per_tick w = tm_ms_per_tick v \<and> callback_set w = callback_set v \<and> init_complete w = init_complete v"
  by (cases w; cases v) simp

lemma pit_handler_more:
  "kintr.more w = kintr.more (v :: ktimer) \<Longrightarrow>
    kintr.more (pit_handler goto w) = kintr.more (pit_handler goto v)"
  by (cases w; cases v)
    (simp add: pit_handler_def timer_callback_def get_ticks_def Let_def fold_emit emit_def)

lemma pit_handler_shared:
  "idt_entries (pit_handler goto w) = idt_entries w" "handlers (pit_handler goto w) = handlers w"
  "port_out (pit_handler goto w) = port_out w" "int_enabled (pit_handler goto w) = int_enabled w"
  by (simp_all add: pit_handler_def timer_callback_def Let_def)

lemma keyboard_more_fields:
  "kintr.more w = kintr.more (v :: kkbd) \<Longrightarrow> kb_queue w = kb_queue v \<and> kb_keys w = kb_keys v \<and>
    current_mode w = current_mode v \<and> kb_buffer w = kb_buffer v \<and> kbd_ok w = kbd_ok v"
  by (cases w; cases v) (simp add: kb_queue_def kbd_ok_def)

lemma keyboard_handler_more:
  "kintr.more w = kintr.more (v :: kkbd) \<Longrightarrow>
    kintr.more (keyboard_handler inb w) = kintr.more (keyboard_handler inb v)"
  by (cases w; cases v)
    (simp add: keyboard_handler_def Keyboard.ack_irq_def keycode_to_ascii_def buffer_push_def outb_def emit_def Let_def
      split: option.splits)

lemma keyboard_handler_shared:
  "idt_entries (keyboard_handler inb w) = idt_entries w" "handlers (keyboard_handler inb w) = handlers w"
  "port_out (keyboard_handler inb w) = port_out w @ [(PIC1_COMMAND, 0x20)]"
  "int_enabled (keyboard_handler inb w) = int_enabled w"
  by (simp_all add: keyboard_handler_def Keyboard.ack_irq_def keycode_to_ascii_def buffer_push_def outb_def PIC1_COMMAND_def Let_def
      split: option.splits)

section \<open>A machine whose timer and keyboard lines are open\<close>

definition lines_open :: "kboot \<Rightarrow> bool" where
  "lines_open m \<longleftrightarrow> length (handlers (core m)) = 256 \<and>
     handlers (core m) ! 32 = Some Isr_pit_handler \<and> handlers (core m) ! 33 = Some Isr_keyboard_handler \<and>
     int_enabled (core m) \<and> line_open 0 (port_out (core m)) \<and> line_open 1 (port_out (core m))"

text \<open>The parts of the timer and of the keyboard under their handlers, whatever the rest is.\<close>

definition tick_part :: "(u16 \<Rightarrow> u16 \<Rightarrow> con_call list) \<Rightarrow> unit ktimer_ext \<Rightarrow> unit ktimer_ext" where
  "tick_part goto tp = kintr.more (pit_handler goto (kintr.extend kintr0 tp))"

definition key_part :: "u8 \<Rightarrow> unit kkbd_ext \<Rightarrow> unit kkbd_ext" where
  "key_part sc kp = kintr.more (keyboard_handler (\<lambda>_. sc) (kintr.extend kintr0 kp))"

text \<open>The keyboard's handler acknowledges its interrupt, and \<^verbatim>\<open>irq_handler\<close> does so again.\<close>

primrec event_eois :: "device_event \<Rightarrow> (u16 \<times> u8) list" where
  "event_eois Tick = [(PIC1_COMMAND, 0x20)]"
| "event_eois (Scancode sc) = [(PIC1_COMMAND, 0x20), (PIC1_COMMAND, 0x20)]"

definition event_parts :: "(u16 \<Rightarrow> u16 \<Rightarrow> con_call list) \<Rightarrow> device_event \<Rightarrow>
    (unit ktimer_ext \<times> unit kkbd_ext \<times> (u16 \<times> u8) list) \<times> 'r \<Rightarrow>
    (unit ktimer_ext \<times> unit kkbd_ext \<times> (u16 \<times> u8) list) \<times> 'r" where
  "event_parts goto e = (\<lambda>((tp, kp, out), r).
     ((case e of Tick \<Rightarrow> tick_part goto tp | Scancode _ \<Rightarrow> tp,
       case e of Tick \<Rightarrow> kp | Scancode sc \<Rightarrow> key_part sc kp, out @ event_eois e), r))"

definition machine_parts :: "kboot \<Rightarrow> (unit ktimer_ext \<times> unit kkbd_ext \<times> (u16 \<times> u8) list) \<times>
    idt_entry list \<times> isr option list \<times> unit kshell_ext kfs_ext kproc_ext" where
  "machine_parts m = ((timer_part m, keyboard_part m, port_out (core m)),
     idt_entries (core m), handlers (core m), shell_part m)"

lemma tick_part_more: "kintr.more (pit_handler goto (w :: ktimer)) = tick_part goto (kintr.more w)"
  unfolding tick_part_def by (rule pit_handler_more) (simp add: view_more)

lemma key_part_more: "kintr.more (keyboard_handler (\<lambda>_. sc) (w :: kkbd)) = key_part sc (kintr.more w)"
  unfolding key_part_def by (rule keyboard_handler_more) (simp add: view_more)

lemma line_open_eoi:
  "line_open i (out @ [(PIC1_COMMAND, v)]) = line_open i out"
  "line_open i (out @ [(PIC1_COMMAND, v), (PIC1_COMMAND, w)]) = line_open i out"
  by (simp_all add: line_open_def last_write_def PIC1_COMMAND_def PIC1_DATA_def PIC2_DATA_def)

lemma eoi_master: "pic_send_eoi 0 w = outb PIC1_COMMAND 0x20 w" "pic_send_eoi 1 w = outb PIC1_COMMAND 0x20 w"
  by (simp_all add: pic_send_eoi_def word_le_nat_alt)

lemma truncate_outb: "kintr.truncate (outb p v w) = outb p v (kintr.truncate w)" "kintr.more (outb p v w) = kintr.more w"
  by (simp_all add: outb_def kintr.defs)

lemma shared_fields:
  "int_enabled (outb p v w) = int_enabled w" "int_enabled (kintr.truncate w) = int_enabled w"
  by (simp_all add: outb_def kintr.defs)

lemma device_event_parts:
  assumes "lines_open m"
  shows "\<exists>t. device_event goto e m = Some t \<and> lines_open t \<and>
    machine_parts t = event_parts goto e (machine_parts m)"
proof -
  have run: "int_enabled (core m)" "line_open (event_line e) (port_out (core m))"
    "arr_get (handlers (core m)) 32 = Some (Some Isr_pit_handler)"
    "arr_get (handlers (core m)) 33 = Some (Some Isr_keyboard_handler)"
    using assms by (cases e; simp add: lines_open_def arr_get_def)+
  show ?thesis
  proof (cases e)
    case Tick
    with assms run show ?thesis
      by (auto simp: device_event_def irq_handler2_def run_isr_def machine_view_def machine_update_def
          view_more Let_def eoi_master lines_open_def machine_parts_def event_parts_def pit_handler_shared
          truncate_outb shared_fields line_open_eoi tick_part_more)
  next
    case (Scancode sc)
    with assms run show ?thesis
      by (auto simp: device_event_def irq_handler2_def run_isr_def machine_view_def machine_update_def
          view_more Let_def eoi_master lines_open_def machine_parts_def event_parts_def keyboard_handler_shared
          truncate_outb shared_fields line_open_eoi key_part_more)
  qed
qed

interpretation machine: simulation "device_event goto" lines_open machine_parts "event_parts goto" "\<lambda>_. True"
  for goto
  by unfold_locales (use device_event_parts in auto)

section \<open>What a run of events leaves\<close>

definition ticks :: "device_event list \<Rightarrow> nat" where
  "ticks es = length (filter ((=) Tick) es)"

fun scancodes :: "device_event list \<Rightarrow> u8 list" where
  "scancodes [] = []"
| "scancodes (Tick # es) = scancodes es"
| "scancodes (Scancode sc # es) = sc # scancodes es"

lemma fold_event_parts:
  "fold (event_parts goto) es ((tp, kp, out), r) =
    (((tick_part goto ^^ ticks es) tp, fold key_part (scancodes es) kp, out @ concat (map event_eois es)), r)"
  by (induction es arbitrary: tp kp out rule: scancodes.induct)
    (simp_all add: event_parts_def ticks_def funpow_swap1)

lemma ticks_more:
  "kintr.more ((pit_handler goto ^^ n) (w :: ktimer)) = (tick_part goto ^^ n) (kintr.more w)"
  by (induction n) (simp_all add: tick_part_more)

lemma keys_more:
  "kintr.more (fold (\<lambda>sc. keyboard_handler (\<lambda>_. sc)) h (w :: kkbd)) = fold key_part h (kintr.more w)"
  by (induction h arbitrary: w) (simp_all add: key_part_more)

text \<open>On a machine with open lines, the handlers run as if each had the machine to itself.\<close>

lemma events_run:
  assumes "lines_open m"
  shows "\<exists>v. fold_opt (device_event goto) es m = Some v \<and>
    kintr.more (timer_view v) = kintr.more ((pit_handler goto ^^ ticks es) (timer_view m)) \<and>
    kintr.more (keyboard_view v) =
      kintr.more (fold (\<lambda>sc. keyboard_handler (\<lambda>_. sc)) (scancodes es) (keyboard_view m)) \<and>
    port_out (core v) = port_out (core m) @ concat (map event_eois es) \<and>
    idt_entries (core v) = idt_entries (core m) \<and> handlers (core v) = handlers (core m) \<and>
    shell_part v = shell_part m"
  using machine.run_sim [OF assms, where es = es and goto = goto]
  by (auto simp: machine_parts_def fold_event_parts ticks_more keys_more view_more)

section \<open>The parts of the started kernel\<close>

lemma timer_fields [simp]:
  "tm_ticks (kintr.extend c (kintr.more w)) = tm_ticks (w :: ktimer)"
  "tm_uptime_ms (kintr.extend c (kintr.more w)) = tm_uptime_ms w"
  "seconds (kintr.extend c (kintr.more w)) = seconds w"
  "last_tick (kintr.extend c (kintr.more w)) = last_tick w"
  "callback_set (kintr.extend c (kintr.more w)) = callback_set w"
  "tm_frequency (kintr.extend c (kintr.more w)) = tm_frequency w"
  "tm_ms_per_tick (kintr.extend c (kintr.more w)) = tm_ms_per_tick w"
  using timer_more_fields [of "kintr.extend c (kintr.more w)" w] by (simp_all add: view_more)

lemma timer_base_irrelevant:
  "tm_ticks (kintr.extend c tp :: ktimer) = tm_ticks (kintr.extend d tp)"
  "tm_uptime_ms (kintr.extend c tp :: ktimer) = tm_uptime_ms (kintr.extend d tp)"
  "seconds (kintr.extend c tp :: ktimer) = seconds (kintr.extend d tp)"
  "last_tick (kintr.extend c tp :: ktimer) = last_tick (kintr.extend d tp)"
  using timer_more_fields [of "kintr.extend c tp" "kintr.extend d tp"] by (simp_all add: view_more)

lemma keyboard_init_more:
  "kintr.more w = kintr.more (v :: kkbd) \<Longrightarrow> kintr.more (keyboard_init w) = kintr.more (keyboard_init v)"
  by (cases w; cases v) (simp add: keyboard_init_def register_interrupt_handler_def emit_def Let_def)

lemma keyboard_init_set:
  "kintr.more (keyboard_set_mode KEYBOARD_MODE_ASCII (keyboard_set_layout KEYBOARD_LAYOUT_US (keyboard_init w))) =
    kintr.more (keyboard_init (w :: kkbd))"
  by (cases w) (simp add: keyboard_set_mode_def keyboard_set_layout_def keyboard_init_def
      register_interrupt_handler_def emit_def Let_def)

lemma pic1_mask_steps:
  "pic1_mask (fold emit cs s) = pic1_mask s" "pic1_mask (memory_info s) = pic1_mask s"
  "pic1_mask (kintr.truncate w) = pic1_mask w" "pic1_mask (kintr.extend c x) = pic1_mask c"
  "pic1_mask (pit_init f w') = pic1_mask w'" "pic1_mask (register_timer_callback w') = pic1_mask w'"
  "pic1_mask (keyboard_init w'') = pic1_mask w''" "pic1_mask (w'\<lparr>init_complete := b\<rparr>) = pic1_mask w'"
  by (simp_all add: fold_emit memory_info_def report_kb_def emit_def Let_def kintr.defs pit_init_def
      io_wait_def register_interrupt_handler_def register_timer_callback_def keyboard_init_def outb_def)

lemma idt_init_mask: "pic1_mask (idt_init inb isr_addr table s) = inb PIC1_DATA"
proof -
  have "pic1_mask (fold (\<lambda>i. idt_gate i (f i)) is u) = pic1_mask u" for f "is" and u :: "'a kintr_scheme"
    by (induction "is" arbitrary: u) (simp_all add: idt_gate_def set_idt_gate_def)
  then show ?thesis
    by (simp add: idt_init_def pic_init_def io_wait_def Let_def del: upt_rec_numeral)
qed

lemma kintr_whole: "kintr.extend (kintr.truncate w) (kintr.more w) = w"
  by (cases w) (simp add: kintr.defs)

lemma init_complete_more:
  "kintr.more ((kintr.extend c (kintr.more w))\<lparr>init_complete := b\<rparr>) = kintr.more ((w :: ktimer)\<lparr>init_complete := b\<rparr>)"
  by (cases w) (simp add: kintr.defs)

lemma kernel_start_parts:
  assumes "init_memory (fold emit boot_banner (core m)) = Some c"
    and "kernel_start inb isr_addr table m = Some t"
  shows "pic1_mask (core t) = inb PIC1_DATA"
    "timer_part t = kintr.more ((register_timer_callback
       (pit_init 100 (kintr.extend (idt_init inb isr_addr table c) (timer_part m))))\<lparr>init_complete := True\<rparr>)"
    "keyboard_part t = kintr.more (keyboard_init (keyboard_view m))"
proof -
  have "\<exists>d. keyboard_part t = kintr.more (keyboard_init (kintr.extend d (keyboard_part m)))"
    using assms by (auto simp: kernel_start_def on_core_def on_timer_def on_keyboard_def Let_def view_more
      simp del: fold_simps)
  then show "keyboard_part t = kintr.more (keyboard_init (keyboard_view m))"
    using keyboard_init_more by (metis view_more(1))
qed (use assms in \<open>auto simp: kernel_start_def on_core_def on_timer_def on_keyboard_def Let_def view_more
  kintr_whole init_complete_more pic1_mask_steps idt_init_mask simp del: fold_simps\<close>)

lemma masked_events:
  "\<not> line_open 0 (port_out (core m)) \<Longrightarrow> \<not> line_open 1 (port_out (core m)) \<Longrightarrow>
    fold_opt (device_event goto) es m = Some m"
proof (induction es)
  case (Cons e es)
  then show ?case by (cases e) (simp_all add: device_event_def)
qed simp

text \<open>Unmasking the two lines as \<^verbatim>\<open>pic.c\<close> offers it.\<close>

definition open_lines :: "kboot \<Rightarrow> kboot" where
  "open_lines m = on_core (pic_clear_mask 1) (on_core (pic_clear_mask 0) m)"

lemma clear_low_bits: "(x :: u8) AND - 2 = x AND 0xFE" "(x :: u8) AND - 3 = x AND 0xFD"
  by (rule arg_cong [where f = "(AND) x"], simp)+

lemma open_lines_fields:
  "timer_part (open_lines m) = timer_part m" "keyboard_part (open_lines m) = keyboard_part m"
  "shell_part (open_lines m) = shell_part m" "idt_entries (core (open_lines m)) = idt_entries (core m)"
  "handlers (core (open_lines m)) = handlers (core m)" "int_enabled (core (open_lines m)) = int_enabled (core m)"
  "port_out (core (open_lines m)) = port_out (core m) @
     [(PIC1_DATA, pic1_mask (core m) AND 0xFE), (PIC1_DATA, pic1_mask (core m) AND 0xFC)]"
proof -
  have "(pic1_mask (core m) AND 0xFE) AND 0xFD = pic1_mask (core m) AND 0xFC"
    unfolding and.assoc by simp
  then show "port_out (core (open_lines m)) = port_out (core m) @
     [(PIC1_DATA, pic1_mask (core m) AND 0xFE), (PIC1_DATA, pic1_mask (core m) AND 0xFC)]"
    by (simp add: open_lines_def on_core_def pic_clear_mask_def Let_def word_less_nat_alt clear_low_bits)
qed (simp_all add: open_lines_def on_core_def pic_clear_mask_def Let_def outb_def)

lemma open_lines_open:
  "line_open 0 (port_out (core (open_lines m)))" "line_open 1 (port_out (core (open_lines m)))"
  by (simp_all add: open_lines_fields line_open_def last_write_def bit_simps)

lemma started_keys:
  assumes "length (kb_buffer w) = 256"
    and "kintr.more v = fold key_part h (kintr.more (keyboard_init w))"
  shows "kb_queue (v :: kkbd) = take 256 (typed KEYBOARD_LAYOUT_US (shift_pressed (kb_keys (w :: kkbd))) h)"
proof -
  let ?k = "keyboard_set_mode KEYBOARD_MODE_ASCII (keyboard_set_layout KEYBOARD_LAYOUT_US (keyboard_init w))"
  note start = keyboard_start [OF assms(1), of KEYBOARD_MODE_ASCII KEYBOARD_LAYOUT_US]
  have "kintr.more v = kintr.more (fold (\<lambda>sc. keyboard_handler (\<lambda>_. sc)) h ?k)"
    by (simp add: keys_more assms(2) keyboard_init_set)
  then have "kb_queue v = kb_queue (fold (\<lambda>sc. keyboard_handler (\<lambda>_. sc)) h ?k)"
    using keyboard_more_fields by blast
  also have "\<dots> = take 256 (chars KEYBOARD_LAYOUT_US (kb_keys ?k) h)"
    using arrivals_effect [OF start(1)] start by simp
  also have "chars KEYBOARD_LAYOUT_US (kb_keys ?k) h = typed KEYBOARD_LAYOUT_US (shift_pressed (kb_keys w)) h"
    using typed_chars [OF start(6), of KEYBOARD_LAYOUT_US h] by (simp add: start(5))
  finally show ?thesis .
qed

text \<open>
  C7: interrupts on the started kernel (a start that paging lets through, C6). As it is left, no sequence of timer ticks
  and scancodes has any effect, since the lines are masked. Once \<^verbatim>\<open>pic_clear_mask\<close> opens the lines
  of the timer and the keyboard, every sequence runs through \<^verbatim>\<open>irq_handler\<close> to its end: the timer
  counts the ticks, 10 milliseconds each, and a second for every 100 of them; the keyboard
  buffer holds the first 256 characters typed, in the order of arrival, wherever the ticks come
  between; tables and the variables of the other components stay. Every tick is acknowledged
  once, but every scancode twice. The masks written are those that the controller had before
  \<^verbatim>\<open>pic_init\<close>, with the two bits cleared, so other lines may be opened as well.
\<close>

theorem interrupts_on_started_kernel:
  assumes "kernel_start inb isr_addr table m = Some t"
    and "tables_ok (core m)" "length (kb_buffer (keyboard_view m)) = 256"
    and "tm_ticks (timer_view m) = 0" "tm_uptime_ms (timer_view m) = 0" "seconds (timer_view m) = 0"
    "last_tick (timer_view m) = 0" "ticks es < 2 ^ 32"
  shows "\<exists>v. fold_opt (device_event goto) es t = Some t \<and>
    fold_opt (device_event goto) es (open_lines t) = Some v \<and>
    unat (get_ticks (timer_view v)) = ticks es \<and>
    get_uptime_ms (timer_view v) = of_nat (ticks es) * 10 \<and>
    unat (seconds (timer_view v)) = ticks es div 100 \<and>
    kb_queue (keyboard_view v) =
      take 256 (typed KEYBOARD_LAYOUT_US (shift_pressed (kb_keys (keyboard_view m))) (scancodes es)) \<and>
    port_out (core v) = port_out (core t) @
      [(PIC1_DATA, inb PIC1_DATA AND 0xFE), (PIC1_DATA, inb PIC1_DATA AND 0xFC)] @ concat (map event_eois es) \<and>
    idt_entries (core v) = idt_entries (core t) \<and> handlers (core v) = handlers (core t) \<and>
    shell_part v = shell_part m"
proof -
  obtain c rest where c: "init_memory (fold emit boot_banner (core m)) = Some c"
    and t: "handlers (core t) = (handlers (core m))[32 := Some Isr_pit_handler, 33 := Some Isr_keyboard_handler]"
    "int_enabled (core t)" "shell_part t = shell_part m"
    "port_out (core t) = port_out (pic_init inb 0x20 0x28 c) @ rest"
    "map fst rest = [PIT_COMMAND, PIT_CHANNEL0, 0x80, PIT_CHANNEL0]"
    by (rule kernel_start_result [OF assms(1)])
  note parts = kernel_start_parts [OF c assms(1)]
  have masked: "\<not> line_open 0 (port_out (core t))" "\<not> line_open 1 (port_out (core t))"
    using kernel_start_masked [OF t(4,5)] by (simp_all add: line_open_def)
  have opened: "lines_open (open_lines t)"
    using assms(2) t open_lines_open [of t] by (simp add: lines_open_def open_lines_fields tables_ok_def IDT_ENTRIES_def)
  obtain v where v: "fold_opt (device_event goto) es (open_lines t) = Some v"
    "kintr.more (timer_view v) = kintr.more ((pit_handler goto ^^ ticks es) (timer_view (open_lines t)))"
    "kintr.more (keyboard_view v) =
      kintr.more (fold (\<lambda>sc. keyboard_handler (\<lambda>_. sc)) (scancodes es) (keyboard_view (open_lines t)))"
    "port_out (core v) = port_out (core (open_lines t)) @ concat (map event_eois es)"
    "idt_entries (core v) = idt_entries (core t)" "handlers (core v) = handlers (core t)" "shell_part v = shell_part t"
    using events_run [OF opened, of goto es] by (auto simp: open_lines_fields)
  have "started 100 (timer_view (open_lines t))"
    using assms(4-7) timer_base_irrelevant [of _ "timer_part m" "core m"]
    by (simp add: started_def open_lines_fields parts(2) register_timer_callback_def clamp_frequency_def)
  from ticks_counted [OF this _ assms(8), of goto]
  have time: "unat (tm_ticks (timer_view v)) = ticks es" "tm_uptime_ms (timer_view v) = of_nat (ticks es) * 10"
    "unat (seconds (timer_view v)) = ticks es div 100"
    using timer_more_fields [OF v(2)] \<open>started 100 (timer_view (open_lines t))\<close> by (simp_all add: started_def)
  have "kintr.more (keyboard_view v) = fold key_part (scancodes es) (kintr.more (keyboard_init (keyboard_view m)))"
    using v(3) by (simp add: keys_more open_lines_fields parts(3) view_more)
  note typed = started_keys [OF assms(3) this]
  show ?thesis
    using t v time typed masked_events [OF masked] by (auto simp: get_ticks_def get_uptime_ms_def open_lines_fields parts(1))
qed

text \<open>
  Two ticks, a shift and a letter, one after the other: the controller had line 2 open before, so
  its mask becomes 0xF8.
\<close>

theorem interrupts_on_started_kernel_witness:
  "\<exists>t v. kernel_start (\<lambda>_. 0xFB) (\<lambda>n. 0x100000 + of_nat n) 0x5000 kboot1 = Some t \<and>
    fold_opt (device_event (\<lambda>_ _. [])) [Tick, Scancode 0x2A, Tick, Scancode 0x1E] (open_lines t) = Some v \<and>
    unat (get_ticks (timer_view v)) = 2 \<and> kb_queue (keyboard_view v) = ''A'' \<and>
    port_out (core v) = port_out (core t) @
      [(0x21, 0xFA), (0x21, 0xF8), (0x20, 0x20), (0x20, 0x20), (0x20, 0x20), (0x20, 0x20), (0x20, 0x20), (0x20, 0x20)]"
proof -
  let ?es = "[Tick, Scancode 0x2A, Tick, Scancode 0x1E]"
  let ?start = "kernel_start (\<lambda>_. 0xFB) (\<lambda>n. 0x100000 + of_nat n) 0x5000 kboot1"
  obtain t where t: "?start = Some t"
    using kernel_start_defined [OF kboot_layouts(3), of "\<lambda>_. 0xFB" "\<lambda>n. 0x100000 + of_nat n" "0x5000"] kboot_layouts(4)
    by blast
  have k: "kintr.more (keyboard_view kboot1) = kintr.more kkbd0" "kintr.more (timer_view kboot1) = kintr.more ktimer0"
    by (simp_all add: kboot1_def kboot0_def view_more)
  have keys: "length (kb_buffer (keyboard_view kboot1)) = 256" "\<not> shift_pressed (kb_keys (keyboard_view kboot1))"
    using keyboard_more_fields [OF k(1)] by simp_all
  have "typed KEYBOARD_LAYOUT_US False [0x2A, 0x1E] = ''A''" by code_simp
  then show ?thesis
    using interrupts_on_started_kernel [OF t kboot_layouts(6) keys(1), where es = ?es and goto = "\<lambda>_ _. []"]
      timer_more_fields [OF k(2)] t keys(2)
    by (auto simp: ticks_def PIC1_DATA_def PIC1_COMMAND_def)
qed

end
