(* ===== verification/Syscall.thy ===== *)
theory Syscall
  imports Filesystem
begin

text \<open>
  System calls, \<^verbatim>\<open>src/kernel/syscall.c\<close>: the table of 32 file descriptors, the calls on files
  and the dispatcher. A call that writes through a pointer writes the byte memory of
  \<open>Memory\<close>; file contents are heap blocks in that memory. The variables
  \<^verbatim>\<open>keyboard_buffer\<close> and \<^verbatim>\<open>keyboard_buffer_pos\<close> that \<^verbatim>\<open>syscall_read\<close> declares external are
  part of the state.
\<close>

section \<open>State\<close>

record fd_entry =
  fd_used :: bool
  fd_node :: u32
  fd_offset :: u32
  fd_flags :: u32

datatype sys_fun = Sys_exit | Sys_fork | Sys_read | Sys_write | Sys_open | Sys_close | Sys_exec
  | Sys_time | Sys_getpid | Sys_sleep | Sys_malloc | Sys_free

record ksys = kfs +
  fd_table :: "fd_entry list"
  syscall_table :: "sys_fun option list"
  keyboard_buffer :: "u8 list"
  keyboard_buffer_pos :: u32

definition MAX_FD :: nat where
  "MAX_FD = 32"

definition O_CREAT :: u32 where "O_CREAT = 0x0100"
definition O_TRUNC :: u32 where "O_TRUNC = 0x0200"
definition O_APPEND :: u32 where "O_APPEND = 0x0400"

definition upd_fd :: "nat \<Rightarrow> (fd_entry \<Rightarrow> fd_entry) \<Rightarrow> 'a ksys_scheme \<Rightarrow> 'a ksys_scheme option" where
  "upd_fd i f s = arr_get (fd_table s) i \<bind> (\<lambda>e. Some (s\<lparr>fd_table := (fd_table s)[i := f e]\<rparr>))"

definition init_syscalls :: "'a ksys_scheme \<Rightarrow> 'a ksys_scheme" where
  "init_syscalls s =
     (let s1 = puts (''System calls are being initialized...'' @ newline) s;
          s2 = s1\<lparr>syscall_table := (syscall_table s1)[1 := Some Sys_exit, 2 := Some Sys_fork,
            3 := Some Sys_read, 4 := Some Sys_write, 5 := Some Sys_open, 6 := Some Sys_close,
            7 := Some Sys_exec, 8 := Some Sys_time, 9 := Some Sys_getpid, 10 := Some Sys_sleep,
            11 := Some Sys_malloc, 12 := Some Sys_free]\<rparr>
      in puts (''System calls are initialized.'' @ newline)
        (register_interrupt_handler 0x80 Isr_syscall_handler s2))"

section \<open>Processes and the stubs\<close>

definition syscall_exit :: "int \<Rightarrow> 'a ksys_scheme \<Rightarrow> 'a ksys_scheme option" where
  "syscall_exit status s =
     (let current = process_get_current s
      in if current \<noteq> 0
         then process_terminate current
           (puts (''System call: exit() - Process is being terminated.'' @ newline) s)
         else Some s)"

definition syscall_fork :: "'a ksys_scheme \<Rightarrow> int \<times> 'a ksys_scheme" where
  "syscall_fork s =
     (- 1, puts (''System call: fork() - New process is being created.'' @ newline) s)"

definition syscall_exec :: "u32 \<Rightarrow> u32 \<Rightarrow> 'a ksys_scheme \<Rightarrow> int \<times> 'a ksys_scheme" where
  "syscall_exec path argv s = (- 1, puts (''System call: exec()'' @ newline) s)"

definition syscall_time :: "'a ksys_scheme \<Rightarrow> u32 \<times> 'a ksys_scheme" where
  "syscall_time s = (0, puts (''System call: time()'' @ newline) s)"

definition syscall_getpid :: "'a ksys_scheme \<Rightarrow> u32 option" where
  "syscall_getpid s =
     (let current = process_get_current s
      in if current \<noteq> 0 then procs s current \<bind> (\<lambda>p. Some (p_pid p)) else Some 0)"

definition syscall_sleep :: "u32 \<Rightarrow> 'a ksys_scheme \<Rightarrow> 'a ksys_scheme" where
  "syscall_sleep ms s = puts (''System call: sleep()'' @ newline) s"

definition syscall_malloc :: "u32 \<Rightarrow> 'a ksys_scheme \<Rightarrow> u32 \<times> 'a ksys_scheme" where
  "syscall_malloc n s = (0, puts (''System call: malloc()'' @ newline) s)"

definition syscall_free :: "u32 \<Rightarrow> 'a ksys_scheme \<Rightarrow> 'a ksys_scheme" where
  "syscall_free p s = puts (''System call: free()'' @ newline) s"

section \<open>Reading and writing\<close>

text \<open>The call through an operation pointer that is not null.\<close>

definition call_read :: "'a kfs_scheme fs_driver \<Rightarrow> fs_op \<Rightarrow> u32 \<Rightarrow> u32 \<Rightarrow> u32 \<Rightarrow> u32 \<Rightarrow>
    'a kfs_scheme \<Rightarrow> (u32 \<times> 'a kfs_scheme) option" where
  "call_read drv op node off sz buf s = (case op of
     Op_null \<Rightarrow> None
   | Op_fs \<Rightarrow> fs_read drv node off sz buf s
   | Op_dev d \<Rightarrow> drv_read drv d node off sz buf s)"

definition call_write :: "'a kfs_scheme fs_driver \<Rightarrow> fs_op \<Rightarrow> u32 \<Rightarrow> u32 \<Rightarrow> u32 \<Rightarrow> u32 \<Rightarrow>
    'a kfs_scheme \<Rightarrow> (u32 \<times> 'a kfs_scheme) option" where
  "call_write drv op node off sz buf s = (case op of
     Op_null \<Rightarrow> None
   | Op_fs \<Rightarrow> fs_write drv node off sz buf s
   | Op_dev d \<Rightarrow> drv_write drv d node off sz buf s)"

definition call_open :: "'a kfs_scheme fs_driver \<Rightarrow> fs_op \<Rightarrow> u32 \<Rightarrow> 'a kfs_scheme \<Rightarrow>
    'a kfs_scheme option" where
  "call_open drv op node s = (case op of
     Op_null \<Rightarrow> None | Op_fs \<Rightarrow> fs_open drv node s | Op_dev d \<Rightarrow> drv_open drv d node s)"

definition call_close :: "'a kfs_scheme fs_driver \<Rightarrow> fs_op \<Rightarrow> u32 \<Rightarrow> 'a kfs_scheme \<Rightarrow>
    'a kfs_scheme option" where
  "call_close drv op node s = (case op of
     Op_null \<Rightarrow> None | Op_fs \<Rightarrow> fs_close drv node s | Op_dev d \<Rightarrow> drv_close drv d node s)"

definition put_bytes :: "u32 \<Rightarrow> u8 list \<Rightarrow> (u32 \<Rightarrow> u8) \<Rightarrow> (u32 \<Rightarrow> u8)" where
  "put_bytes p bs m = fold (\<lambda>i m. m(p + of_nat i := bs ! i)) [0..<length bs] m"

text \<open>The standard-input branch of \<^verbatim>\<open>syscall_read\<close>; the array has 256 cells.\<close>

definition read_stdin :: "u32 \<Rightarrow> u32 \<Rightarrow> 'a ksys_scheme \<Rightarrow> (u32 \<times> 'a ksys_scheme) option" where
  "read_stdin buf count s =
     (let available = keyboard_buffer_pos s;
          to_read = (if available < count then available else count)
      in if to_read = 0 then Some (0, s)
         else if length (keyboard_buffer s) < unat available then None
         else let s1 = s\<lparr>bytes := put_bytes buf (take (unat to_read) (keyboard_buffer s)) (bytes s)\<rparr>
           in if to_read < available
              then Some (to_read, s1\<lparr>keyboard_buffer :=
                  fold (\<lambda>i kb. kb[i := kb ! (i + unat to_read)]) [0..<unat (available - to_read)]
                    (keyboard_buffer s1),
                keyboard_buffer_pos := available - to_read\<rparr>)
              else Some (to_read, s1\<lparr>keyboard_buffer_pos := 0\<rparr>))"

definition read_node :: "'a ksys_ext kfs_scheme fs_driver \<Rightarrow> nat \<Rightarrow> u32 \<Rightarrow> u32 \<Rightarrow> u32 \<Rightarrow> fs_node \<Rightarrow>
    'a ksys_scheme \<Rightarrow> (u32 \<times> 'a ksys_scheme) option" where
  "read_node drv fd node buf count n s = do {
     e \<leftarrow> arr_get (fd_table s) fd;
     (read_size, s1) \<leftarrow>
       (if fn_read n \<noteq> Op_null
        then call_read drv (fn_read n) node (fd_offset e) count buf s
        else if fn_contents n \<noteq> 0
        then let remaining = fn_length n - fd_offset e;
                 size = (if remaining < count then remaining else count)
          in Some (size, if 0 < size then memcpy buf (fn_contents n + fd_offset e) size s else s)
        else Some (0, s));
     s2 \<leftarrow> upd_fd fd (\<lambda>e. e\<lparr>fd_offset := fd_offset e + read_size\<rparr>) s1;
     Some (read_size, s2)
   }"

definition syscall_read :: "'a ksys_ext kfs_scheme fs_driver \<Rightarrow> int \<Rightarrow> u32 \<Rightarrow> u32 \<Rightarrow>
    'a ksys_scheme \<Rightarrow> (u32 \<times> 'a ksys_scheme) option" where
  "syscall_read drv fd buf count s =
     (if fd < 0 \<or> int MAX_FD \<le> fd \<or> \<not> fd_used (fd_table s ! nat fd)
      then Some (- 1, puts (''ERROR: Invalid file descriptor'' @ newline) s)
      else if fd = 0 then read_stdin buf count s
      else let node = fd_node (fd_table s ! nat fd)
        in if node = 0 then Some (- 1, puts (''ERROR: Invalid file descriptor'' @ newline) s)
           else nodes s node \<bind> (\<lambda>n.
             if fn_mask n AND FS_PERM_READ = 0
             then Some (- 1, puts (''ERROR: Read permission denied'' @ newline) s)
             else read_node drv (nat fd) node buf count n s))"

text \<open>Growing a file to \<open>new_size\<close>: \<open>Inl\<close> is the failure, which the caller reports.\<close>

definition grow_file :: "u32 \<Rightarrow> fs_node \<Rightarrow> u32 \<Rightarrow> 'a ksys_scheme \<Rightarrow>
    ('a ksys_scheme + 'a ksys_scheme) option" where
  "grow_file node n new_size s =
     (if new_size \<le> fn_length n then Some (Inr s)
      else let (p, s1) = krealloc (fn_contents n) new_size s
        in if p = 0 then Some (Inl s1)
           else let s2 = memset (p + fn_length n) 0 (new_size - fn_length n) s1
             in upd_node node (\<lambda>n. n\<lparr>fn_contents := p, fn_length := new_size\<rparr>) s2 \<bind> (\<lambda>s3.
               Some (Inr s3)))"

definition write_node :: "'a ksys_ext kfs_scheme fs_driver \<Rightarrow> nat \<Rightarrow> u32 \<Rightarrow> u32 \<Rightarrow> u32 \<Rightarrow> fs_node \<Rightarrow>
    'a ksys_scheme \<Rightarrow> (u32 \<times> 'a ksys_scheme) option" where
  "write_node drv fd node buf count n s = do {
     e \<leftarrow> arr_get (fd_table s) fd;
     r \<leftarrow> (if fn_write n \<noteq> Op_null
          then call_write drv (fn_write n) node (fd_offset e) count buf s \<bind> (\<lambda>r. Some (Inr r))
          else do {
            g \<leftarrow> grow_file node n (fd_offset e + count) s;
            case g of
              Inl s1 \<Rightarrow> Some (Inl s1)
            | Inr s1 \<Rightarrow> do {
                n1 \<leftarrow> nodes s1 node;
                Some (Inr (if 0 < count
                  then (count, memcpy (fn_contents n1 + fd_offset e) buf count s1)
                  else (0, s1)))
              }
          });
     case r of
       Inl s1 \<Rightarrow> Some (- 1,
         puts (''ERROR: File could not be resized - insufficient memory'' @ newline) s1)
     | Inr (write_size, s1) \<Rightarrow> do {
         s2 \<leftarrow> upd_fd fd (\<lambda>e. e\<lparr>fd_offset := fd_offset e + write_size\<rparr>) s1;
         s3 \<leftarrow> upd_node node (\<lambda>n. n\<lparr>fn_modified_time := get_tick_count s2\<rparr>) s2;
         Some (write_size, s3)
       }
   }"

definition syscall_write :: "'a ksys_ext kfs_scheme fs_driver \<Rightarrow> int \<Rightarrow> u32 \<Rightarrow> u32 \<Rightarrow>
    'a ksys_scheme \<Rightarrow> (u32 \<times> 'a ksys_scheme) option" where
  "syscall_write drv fd buf count s =
     (if fd < 0 \<or> int MAX_FD \<le> fd
      then Some (- 1, puts (''ERROR: Invalid file descriptor'' @ newline) s)
      else if fd = 1 \<or> fd = 2
      then Some (count, fold (\<lambda>i t. emit (Putc (char_of (unat (bytes t (buf + of_nat i))))) t)
        [0..<unat count] s)
      else if \<not> fd_used (fd_table s ! nat fd)
      then Some (- 1, puts (''ERROR: Unused file descriptor'' @ newline) s)
      else let node = fd_node (fd_table s ! nat fd)
        in if node = 0 then Some (- 1, puts (''ERROR: Invalid file descriptor'' @ newline) s)
           else nodes s node \<bind> (\<lambda>n.
             if fn_mask n AND FS_PERM_WRITE = 0
             then Some (- 1, puts (''ERROR: Write permission denied'' @ newline) s)
             else write_node drv (nat fd) node buf count n s))"

section \<open>Opening and closing\<close>

definition find_free_fd :: "'a ksys_scheme \<Rightarrow> int" where
  "find_free_fd s =
     (case find (\<lambda>i. \<not> fd_used (fd_table s ! i)) [3..<MAX_FD] of Some i \<Rightarrow> int i | None \<Rightarrow> - 1)"

text \<open>
  The truncation of \<^verbatim>\<open>syscall_open\<close>. A driver's \<^verbatim>\<open>truncate\<close> is a parameter; no code of the kernel
  sets that pointer.
\<close>

definition truncate_file :: "(nat \<Rightarrow> u32 \<Rightarrow> 'a ksys_scheme \<Rightarrow> 'a ksys_scheme option) \<Rightarrow> u32 \<Rightarrow>
    'a ksys_scheme \<Rightarrow> 'a ksys_scheme option" where
  "truncate_file trunc node s = nodes s node \<bind> (\<lambda>n. case fn_truncate n of
     Op_dev d \<Rightarrow> trunc d node s
   | Op_fs \<Rightarrow> None
   | Op_null \<Rightarrow>
       if 0 < fn_length n \<and> fn_contents n \<noteq> 0
       then upd_node node (\<lambda>n. n\<lparr>fn_length := 0\<rparr>) (memset (fn_contents n) 0 (fn_length n) s)
       else Some s)"

definition open_missing :: "'a ksys_ext kfs_scheme fs_driver \<Rightarrow> string \<Rightarrow> 'a ksys_scheme \<Rightarrow>
    (u32 \<times> 'a ksys_scheme) option" where
  "open_missing drv path s = do {
     (parent, s1) \<leftarrow> fs_get_parent_dir drv path s;
     if parent = 0
     then Some (0, puts newline (puts path (puts ''ERROR: Parent directory not found: '' s1)))
     else do {
       let filename = (case strrchr path (CHR ''/'') of None \<Rightarrow> path | Some i \<Rightarrow> drop (Suc i) path);
       (node, s2) \<leftarrow> fs_create_node filename FS_FILE s1;
       if node = 0
       then Some (0, puts newline (puts path (puts ''ERROR: Could not create file: '' s2)))
       else do {
         s3 \<leftarrow> fs_add_node parent node s2;
         Some (node, puts newline (puts path (puts ''File created: '' s3)))
       }
     }
   }"

definition open_node :: "'a ksys_ext kfs_scheme fs_driver \<Rightarrow>
    (nat \<Rightarrow> u32 \<Rightarrow> 'a ksys_scheme \<Rightarrow> 'a ksys_scheme option) \<Rightarrow> string \<Rightarrow> u32 \<Rightarrow> u32 \<Rightarrow>
    'a ksys_scheme \<Rightarrow> (int \<times> 'a ksys_scheme) option" where
  "open_node drv trunc path flags node s = do {
     n \<leftarrow> nodes s node;
     if fn_type n \<noteq> FS_FILE
     then Some (- 1, puts newline (puts path (puts ''ERROR: Attempted to open a directory: '' s)))
     else do {
       s1 \<leftarrow> (if flags AND O_TRUNC \<noteq> 0 then truncate_file trunc node s else Some s);
       let fd = find_free_fd s1;
       if fd < 0
       then Some (- 1, puts (''ERROR: Maximum number of open files reached'' @ newline) s1)
       else do {
         n1 \<leftarrow> nodes s1 node;
         s2 \<leftarrow> upd_fd (nat fd) (\<lambda>e. e\<lparr>fd_node := node,
           fd_offset := (if flags AND O_APPEND \<noteq> 0 then fn_length n1 else 0), fd_used := True\<rparr>) s1;
         s3 \<leftarrow> (if fn_open n1 \<noteq> Op_null then call_open drv (fn_open n1) node s2 else Some s2);
         Some (fd, s3)
       }
     }
   }"

text \<open>The path is \<^const>\<open>None\<close> for a null pointer.\<close>

definition syscall_open :: "'a ksys_ext kfs_scheme fs_driver \<Rightarrow>
    (nat \<Rightarrow> u32 \<Rightarrow> 'a ksys_scheme \<Rightarrow> 'a ksys_scheme option) \<Rightarrow> string option \<Rightarrow> u32 \<Rightarrow>
    'a ksys_scheme \<Rightarrow> (int \<times> 'a ksys_scheme) option" where
  "syscall_open drv trunc pathname flags s = (case pathname of
     None \<Rightarrow> Some (- 1, s)
   | Some path \<Rightarrow> do {
       (node, s1) \<leftarrow> fs_resolve_path drv path s;
       if node = 0 \<and> flags AND O_CREAT = 0
       then Some (- 1, puts newline (puts path (puts ''ERROR: File not found: '' s1)))
       else do {
         (node, s2) \<leftarrow> (if node = 0 then open_missing drv path s1 else Some (node, s1));
         if node = 0 then Some (- 1, s2) else open_node drv trunc path flags node s2
       }
     })"

definition syscall_close :: "'a ksys_ext kfs_scheme fs_driver \<Rightarrow> int \<Rightarrow> 'a ksys_scheme \<Rightarrow>
    (int \<times> 'a ksys_scheme) option" where
  "syscall_close drv fd s =
     (if fd < 0 \<or> int MAX_FD \<le> fd
      then Some (- 1, puts (''ERROR: Invalid file descriptor'' @ newline) s)
      else if fd \<le> 2
      then Some (- 1, puts (''ERROR: Cannot close standard I/O descriptors'' @ newline) s)
      else if \<not> fd_used (fd_table s ! nat fd)
      then Some (- 1, puts (''ERROR: Descriptor is already closed'' @ newline) s)
      else do {
        let node = fd_node (fd_table s ! nat fd);
        s1 \<leftarrow> (if node = 0 then Some s
              else nodes s node \<bind> (\<lambda>n.
                if fn_close n \<noteq> Op_null then call_close drv (fn_close n) node s else Some s));
        s2 \<leftarrow> upd_fd (nat fd) (\<lambda>e. e\<lparr>fd_node := 0, fd_offset := 0, fd_used := False\<rparr>) s1;
        Some (0, s2)
      })"

section \<open>Dispatch\<close>

text \<open>A string in memory; reading one without a terminator does not end.\<close>

partial_function (option) read_cstr :: "(u32 \<Rightarrow> u8) \<Rightarrow> u32 \<Rightarrow> string option" where
  "read_cstr m a =
     (if m a = 0 then Some []
      else read_cstr m (a + 1) \<bind> (\<lambda>cs. Some (char_of (unat (m a)) # cs)))"

definition syscall_handler :: "'a ksys_ext kfs_scheme fs_driver \<Rightarrow>
    (nat \<Rightarrow> u32 \<Rightarrow> 'a ksys_scheme \<Rightarrow> 'a ksys_scheme option) \<Rightarrow> u32 \<Rightarrow> u32 \<Rightarrow> u32 \<Rightarrow> u32 \<Rightarrow>
    'a ksys_scheme \<Rightarrow> 'a ksys_scheme option" where
  "syscall_handler drv trunc num a1 a2 a3 s =
     (if 32 \<le> num \<or> syscall_table s ! unat num = None
      then Some (puts (''ERROR: Invalid system call!'' @ newline) s)
      else case the (syscall_table s ! unat num) of
        Sys_exit \<Rightarrow> syscall_exit (sint a1) s
      | Sys_fork \<Rightarrow> Some (snd (syscall_fork s))
      | Sys_read \<Rightarrow> map_option snd (syscall_read drv (sint a1) a2 a3 s)
      | Sys_write \<Rightarrow> map_option snd (syscall_write drv (sint a1) a2 a3 s)
      | Sys_open \<Rightarrow>
          (if a1 = 0 then Some None else map_option Some (read_cstr (bytes s) a1)) \<bind>
            (\<lambda>path. map_option snd (syscall_open drv trunc path a2 s))
      | Sys_close \<Rightarrow> map_option snd (syscall_close drv (sint a1) s)
      | Sys_exec \<Rightarrow> Some (snd (syscall_exec a1 a2 s))
      | Sys_time \<Rightarrow> Some (snd (syscall_time s))
      | Sys_getpid \<Rightarrow> syscall_getpid s \<bind> (\<lambda>_. Some s)
      | Sys_sleep \<Rightarrow> Some (syscall_sleep a1 s)
      | Sys_malloc \<Rightarrow> Some (snd (syscall_malloc a1 s))
      | Sys_free \<Rightarrow> Some (syscall_free a1 s))"

section \<open>The descriptor table\<close>

definition std_closed :: "fd_entry list \<Rightarrow> bool" where
  "std_closed tab \<longleftrightarrow> length tab = MAX_FD \<and> (\<forall>i < 3. \<not> fd_used (tab ! i))"

definition fds_ok :: "'a ksys_scheme \<Rightarrow> bool" where
  "fds_ok s \<longleftrightarrow> std_closed (fd_table s)"

text \<open>What the kernel expects of a driver: it leaves the descriptor table alone.\<close>

definition keeps_fds :: "'a ksys_ext kfs_scheme fs_driver \<Rightarrow>
    (nat \<Rightarrow> u32 \<Rightarrow> 'a ksys_scheme \<Rightarrow> 'a ksys_scheme option) \<Rightarrow> bool" where
  "keeps_fds drv trunc \<longleftrightarrow>
     (\<forall>d n a b c s r t. drv_read drv d n a b c s = Some (r, t) \<longrightarrow> fd_table t = fd_table s) \<and>
     (\<forall>d n a b c s r t. drv_write drv d n a b c s = Some (r, t) \<longrightarrow> fd_table t = fd_table s) \<and>
     (\<forall>d n s t. drv_open drv d n s = Some t \<longrightarrow> fd_table t = fd_table s) \<and>
     (\<forall>d n s t. drv_close drv d n s = Some t \<longrightarrow> fd_table t = fd_table s) \<and>
     (\<forall>d n a s r t. drv_finddir drv d n a s = Some (r, t) \<longrightarrow> fd_table t = fd_table s) \<and>
     (\<forall>d n s t. trunc d n s = Some t \<longrightarrow> fd_table t = fd_table s)"

named_theorems fds "operations that leave the descriptor table alone"

lemma fds_emit [simp]: "fd_table (emit c s) = fd_table s"
  by (simp add: emit_def)

lemma fds_mem [simp]: "fd_table (memset p c n s) = fd_table s" "fd_table (memcpy p q n s) = fd_table s"
  "fd_table (kfree p s) = fd_table s"
  by (simp_all add: memset_def memcpy_def kfree_def)

lemma fds_krealloc [fds]: "krealloc p n s = (q, t) \<Longrightarrow> fd_table t = fd_table s"
  by (auto simp: krealloc_def kmalloc_eq Let_def split: if_splits)

lemma fds_upd_node [fds]: "upd_node p f s = Some t \<Longrightarrow> fd_table t = fd_table s"
  by (auto simp: upd_node_def split: bind_splits)

lemma fds_create [fds]: "fs_create_node nm ty s = Some (p, t) \<Longrightarrow> fd_table t = fd_table s"
  by (auto simp: fs_create_node_def kmalloc_eq split: bind_splits if_splits)

lemma fds_add [fds]: "fs_add_node p c s = Some t \<Longrightarrow> fd_table t = fd_table s"
  by (auto simp: fs_add_node_def dest!: fds_upd_node split: bind_splits if_splits)

lemma fds_fs_read:
  assumes "fs_read drv node off sz buf s = Some r"
    "\<forall>d n a b c s r t. drv_read drv d n a b c s = Some (r, t) \<longrightarrow> fd_table t = fd_table s"
  shows "fd_table (snd r) = fd_table s"
  using assms(2)
proof (induct drv node off sz buf s r rule: fs_read.raw_induct)
  case (1 f drv node off sz buf s r)
  show ?case
    using 1(2,3) 1(1) [of drv node off sz buf s r]
    by (cases r) (auto split: if_splits bind_splits fs_op.splits)
qed (rule assms(1))

lemma fds_fs_write:
  assumes "fs_write drv node off sz buf s = Some r"
    "\<forall>d n a b c s r t. drv_write drv d n a b c s = Some (r, t) \<longrightarrow> fd_table t = fd_table s"
  shows "fd_table (snd r) = fd_table s"
  using assms(2)
proof (induct drv node off sz buf s r rule: fs_write.raw_induct)
  case (1 f drv node off sz buf s r)
  show ?case
    using 1(2,3) 1(1) [of drv node off sz buf s r]
    by (cases r) (auto split: if_splits bind_splits fs_op.splits)
qed (rule assms(1))

lemma fds_fs_open:
  assumes "fs_open drv node s = Some r"
    "\<forall>d n s t. drv_open drv d n s = Some t \<longrightarrow> fd_table t = fd_table s"
  shows "fd_table r = fd_table s"
  using assms(2)
proof (induct drv node s r rule: fs_open.raw_induct)
  case (1 f drv node s r)
  show ?case
    using 1(2,3) 1(1) [of drv node s r] by (auto split: if_splits bind_splits fs_op.splits)
qed (rule assms(1))

lemma fds_fs_close:
  assumes "fs_close drv node s = Some r"
    "\<forall>d n s t. drv_close drv d n s = Some t \<longrightarrow> fd_table t = fd_table s"
  shows "fd_table r = fd_table s"
  using assms(2)
proof (induct drv node s r rule: fs_close.raw_induct)
  case (1 f drv node s r)
  show ?case
    using 1(2,3) 1(1) [of drv node s r] by (auto split: if_splits bind_splits fs_op.splits)
qed (rule assms(1))

lemma fds_fs_finddir:
  assumes "fs_finddir drv node nm s = Some r"
    "\<forall>d n a s r t. drv_finddir drv d n a s = Some (r, t) \<longrightarrow> fd_table t = fd_table s"
  shows "fd_table (snd r) = fd_table s"
  using assms(2)
proof (induct drv node nm s r rule: fs_finddir.raw_induct)
  case (1 f drv node nm s r)
  show ?case
    using 1(2,3) 1(1) [of drv node nm s r]
    by (cases r) (auto split: if_splits bind_splits fs_op.splits)
qed (rule assms(1))

lemma fds_resolve_loop:
  assumes "\<forall>d n a s r t. drv_finddir drv d n a s = Some (r, t) \<longrightarrow> fd_table t = fd_table s"
    "resolve_loop drv current path s = Some (r, t)"
  shows "fd_table t = fd_table s"
  using assms(2)
proof (induction "length path" arbitrary: current path s rule: less_induct)
  case less
  show ?case
  proof (cases "path = []")
    case True
    with less.prems show ?thesis by (simp add: resolve_loop.simps)
  next
    case False
    note IH = less.hyps [OF component_progress [OF False]]
    have find: "fd_table s1 = fd_table s"
      if "fs_finddir drv current (fst (take_component 127 path)) s = Some (nx, s1)" for nx s1
      using fds_fs_finddir [OF that assms(1)] by simp
    from less.prems False show ?thesis
      by (subst (asm) resolve_loop.simps)
        (auto simp: Let_def dest!: IH find split: if_splits bind_splits)
  qed
qed

lemma fds_resolve_path:
  "\<forall>d n a s r t. drv_finddir drv d n a s = Some (r, t) \<longrightarrow> fd_table t = fd_table s \<Longrightarrow>
    fs_resolve_path drv path s = Some (r, t) \<Longrightarrow> fd_table t = fd_table s"
  by (auto simp: fs_resolve_path_def dest: fds_resolve_loop split: if_splits)

lemma fds_parent_dir:
  "\<forall>d n a s r t. drv_finddir drv d n a s = Some (r, t) \<longrightarrow> fd_table t = fd_table s \<Longrightarrow>
    fs_get_parent_dir drv path s = Some (r, t) \<Longrightarrow> fd_table t = fd_table s"
  by (auto simp: fs_get_parent_dir_def dest: fds_resolve_path split: if_splits option.splits)

lemma fds_calls:
  assumes "keeps_fds drv trunc"
  shows "call_read drv op n a b c s = Some (r, t) \<Longrightarrow> fd_table t = fd_table s"
    "call_write drv op n a b c s = Some (r, t) \<Longrightarrow> fd_table t = fd_table s"
    "call_open drv op n s = Some t \<Longrightarrow> fd_table t = fd_table s"
    "call_close drv op n s = Some t \<Longrightarrow> fd_table t = fd_table s"
  using assms fds_fs_read [of drv n a b c s "(r, t)"] fds_fs_write [of drv n a b c s "(r, t)"]
    fds_fs_open [of drv n s t] fds_fs_close [of drv n s t]
  unfolding keeps_fds_def call_read_def call_write_def call_open_def call_close_def
  by (auto split: fs_op.splits)

lemma fds_truncate:
  "keeps_fds drv trunc \<Longrightarrow> truncate_file trunc n s = Some t \<Longrightarrow> fd_table t = fd_table s"
  unfolding keeps_fds_def
  by (auto simp: truncate_file_def dest!: fds_upd_node split: bind_splits fs_op.splits if_splits)

lemma fds_open_missing:
  assumes "keeps_fds drv trunc" "open_missing drv path s = Some (r, t)"
  shows "fd_table t = fd_table s"
proof -
  have "\<forall>d n a s r t. drv_finddir drv d n a s = Some (r, t) \<longrightarrow> fd_table t = fd_table s"
    using assms(1) unfolding keeps_fds_def by blast
  note par = fds_parent_dir [OF this]
  from assms(2) show ?thesis
    by (auto simp: open_missing_def Let_def dest!: par fds_create fds_add
        split: bind_splits if_splits)
qed

lemma std_closed_upd:
  "std_closed tab \<Longrightarrow> 3 \<le> i \<or> fd_used e = fd_used (tab ! i) \<or> \<not> fd_used e \<Longrightarrow> std_closed (tab[i := e])"
  by (cases "i < length tab") (auto simp: std_closed_def nth_list_update list_update_beyond)

lemma upd_fd_table: "upd_fd i f s = Some t \<Longrightarrow>
    i < length (fd_table s) \<and> fd_table t = (fd_table s)[i := f (fd_table s ! i)]"
  by (auto simp: upd_fd_def array_simps split: bind_splits)

lemma find_free_fd_cases:
  "find_free_fd s = - 1 \<and> (\<forall>i. 3 \<le> i \<and> i < MAX_FD \<longrightarrow> fd_used (fd_table s ! i)) \<or>
    (\<exists>i. find_free_fd s = int i \<and> 3 \<le> i \<and> i < MAX_FD \<and> \<not> fd_used (fd_table s ! i) \<and>
      (\<forall>j. 3 \<le> j \<and> j < i \<longrightarrow> fd_used (fd_table s ! j)))"
proof (cases "find (\<lambda>i. \<not> fd_used (fd_table s ! i)) [3..<MAX_FD]")
  case None
  then have "find_free_fd s = - 1" by (simp add: find_free_fd_def)
  moreover from None have "\<forall>i. 3 \<le> i \<and> i < MAX_FD \<longrightarrow> fd_used (fd_table s ! i)"
    by (simp add: find_upt_None)
  ultimately show ?thesis by blast
next
  case (Some i)
  with find_upt_least [OF Some] show ?thesis by (auto simp: find_free_fd_def)
qed

lemma fds_ok_open:
  assumes "keeps_fds drv trunc" "fds_ok s" "syscall_open drv trunc path fl s = Some (r, t)"
  shows "fds_ok t"
proof -
  have "\<forall>d n a s r t. drv_finddir drv d n a s = Some (r, t) \<longrightarrow> fd_table t = fd_table s"
    using assms(1) unfolding keeps_fds_def by blast
  note res = fds_resolve_path [OF this]
  have node: "fds_ok v" if "open_node drv trunc p fl n u = Some (q, v)" "fds_ok u" for p n u q v
  proof -
    from that(1) have "fd_table v = fd_table u \<or>
      (\<exists>e. 0 \<le> find_free_fd u \<and> fd_table v = (fd_table u)[nat (find_free_fd u) := e])"
      by (auto simp: open_node_def Let_def find_free_fd_def dest!: fds_truncate [OF assms(1)]
          fds_calls(3) [OF assms(1)] upd_fd_table split: bind_splits if_splits)
    then show ?thesis
      using that(2) find_free_fd_cases [of u] by (auto simp: fds_ok_def intro: std_closed_upd)
  qed
  from assms(2,3) show ?thesis
    by (auto simp: syscall_open_def fds_ok_def split: option.splits bind_splits if_splits
        dest!: res fds_open_missing [OF assms(1)] node)
qed

lemma fds_ok_cong: "fd_table t = fd_table s \<Longrightarrow> fds_ok s \<Longrightarrow> fds_ok t"
  by (simp add: fds_ok_def)

lemma fds_stdin: "read_stdin buf c s = Some (r, t) \<Longrightarrow> fd_table t = fd_table s"
  by (auto simp: read_stdin_def Let_def split: if_splits)

lemma fds_ok_read_node:
  assumes "keeps_fds drv trunc" "fds_ok s" "read_node drv fd node buf c n s = Some (r, t)"
  shows "fds_ok t"
  using assms(2,3) unfolding fds_ok_def
  by (auto simp: read_node_def Let_def dest!: fds_calls(1) [OF assms(1)] upd_fd_table
      intro!: std_closed_upd split: bind_splits if_splits)

lemma fds_grow: "grow_file node n k s = Some g \<Longrightarrow>
    (case g of Inl t \<Rightarrow> fd_table t = fd_table s | Inr t \<Rightarrow> fd_table t = fd_table s)"
  by (auto simp: grow_file_def Let_def dest!: fds_krealloc fds_upd_node
      split: if_splits prod.splits bind_splits)

lemma fds_ok_write_node:
  assumes "keeps_fds drv trunc" "fds_ok s" "write_node drv fd node buf c n s = Some (r, t)"
  shows "fds_ok t"
  using assms(2,3) unfolding fds_ok_def
  by (auto simp: write_node_def dest!: fds_calls(2) [OF assms(1)] fds_grow fds_upd_node upd_fd_table
      intro!: std_closed_upd split: bind_splits if_splits sum.splits)

lemma fds_putchars: "fd_table (fold (\<lambda>i t. emit (Putc (g i t)) t) is s) = fd_table s"
  by (induction "is" arbitrary: s) auto

lemma fds_ok_read:
  "keeps_fds drv trunc \<Longrightarrow> fds_ok s \<Longrightarrow> syscall_read drv fd buf c s = Some (r, t) \<Longrightarrow> fds_ok t"
  by (auto simp: syscall_read_def Let_def dest: fds_ok_read_node fds_stdin
      intro: fds_ok_cong split: if_splits bind_splits)

lemma fds_ok_write:
  "keeps_fds drv trunc \<Longrightarrow> fds_ok s \<Longrightarrow> syscall_write drv fd buf c s = Some (r, t) \<Longrightarrow> fds_ok t"
  by (auto simp: syscall_write_def Let_def fds_putchars dest: fds_ok_write_node
      intro: fds_ok_cong split: if_splits bind_splits)

lemma fds_ok_close:
  assumes "keeps_fds drv trunc" "fds_ok s" "syscall_close drv fd s = Some (r, t)"
  shows "fds_ok t"
proof (cases "fd < 0 \<or> int MAX_FD \<le> fd \<or> fd \<le> 2 \<or> \<not> fd_used (fd_table s ! nat fd)")
  case True
  with assms(2,3) show ?thesis
    by (auto simp: syscall_close_def intro: fds_ok_cong split: if_splits)
next
  case False
  with assms(2,3) show ?thesis unfolding fds_ok_def
    by (auto simp: syscall_close_def Let_def dest!: fds_calls(4) [OF assms(1)] upd_fd_table
        intro!: std_closed_upd split: bind_splits if_splits)
qed

text \<open>The states that file calls lead to, whatever they are asked to do.\<close>

inductive file_calls :: "'a ksys_ext kfs_scheme fs_driver \<Rightarrow>
    (nat \<Rightarrow> u32 \<Rightarrow> 'a ksys_scheme \<Rightarrow> 'a ksys_scheme option) \<Rightarrow> 'a ksys_scheme \<Rightarrow> 'a ksys_scheme \<Rightarrow> bool"
  for drv trunc s where
  none: "file_calls drv trunc s s"
| opened: "file_calls drv trunc s t \<Longrightarrow> syscall_open drv trunc path fl t = Some (r, u) \<Longrightarrow>
    file_calls drv trunc s u"
| closed: "file_calls drv trunc s t \<Longrightarrow> syscall_close drv fd t = Some (r, u) \<Longrightarrow>
    file_calls drv trunc s u"
| read: "file_calls drv trunc s t \<Longrightarrow> syscall_read drv fd buf c t = Some (w, u) \<Longrightarrow>
    file_calls drv trunc s u"
| written: "file_calls drv trunc s t \<Longrightarrow> syscall_write drv fd buf c t = Some (w, u) \<Longrightarrow>
    file_calls drv trunc s u"

lemma fds_ok_file_calls:
  assumes "file_calls drv trunc s t" "keeps_fds drv trunc" "fds_ok s"
  shows "fds_ok t"
  using assms(1)
proof (induction rule: file_calls.induct)
  case none
  show ?case by (rule assms(3))
next
  case (opened t path fl r u)
  then show ?case using fds_ok_open [OF assms(2)] by blast
next
  case (closed t fd r u)
  then show ?case using fds_ok_close [OF assms(2)] by blast
next
  case (read t fd buf c w u)
  then show ?case using fds_ok_read [OF assms(2)] by blast
next
  case (written t fd buf c w u)
  then show ?case using fds_ok_write [OF assms(2)] by blast
qed

section \<open>Files in memory\<close>

text \<open>The contents of a file without driver operations.\<close>

definition file_bytes :: "'a ksys_scheme \<Rightarrow> fs_node \<Rightarrow> u8 list" where
  "file_bytes s n = read_bytes (bytes s) (fn_contents n) (unat (fn_length n))"

lemma read_bytes_slice:
  "k + a \<le> n \<Longrightarrow> read_bytes m (p + of_nat a) k = take k (drop a (read_bytes m p n))"
  by (rule nth_equalityI) (simp_all add: read_bytes_def add_ac)

text \<open>What \<^verbatim>\<open>krealloc\<close>, the clearing of the tail and the copy of the new data leave in the new block.\<close>

lemma grown_bytes:
  fixes q c buf :: u32
  assumes "new = off + k" "len < new" "new < 2 ^ 32" "m = min new 256" "j < new"
    and "block q new \<inter> block c m = {}" "block q new \<inter> block buf k = {}"
  shows "memcpy_bytes (q + of_nat off) buf k
      (memset_bytes (q + of_nat len) 0 (new - len) (memcpy_bytes q c m b)) (q + of_nat j) =
    (if off \<le> j then b (buf + of_nat (j - off)) else if len \<le> j then 0
     else if j < 256 then b (c + of_nat j) else b (q + of_nat j))"
proof -
  let ?b1 = "memcpy_bytes q c m b" and ?b2 = "memset_bytes (q + of_nat len) 0 (new - len)
    (memcpy_bytes q c m b)"
  have sub: "block q m \<subseteq> block q new" "block (q + of_nat off) k \<subseteq> block q new"
    "block (q + of_nat len) (new - len) \<subseteq> block q new"
  proof -
    show "block q m \<subseteq> block q new" using assms(4) by (auto simp: block_def)
    have "q + of_nat x + of_nat i \<in> block q new" if "x + i < new" for x i
      using that assms(3) in_prefix_block [of "x + i" new q] by (simp add: add_ac)
    then show "block (q + of_nat off) k \<subseteq> block q new"
      "block (q + of_nat len) (new - len) \<subseteq> block q new"
      using assms(1) by (auto simp: block_def)
  qed
  have b1: "?b1 (q + of_nat j) = (if j < 256 then b (c + of_nat j) else b (q + of_nat j))"
  proof (cases "j < m")
    case True
    have "block q m \<inter> block c m = {}" using assms(6) sub(1) by blast
    with True assms(3,4) show ?thesis by (subst memcpy_bytes_inside) auto
  next
    case False
    then have "q + of_nat j \<notin> block q m" using assms(3-5) by (subst in_prefix_block) auto
    with False assms(4,5) show ?thesis by (simp add: memcpy_bytes_outside)
  qed
  have b2: "?b2 (q + of_nat j) = (if len \<le> j then 0 else ?b1 (q + of_nat j))"
    using in_sub_block [of j len "new - len" q] assms(2,3,5) by (simp add: memset_bytes_eq)
  show ?thesis
  proof (cases "off \<le> j")
    case True
    have "block (q + of_nat off) k \<inter> block buf k = {}" using assms(7) sub(2) by blast
    moreover have "q + of_nat j = q + of_nat off + of_nat (j - off)" "j - off < k"
      using True assms(1,5) by (auto simp: of_nat_diff)
    ultimately have "memcpy_bytes (q + of_nat off) buf k ?b2 (q + of_nat j) =
        ?b2 (buf + of_nat (j - off))"
      using assms(1,3) by (metis memcpy_bytes_inside add_leE less_imp_le)
    also have "buf + of_nat (j - off) \<in> block buf k"
      using \<open>j - off < k\<close> by (auto simp: block_def)
    then have nq: "buf + of_nat (j - off) \<notin> block q new" using assms(7) by blast
    then have "buf + of_nat (j - off) \<notin> block q m" using sub(1) by blast
    with nq have "?b2 (buf + of_nat (j - off)) = b (buf + of_nat (j - off))"
      using sub by (auto simp: memset_bytes_eq memcpy_bytes_outside)
    finally show ?thesis using True by simp
  next
    case False
    then have "q + of_nat j \<notin> block (q + of_nat off) k"
      using in_sub_block [of j off k q] assms(1,3,5) by simp
    with False show ?thesis by (simp add: memcpy_bytes_outside b2 b1)
  qed
qed

section \<open>Properties\<close>

definition closed_fd :: fd_entry where
  "closed_fd = \<lparr>fd_used = False, fd_node = 0, fd_offset = 0, fd_flags = 0\<rparr>"

text \<open>Descriptors as they are at start-up, and the directory of the file system's examples.\<close>

definition ksys0 :: ksys where
  "ksys0 = kfs.extend kfs_dir \<lparr>fd_table = replicate 32 closed_fd,
     syscall_table = replicate 32 None, keyboard_buffer = replicate 256 0, keyboard_buffer_pos = 0\<rparr>"

lemma ksys0_simps [simp]:
  "fd_table ksys0 = replicate 32 closed_fd" "fs_root ksys0 = 0x2000"
  "nodes ksys0 = nodes kfs_dir" "heap_end ksys0 = 0x100000"
  by (simp_all add: ksys0_def kfs.defs kfs_dir_def kfs0_def kproc.defs)

lemma fds_ok_ksys0: "fds_ok ksys0"
  by (simp add: fds_ok_def std_closed_def MAX_FD_def closed_fd_def)

text \<open>A driver whose directories have no entries and whose operations refuse.\<close>

definition empty_driver :: "ksys fs_driver" where
  "empty_driver = \<lparr>drv_read = (\<lambda>_ _ _ _ _ s. Some (0, s)), drv_write = (\<lambda>_ _ _ _ _ s. Some (0, s)),
     drv_open = (\<lambda>_ _ s. Some s), drv_close = (\<lambda>_ _ s. Some s),
     drv_readdir = (\<lambda>_ _ _ s. Some (0, s)), drv_finddir = (\<lambda>_ _ _ s. Some (0, s))\<rparr>"

lemma keeps_fds_empty: "keeps_fds empty_driver (\<lambda>_ _ s. Some s)"
  by (simp add: keeps_fds_def empty_driver_def)

lemma find_free_fd_range: "\<not> find_free_fd s < 0 \<Longrightarrow> 3 \<le> find_free_fd s \<and> find_free_fd s < 32"
  using find_free_fd_cases [of s] by (auto simp: MAX_FD_def)

lemma find_free_fd_eq:
  assumes "3 \<le> i" "i < MAX_FD" "\<not> fd_used (fd_table s ! i)"
    "\<forall>j. 3 \<le> j \<and> j < i \<longrightarrow> fd_used (fd_table s ! j)"
  shows "find_free_fd s = int i"
  using find_free_fd_cases [of s]
proof
  assume "\<exists>k. find_free_fd s = int k \<and> 3 \<le> k \<and> k < MAX_FD \<and> \<not> fd_used (fd_table s ! k) \<and>
    (\<forall>j. 3 \<le> j \<and> j < k \<longrightarrow> fd_used (fd_table s ! j))"
  then obtain k where k: "find_free_fd s = int k" "3 \<le> k" "\<not> fd_used (fd_table s ! k)"
    "\<forall>j. 3 \<le> j \<and> j < k \<longrightarrow> fd_used (fd_table s ! j)" by blast
  have "\<not> k < i" "\<not> i < k" using k assms by auto
  with k(1) show ?thesis by simp
qed (use assms in auto)

lemma open_node_result:
  "open_node drv trunc path fl n s = Some (r, t) \<Longrightarrow> r = - 1 \<or> 3 \<le> r \<and> r < 32"
  by (auto simp: open_node_def Let_def dest: find_free_fd_range split: bind_splits if_splits)

lemma syscall_open_result:
  "syscall_open drv trunc path fl s = Some (r, t) \<Longrightarrow> r = - 1 \<or> 3 \<le> r \<and> r < 32"
  by (auto simp: syscall_open_def dest!: open_node_result split: option.splits bind_splits if_splits)

text \<open>
  C23: standard input can never be read. Whatever files are opened, closed, read and written,
  with drivers that leave the descriptor table alone, descriptors 0, 1 and 2 stay unused,
  since \<^verbatim>\<open>syscall_open\<close> only hands out 3 to 31; and \<^verbatim>\<open>syscall_read\<close> on descriptor 0 tests the
  used flag first, so its keyboard branch is dead code.
\<close>

theorem stdin_never_readable:
  assumes "fds_ok s" "keeps_fds drv trunc" "file_calls drv trunc s t"
  shows "fds_ok t \<and> syscall_read drv 0 buf count t =
      Some (- 1, puts (''ERROR: Invalid file descriptor'' @ newline) t) \<and>
    (\<forall>path fl r u. syscall_open drv trunc path fl t = Some (r, u) \<longrightarrow> r = - 1 \<or> 3 \<le> r \<and> r < 32)"
proof -
  have ok: "fds_ok t" by (rule fds_ok_file_calls [OF assms(3,2,1)])
  then have "\<not> fd_used (fd_table t ! 0)" by (simp add: fds_ok_def std_closed_def)
  then have "syscall_read drv 0 buf count t =
      Some (- 1, puts (''ERROR: Invalid file descriptor'' @ newline) t)"
    by (simp add: syscall_read_def)
  with ok syscall_open_result show ?thesis by blast
qed

theorem stdin_never_readable_witness:
  "\<exists>t. syscall_close empty_driver 5 ksys0 = Some (- 1, t) \<and>
    syscall_read empty_driver 0 0x9000 16 t =
      Some (- 1, puts (''ERROR: Invalid file descriptor'' @ newline) t)"
proof -
  have c: "syscall_close empty_driver 5 ksys0 =
      Some (- 1, puts (''ERROR: Descriptor is already closed'' @ newline) ksys0)" (is "_ = Some (_, ?t)")
    by (simp add: syscall_close_def MAX_FD_def closed_fd_def)
  have "file_calls empty_driver (\<lambda>_ _ s. Some s) ksys0 ?t"
    by (rule file_calls.closed [OF file_calls.none c])
  from stdin_never_readable [OF fds_ok_ksys0 keeps_fds_empty this] c show ?thesis by blast
qed

text \<open>
  Opening and closing. \<^verbatim>\<open>syscall_open\<close> of an existing file without driver operations
  returns the lowest free descriptor from 3 on, positioned at the start (or at the end with
  \<^verbatim>\<open>O_APPEND\<close>); \<^verbatim>\<open>syscall_close\<close> frees it again, so the next open gets the same one.
\<close>

theorem open_then_close:
  assumes "fds_ok s" "fs_resolve_path drv path s = Some (node, s)" "node \<noteq> 0"
    and "nodes s node = Some n" "fn_type n = FS_FILE" "fn_open n = Op_null" "fn_close n = Op_null"
    and "fl AND O_TRUNC = 0" "find_free_fd s \<noteq> - 1"
  shows "\<exists>i t u. syscall_open drv trunc (Some path) fl s = Some (int i, t) \<and> 3 \<le> i \<and> i < 32 \<and>
    \<not> fd_used (fd_table s ! i) \<and> (\<forall>j. 3 \<le> j \<and> j < i \<longrightarrow> fd_used (fd_table s ! j)) \<and>
    fd_used (fd_table t ! i) \<and> fd_node (fd_table t ! i) = node \<and>
    fd_offset (fd_table t ! i) = (if fl AND O_APPEND \<noteq> 0 then fn_length n else 0) \<and>
    syscall_close drv (int i) t = Some (0, u) \<and> find_free_fd u = int i \<and>
    (\<forall>j. j \<noteq> i \<longrightarrow> fd_table u ! j = fd_table s ! j)"
proof -
  from find_free_fd_cases [of s] assms(9) obtain i where
    i: "find_free_fd s = int i" "3 \<le> i" "i < 32" "\<not> fd_used (fd_table s ! i)"
      "\<forall>j. 3 \<le> j \<and> j < i \<longrightarrow> fd_used (fd_table s ! j)" by (auto simp: MAX_FD_def)
  have len: "length (fd_table s) = 32"
    using assms(1) by (simp add: fds_ok_def std_closed_def MAX_FD_def)
  let ?e = "(fd_table s ! i)\<lparr>fd_node := node,
    fd_offset := (if fl AND O_APPEND \<noteq> 0 then fn_length n else 0), fd_used := True\<rparr>"
  let ?t = "s\<lparr>fd_table := (fd_table s)[i := ?e]\<rparr>"
  let ?u = "s\<lparr>fd_table := (fd_table s)[i := ?e\<lparr>fd_node := 0, fd_offset := 0, fd_used := False\<rparr>]\<rparr>"
  have op: "syscall_open drv trunc (Some path) fl s = Some (int i, ?t)"
    using assms(2-8) i len by (simp add: syscall_open_def open_node_def upd_fd_def)
  have cl: "syscall_close drv (int i) ?t = Some (0, ?u)"
    using assms(3,4,7) i len by (simp add: syscall_close_def upd_fd_def MAX_FD_def Let_def)
  have "find_free_fd ?u = int i"
    by (rule find_free_fd_eq) (use i len in \<open>simp_all add: MAX_FD_def\<close>)
  with op cl i len show ?thesis
    by (intro exI [of _ i] exI [of _ ?t] exI [of _ ?u]) simp
qed

text \<open>A driver whose directories know the file at 0x4000 under one name.\<close>

definition file_driver :: "ksys fs_driver" where
  "file_driver = empty_driver\<lparr>drv_finddir := (\<lambda>_ _ name s. Some (if name = ''f'' then 0x4000 else 0, s))\<rparr>"

lemma resolve_f: "fs_resolve_path file_driver ''/f'' ksys0 = Some (0x4000, ksys0)"
proof -
  have "fs_finddir file_driver 0x2000 ''f'' ksys0 = Some (0x4000, ksys0)"
    by (subst fs_finddir.simps) (simp add: file_driver_def kfs_dir_def)
  then show ?thesis
    by (simp add: resolve_path_walk enter_def kfs_dir_def zero_node_def)
qed

theorem open_then_close_witness:
  "\<exists>t u. syscall_open file_driver (\<lambda>_ _. Some) (Some ''/f'') 1 ksys0 = Some (3, t) \<and>
    syscall_close file_driver 3 t = Some (0, u) \<and> find_free_fd u = 3"
proof -
  have node: "nodes ksys0 0x4000 = Some zero_node" by (simp add: kfs_dir_def)
  have free: "find_free_fd ksys0 = 3"
    by (rule trans [OF find_free_fd_eq [of 3]]) (simp_all add: MAX_FD_def closed_fd_def)
  obtain i t u where i: "syscall_open file_driver (\<lambda>_ _. Some) (Some ''/f'') 1 ksys0 = Some (int i, t)"
    "3 \<le> i" "\<forall>j. 3 \<le> j \<and> j < i \<longrightarrow> fd_used (fd_table ksys0 ! j)" "i < 32"
    "syscall_close file_driver (int i) t = Some (0, u)" "find_free_fd u = int i"
    using open_then_close [OF fds_ok_ksys0 resolve_f _ node, of 1 "\<lambda>_ _. Some"] free
    by (auto simp: zero_node_def O_TRUNC_def)
  have "i = 3" using i(2-4) spec [OF i(3), of 3] by (auto simp: closed_fd_def)
  with i show ?thesis by auto
qed

text \<open>
  C11: reading a file kept in memory. From an offset inside the file \<^verbatim>\<open>syscall_read\<close> delivers the
  next bytes of the file, as many as were asked for or as are left, changes no other byte of
  memory and moves the offset past them, so it never leaves the file.
\<close>

theorem read_file_slice:
  assumes "i < length (fd_table s)" "i < 32" "i \<noteq> 0" "fd_used (fd_table s ! i)"
    "fd_node (fd_table s ! i) = p" "p \<noteq> 0"
    and "nodes s p = Some n" "fn_mask n AND FS_PERM_READ \<noteq> 0" "fn_read n = Op_null"
    "fn_contents n \<noteq> 0" "off = fd_offset (fd_table s ! i)" "off \<le> fn_length n"
    and "k = min (unat count) (unat (fn_length n) - unat off)"
    "block buf k \<inter> block (fn_contents n + off) k = {}"
  shows "\<exists>t. syscall_read drv (int i) buf count s = Some (of_nat k, t) \<and>
    read_bytes (bytes t) buf k = take (unat count) (drop (unat off) (file_bytes s n)) \<and>
    (\<forall>a. a \<notin> block buf k \<longrightarrow> bytes t a = bytes s a) \<and>
    unat (fd_offset (fd_table t ! i)) = unat off + k \<and>
    fd_offset (fd_table t ! i) \<le> fn_length n \<and> nodes t = nodes s"
proof -
  obtain z where z: "(if fn_length n - off < count then fn_length n - off else count) = z" by blast
  have "unat (fn_length n - off) = unat (fn_length n) - unat off"
    using assms(12) by (intro unat_sub) (simp add: word_le_nat_alt)
  then have k: "unat z = k"
    using assms(13) z [symmetric] by (auto simp: word_less_nat_alt min_def)
  have le: "unat off \<le> unat (fn_length n)" using assms(12) by (simp add: word_le_nat_alt)
  let ?t = "s\<lparr>bytes := memcpy_bytes buf (fn_contents n + off) k (bytes s),
    fd_table := (fd_table s)[i := (fd_table s ! i)\<lparr>fd_offset := off + z\<rparr>]\<rparr>"
  have empty: "memcpy_bytes buf q k m = m" if "\<not> 0 < z" for q m
  proof -
    have "z = 0" using that by (simp add: word_neq_0_conv [symmetric])
    then show ?thesis using k by (auto simp: memcpy_bytes_def)
  qed
  have "read_node drv i p buf count n s = Some (z, ?t)"
    using assms(1,9,10)
    by (simp add: read_node_def upd_fd_def assms(11) [symmetric] z memcpy_def k empty)
  then have run: "syscall_read drv (int i) buf count s = Some (z, ?t)"
    using assms(2-8) by (simp add: syscall_read_def MAX_FD_def)
  have kn: "k + unat off \<le> unat (fn_length n)" "k < 2 ^ 32"
    using assms(13) le unat_less32 [of count] by auto
  have "unat (off + z) = unat off + k"
    using kn k unat_less32 [of "fn_length n"] by (subst unat_plus_no_wrap) auto
  moreover from this kn have "off + z \<le> fn_length n" by (simp add: word_le_nat_alt)
  moreover have "read_bytes (memcpy_bytes buf (fn_contents n + off) k (bytes s)) buf k =
      take k (drop (unat off) (file_bytes s n))"
    using read_bytes_memcpy [OF _ assms(14)] kn
      read_bytes_slice [of k "unat off" "unat (fn_length n)" "bytes s" "fn_contents n"]
    by (simp add: file_bytes_def)
  moreover have "take k (drop (unat off) (file_bytes s n)) =
      take (unat count) (drop (unat off) (file_bytes s n))"
    using assms(13) by (simp add: min_def file_bytes_def)
  moreover have "of_nat k = z" using k by auto
  ultimately show ?thesis
    using run assms(1) by (intro exI [of _ ?t]) (simp add: memcpy_bytes_outside)
qed

text \<open>A file of 300 bytes, the numbers 0, 1, 2 and so on modulo 256, open at position 3.\<close>

definition ram_file :: fs_node where
  "ram_file = zero_node\<lparr>fn_mask := 3, fn_length := 300, fn_contents := 0x20000\<rparr>"

definition ksys_ram :: ksys where
  "ksys_ram = ksys0\<lparr>bytes := (\<lambda>a. if a < 0x30000 then ucast (a - 0x20000) else 9),
     nodes := [0x4000 \<mapsto> ram_file],
     fd_table := (replicate 32 closed_fd)[3 := \<lparr>fd_used = True, fd_node = 0x4000, fd_offset = 3,
       fd_flags = 0\<rparr>]\<rparr>"

theorem read_file_slice_witness:
  "\<exists>t. syscall_read empty_driver 3 0x50000 2 ksys_ram = Some (2, t) \<and>
    read_bytes (bytes t) 0x50000 2 = [3, 4] \<and> fd_offset (fd_table t ! 3) = 5"
proof -
  have dis: "block 0x50000 2 \<inter> block (0x20000 + 3) 2 = ({} :: u32 set)"
    by (auto simp: in_block_interval)
  have slice: "take 2 (drop 3 (file_bytes ksys_ram ram_file)) = [3, 4]"
  proof -
    have "file_bytes ksys_ram ram_file = read_bytes (bytes ksys_ram) 0x20000 300"
      by (simp add: file_bytes_def ram_file_def)
    then have "take 2 (drop 3 (file_bytes ksys_ram ram_file)) =
        read_bytes (bytes ksys_ram) (0x20000 + of_nat 3) 2"
      using read_bytes_slice [of 2 3 300 "bytes ksys_ram" "0x20000"] by simp
    also have "\<dots> = [bytes ksys_ram 0x20003, bytes ksys_ram 0x20004]"
      by (simp add: read_bytes_def upt_rec)
    also have "\<dots> = [3, 4]" by (simp add: ksys_ram_def)
    finally show ?thesis .
  qed
  have "\<exists>t. syscall_read empty_driver (int 3) 0x50000 2 ksys_ram = Some (of_nat 2, t) \<and>
    read_bytes (bytes t) 0x50000 2 = take (unat (2 :: u32)) (drop (unat (3 :: u32)) (file_bytes ksys_ram ram_file)) \<and>
    (\<forall>a. a \<notin> block 0x50000 2 \<longrightarrow> bytes t a = bytes ksys_ram a) \<and>
    unat (fd_offset (fd_table t ! 3)) = unat (3 :: u32) + 2 \<and>
    fd_offset (fd_table t ! 3) \<le> fn_length ram_file \<and> nodes t = nodes ksys_ram"
    by (rule read_file_slice [where p = "0x4000"])
      (simp_all add: ksys_ram_def ram_file_def zero_node_def FS_PERM_READ_def dis [simplified])
  then obtain t where t: "syscall_read empty_driver 3 0x50000 2 ksys_ram = Some (2, t)"
    "read_bytes (bytes t) 0x50000 2 = [3, 4]" "unat (fd_offset (fd_table t ! 3)) = 5"
    using slice by auto
  moreover have "fd_offset (fd_table t ! 3) = 5" using t(3) by (simp add: word_unat_eq_iff)
  ultimately show ?thesis by blast
qed

text \<open>
  C24: writing past the end of a file kept in memory. The write succeeds and the file gets its
  new length in a fresh heap block; the written range holds the data, a gap between the old
  end and the offset holds zeros, and of the old contents only the first 256 bytes survive:
  what lies beyond is whatever the fresh block held.
\<close>

theorem write_grows_file:
  assumes "i < length (fd_table s)" "2 < i" "i < 32" "fd_used (fd_table s ! i)"
    "fd_node (fd_table s ! i) = p" "p \<noteq> 0"
    and "nodes s p = Some n" "fn_mask n AND FS_PERM_WRITE \<noteq> 0" "fn_write n = Op_null"
    "fn_contents n \<noteq> 0" "q = heap_end s" "q \<noteq> 0" "off = unat (fd_offset (fd_table s ! i))"
    and "new = off + unat count" "new < 2 ^ 32" "unat (fn_length n) < new" "0 < count"
    "block q new \<inter> block (fn_contents n) (min new 256) = {}" "block q new \<inter> block buf (unat count) = {}"
  shows "\<exists>t n'. syscall_write drv (int i) buf count s = Some (count, t) \<and> nodes t p = Some n' \<and>
    fn_contents n' = q \<and> unat (fn_length n') = new \<and> unat (fd_offset (fd_table t ! i)) = new \<and>
    (\<forall>j < new. file_bytes t n' ! j =
      (if off \<le> j then bytes s (buf + of_nat (j - off)) else if unat (fn_length n) \<le> j then 0
       else if j < 256 then bytes s (fn_contents n + of_nat j) else bytes s (q + of_nat j)))"
proof -
  let ?e = "fd_table s ! i" and ?c = "fn_contents n" and ?l = "fn_length n"
  obtain w where w: "w = fd_offset ?e + count" by blast
  have uw: "unat w = new" unfolding w using assms(13-15) by (simp add: unat_plus_no_wrap)
  have grow: "\<not> w \<le> ?l" using assms(16) uw by (simp add: word_le_nat_alt)
  have wz: "w \<noteq> 0" using grow by auto
  have sub: "unat (w - ?l) = new - unat ?l"
    using grow uw by (subst unat_sub) (simp_all add: word_le_nat_alt)
  have cs: "unat (if w < 256 then w else 256) = min new 256" using uw by (simp add: copy_size_eq)
  let ?b = "memset_bytes (q + ?l) 0 (new - unat ?l) (memcpy_bytes q ?c (min new 256) (bytes s))"
  have kr: "\<exists>s1. krealloc ?c w s = (q, s1) \<and> bytes s1 = memcpy_bytes q ?c (min new 256) (bytes s) \<and>
      nodes s1 = nodes s \<and> fd_table s1 = fd_table s \<and> tick_count s1 = tick_count s"
    using assms(10-12) wz cs
    by (simp add: krealloc_def kmalloc_eq Let_def kfree_def memcpy_def)
  then obtain s1 where s1: "krealloc ?c w s = (q, s1)"
    "bytes s1 = memcpy_bytes q ?c (min new 256) (bytes s)" "nodes s1 = nodes s"
    "fd_table s1 = fd_table s" "tick_count s1 = tick_count s" by blast
  let ?n1 = "n\<lparr>fn_contents := q, fn_length := w\<rparr>"
  have g: "\<exists>s2. grow_file p n w s = Some (Inr s2) \<and> bytes s2 = ?b \<and>
      nodes s2 = (nodes s)(p \<mapsto> ?n1) \<and> fd_table s2 = fd_table s"
    using s1 grow assms(7,12) sub by (simp add: grow_file_def memset_def upd_node_def)
  then obtain s2 where s2: "grow_file p n w s = Some (Inr s2)" "bytes s2 = ?b"
    "nodes s2 = (nodes s)(p \<mapsto> ?n1)" "fd_table s2 = fd_table s" by blast
  let ?b3 = "memcpy_bytes (q + fd_offset ?e) buf (unat count) ?b"
  have run: "\<exists>t. write_node drv i p buf count n s = Some (count, t) \<and> bytes t = ?b3 \<and>
      nodes t p = Some (?n1\<lparr>fn_modified_time := get_tick_count t\<rparr>) \<and>
      fd_table t = (fd_table s)[i := ?e\<lparr>fd_offset := w\<rparr>]"
    using s2 assms(1,9,17)
    by (simp add: write_node_def w [symmetric] memcpy_def upd_fd_def upd_node_def get_tick_count_def)
  then obtain t where t: "write_node drv i p buf count n s = Some (count, t)" "bytes t = ?b3"
    "nodes t p = Some (?n1\<lparr>fn_modified_time := get_tick_count t\<rparr>)"
    "fd_table t = (fd_table s)[i := ?e\<lparr>fd_offset := w\<rparr>]" by blast
  have call: "syscall_write drv (int i) buf count s = Some (count, t)"
    using assms(2-8) t(1) by (simp add: syscall_write_def MAX_FD_def)
  have "?b3 (q + of_nat j) =
      (if off \<le> j then bytes s (buf + of_nat (j - off)) else if unat ?l \<le> j then 0
       else if j < 256 then bytes s (?c + of_nat j) else bytes s (q + of_nat j))" if "j < new" for j
    using grown_bytes [of new off "unat count" "unat ?l" "min new 256" j q ?c buf "bytes s"]
      assms(13-16,18,19) that by simp
  then show ?thesis
    using call t assms(1) uw
    by (intro exI [of _ t] exI [of _ "?n1\<lparr>fn_modified_time := get_tick_count t\<rparr>"])
      (simp add: file_bytes_def read_bytes_def)
qed

text \<open>Appending 10 bytes to the 300-byte file loses its byte 260, which was 4.\<close>

definition ksys_end :: ksys where
  "ksys_end = ksys_ram\<lparr>fd_table := (replicate 32 closed_fd)[3 := \<lparr>fd_used = True,
     fd_node = 0x4000, fd_offset = 300, fd_flags = 0\<rparr>]\<rparr>"

theorem write_grows_file_witness:
  "file_bytes ksys_end ram_file ! 260 = 4 \<and>
    (\<exists>t n'. syscall_write empty_driver 3 0x50000 10 ksys_end = Some (10, t) \<and>
      nodes t 0x4000 = Some n' \<and> file_bytes t n' ! 260 = 9)"
proof -
  have heap: "heap_end ksys_end = 0x100000" by (simp add: ksys_end_def ksys_ram_def)
  have dis: "block 0x100000 310 \<inter> block 0x20000 256 = ({} :: u32 set)"
    "block 0x100000 310 \<inter> block 0x50000 10 = ({} :: u32 set)"
    by (auto simp: in_block_interval)
  have "\<exists>t n'. syscall_write empty_driver (int 3) 0x50000 10 ksys_end = Some (10, t) \<and>
    nodes t 0x4000 = Some n' \<and> fn_contents n' = 0x100000 \<and> unat (fn_length n') = 310 \<and>
    unat (fd_offset (fd_table t ! 3)) = 310 \<and>
    (\<forall>j < 310. file_bytes t n' ! j = (if 300 \<le> j then bytes ksys_end (0x50000 + of_nat (j - 300))
       else if unat (fn_length ram_file) \<le> j then 0
       else if j < 256 then bytes ksys_end (fn_contents ram_file + of_nat j)
       else bytes ksys_end (0x100000 + of_nat j)))"
    by (rule write_grows_file [where p = "0x4000"])
      (simp_all add: heap dis [simplified], simp_all add: ksys_end_def ksys_ram_def ram_file_def
        zero_node_def FS_PERM_WRITE_def dis [simplified])
  then obtain t n' where t: "syscall_write empty_driver 3 0x50000 10 ksys_end = Some (10, t)"
    "nodes t 0x4000 = Some n'"
    "\<forall>j < 310. file_bytes t n' ! j = (if 300 \<le> j then bytes ksys_end (0x50000 + of_nat (j - 300))
       else if unat (fn_length ram_file) \<le> j then 0
       else if j < 256 then bytes ksys_end (fn_contents ram_file + of_nat j)
       else bytes ksys_end (0x100000 + of_nat j))"
    by auto
  have "file_bytes t n' ! 260 = bytes ksys_end 0x100104"
    using spec [OF t(3), of 260] by (simp add: ram_file_def)
  moreover have "bytes ksys_end 0x100104 = 9" "file_bytes ksys_end ram_file ! 260 = 4"
    by (simp_all add: ksys_end_def ksys_ram_def file_bytes_def ram_file_def read_bytes_def)
  ultimately show ?thesis using t(1,2) by auto
qed

lemma upd_node_keeps:
  assumes "upd_node p f s = Some t" "\<And>n. h (f n) = h n"
  shows "map_option h (nodes t x) = map_option h (nodes s x)"
  using assms by (auto simp: upd_node_def split: bind_splits)

lemma fs_add_node_keeps:
  assumes "fs_add_node d c s = Some t"
    and "\<And>n k. h (n\<lparr>fn_parent := k\<rparr>) = h n" "\<And>n k. h (n\<lparr>fn_children := k\<rparr>) = h n"
    "\<And>n k. h (n\<lparr>fn_next := k\<rparr>) = h n"
  shows "map_option h (nodes t x) = map_option h (nodes s x)"
  using assms(1)
  by (auto simp: fs_add_node_def split: if_splits bind_splits
      dest!: upd_node_keeps [where h = h and x = x, OF _ assms(2)]
        upd_node_keeps [where h = h and x = x, OF _ assms(3)]
        upd_node_keeps [where h = h and x = x, OF _ assms(4)])

text \<open>What decides how a fresh file opens.\<close>

definition open_fields :: "fs_node \<Rightarrow> fs_node_type \<times> fs_op \<times> fs_op \<times> u32" where
  "open_fields n = (fn_type n, fn_open n, fn_truncate n, fn_length n)"

lemma open_missing_node:
  fixes s t :: "'a ksys_scheme"
  assumes "open_missing drv path s = Some (p, t)" "p \<noteq> 0"
  shows "map_option open_fields (nodes t p) = Some (FS_FILE, Op_fs, Op_null, 0)"
proof -
  from assms obtain nm d and s1 s2 s3 :: "'a ksys_scheme" where
    c: "fs_create_node nm FS_FILE s1 = Some (p, s2)" and a: "fs_add_node d p s2 = Some s3"
    and t: "nodes t = nodes s3"
    by (auto simp: open_missing_def Let_def split: bind_splits if_splits)
  obtain k nm where "nodes s2 p = Some (new_node nm FS_FILE k)"
    using c assms(2) by (auto simp: fs_create_node_def kmalloc_eq split: bind_splits if_splits)
  then have "map_option open_fields (nodes s2 p) = Some (FS_FILE, Op_fs, Op_null, 0)"
    by (simp add: open_fields_def new_node_def zero_node_def)
  then show ?thesis
    using fs_add_node_keeps [OF a, of open_fields p] t by (simp add: open_fields_def)
qed

text \<open>
  A file cannot be created. When the path leads nowhere, \<^verbatim>\<open>syscall_open\<close> with
  \<^verbatim>\<open>O_CREAT\<close> either fails with -1 or, having created and linked the file and taken a
  descriptor, calls the file's own open operation, which never returns: no call delivers a
  descriptor.
\<close>

theorem open_create_never_succeeds:
  assumes "fs_resolve_path drv path s = Some (0, s1)"
    and "syscall_open drv trunc (Some path) fl s = Some (r, t)"
  shows "r = - 1"
proof (rule ccontr)
  assume r: "r \<noteq> - 1"
  from assms r obtain p s2 where m: "open_missing drv path s1 = Some (p, s2)" "p \<noteq> 0"
    and o: "open_node drv trunc path fl p s2 = Some (r, t)"
    by (auto simp: syscall_open_def split: if_splits bind_splits)
  from open_missing_node [OF m] obtain n where n: "nodes s2 p = Some n" "fn_type n = FS_FILE"
    "fn_open n = Op_fs" "fn_truncate n = Op_null" "fn_length n = 0"
    by (auto simp: open_fields_def)
  then have "truncate_file trunc p s2 = Some s2" by (simp add: truncate_file_def)
  with o n r obtain e where e: "fs_open drv p (s2\<lparr>fd_table := e\<rparr>) = Some t"
    by (auto simp: open_node_def Let_def upd_fd_def call_open_def split: if_splits bind_splits)
  show False using fs_open_self [OF e _ m(2) n(3)] n(1) by simp
qed

theorem open_create_never_succeeds_witness:
  "fs_resolve_path file_driver ''/g'' ksys0 = Some (0, ksys0) \<and>
    (\<nexists>r t. syscall_open file_driver (\<lambda>_ _. Some) (Some ''/g'') O_CREAT ksys0 = Some (r, t) \<and> r \<noteq> - 1)"
proof -
  have "fs_finddir file_driver 0x2000 ''g'' ksys0 = Some (0, ksys0)"
    by (subst fs_finddir.simps) (simp add: file_driver_def kfs_dir_def)
  then have "fs_resolve_path file_driver ''/g'' ksys0 = Some (0, ksys0)"
    by (simp add: resolve_path_walk enter_def)
  with open_create_never_succeeds [OF this] show ?thesis by blast
qed

end
