(* ===== verification/Firewall.thy ===== *)
theory Firewall
  imports Console
begin

text \<open>
  The packet filter of \<^verbatim>\<open>src/security/firewall.c\<close>: an array of 256 rules of which the
  first \<^verbatim>\<open>rule_count\<close> are in force, and a flag that switches filtering off. The first rule
  that matches a packet decides; a field that is zero in a rule matches everything; no match
  means the packet is denied.
\<close>

section \<open>State and operations\<close>

record firewall_rule =
  fr_src_ip :: u32
  fr_dst_ip :: u32
  fr_src_port :: u16
  fr_dst_port :: u16
  fr_protocol :: u8
  fr_action :: u8

record firewall_state = console +
  rules :: "firewall_rule list"
  rule_count :: nat
  firewall_enabled :: bool

definition MAX_RULES :: nat where
  "MAX_RULES = 256"

definition RULE_ALLOW :: int where
  "RULE_ALLOW = 1"

definition RULE_DENY :: int where
  "RULE_DENY = 0"

definition firewall_init :: "'a firewall_state_scheme \<Rightarrow> 'a firewall_state_scheme" where
  "firewall_init s =
     puts (''Firewall initialized.'' @ newline) (s\<lparr>rule_count := 0, firewall_enabled := True\<rparr>)"

text \<open>The array write is inside the array, since the guard has just compared the count.\<close>

definition firewall_add_rule ::
  "firewall_rule \<Rightarrow> 'a firewall_state_scheme \<Rightarrow> int \<times> 'a firewall_state_scheme" where
  "firewall_add_rule r s =
     (if MAX_RULES \<le> rule_count s then (- 1, s)
      else (0, s\<lparr>rules := (rules s)[rule_count s := r], rule_count := rule_count s + 1\<rparr>))"

definition rule_matches :: "u32 \<Rightarrow> u32 \<Rightarrow> u16 \<Rightarrow> u16 \<Rightarrow> u8 \<Rightarrow> firewall_rule \<Rightarrow> bool" where
  "rule_matches src_ip dst_ip src_port dst_port protocol r \<longleftrightarrow>
     (fr_src_ip r = src_ip \<or> fr_src_ip r = 0) \<and>
     (fr_dst_ip r = dst_ip \<or> fr_dst_ip r = 0) \<and>
     (fr_src_port r = src_port \<or> fr_src_port r = 0) \<and>
     (fr_dst_port r = dst_port \<or> fr_dst_port r = 0) \<and>
     (fr_protocol r = protocol \<or> fr_protocol r = 0)"

text \<open>The loop \<^verbatim>\<open>for (int i = 0; i < rule_count; i++)\<close> with its early return.\<close>

fun check_from :: "firewall_rule list \<Rightarrow> nat list \<Rightarrow> (firewall_rule \<Rightarrow> bool) \<Rightarrow> int" where
  "check_from rs [] match = RULE_DENY"
| "check_from rs (i # is) match =
     (if match (rs ! i) then uint (fr_action (rs ! i)) else check_from rs is match)"

definition firewall_check_packet ::
  "u32 \<Rightarrow> u32 \<Rightarrow> u16 \<Rightarrow> u16 \<Rightarrow> u8 \<Rightarrow> 'a firewall_state_scheme \<Rightarrow> int" where
  "firewall_check_packet src_ip dst_ip src_port dst_port protocol s =
     (if \<not> firewall_enabled s then RULE_ALLOW
      else check_from (rules s) [0..<rule_count s]
        (rule_matches src_ip dst_ip src_port dst_port protocol))"

definition firewall_enable :: "'a firewall_state_scheme \<Rightarrow> 'a firewall_state_scheme" where
  "firewall_enable s = puts (''Firewall enabled.'' @ newline) (s\<lparr>firewall_enabled := True\<rparr>)"

definition firewall_disable :: "'a firewall_state_scheme \<Rightarrow> 'a firewall_state_scheme" where
  "firewall_disable s = puts (''Firewall disabled.'' @ newline) (s\<lparr>firewall_enabled := False\<rparr>)"

section \<open>Invariant and abstraction\<close>

definition firewall_inv :: "'a firewall_state_scheme \<Rightarrow> bool" where
  "firewall_inv s \<longleftrightarrow> length (rules s) = MAX_RULES \<and> rule_count s \<le> MAX_RULES"

text \<open>The rules in force, oldest first.\<close>

definition active_rules :: "'a firewall_state_scheme \<Rightarrow> firewall_rule list" where
  "active_rules s = take (rule_count s) (rules s)"

lemma emit_firewall [simp]:
  "rules (emit c s) = rules s" "rule_count (emit c s) = rule_count s"
  "firewall_enabled (emit c s) = firewall_enabled s"
  by (simp_all add: emit_def)

lemma firewall_init_inv [invariants]:
  "length (rules s) = MAX_RULES \<Longrightarrow> firewall_inv (firewall_init s) \<and> active_rules (firewall_init s) = []"
  by (simp add: firewall_init_def firewall_inv_def active_rules_def)

lemma firewall_add_rule_inv [invariants]:
  "firewall_inv s \<Longrightarrow> firewall_inv (snd (firewall_add_rule r s))"
  by (simp add: firewall_add_rule_def firewall_inv_def)

lemma firewall_switch_inv [invariants]:
  "firewall_inv s \<Longrightarrow> firewall_inv (firewall_enable s)"
  "firewall_inv s \<Longrightarrow> firewall_inv (firewall_disable s)"
  by (simp_all add: firewall_enable_def firewall_disable_def firewall_inv_def)

lemma active_rules_add:
  "firewall_inv s \<Longrightarrow> rule_count s < MAX_RULES \<Longrightarrow>
    active_rules (snd (firewall_add_rule r s)) = active_rules s @ [r]"
  by (simp add: firewall_add_rule_def firewall_inv_def active_rules_def take_Suc_conv_app_nth)

lemma check_from_find:
  "k \<le> length rs \<Longrightarrow> n \<le> k \<Longrightarrow>
    check_from rs [n..<k] match =
      (case find match (drop n (take k rs)) of None \<Rightarrow> RULE_DENY | Some r \<Rightarrow> uint (fr_action r))"
proof (induction "k - n" arbitrary: n)
  case 0
  then show ?case by simp
next
  case (Suc m)
  then have "n < k" by simp
  then have "[n..<k] = n # [Suc n..<k]" "drop n (take k rs) = rs ! n # drop (Suc n) (take k rs)"
    using Suc.prems by (simp_all add: upt_conv_Cons Cons_nth_drop_Suc [symmetric])
  with Suc show ?case by simp
qed

section \<open>The packet filter as an interface\<close>

text \<open>
  What the network stack relies on: rules are appended in order while there is room, and the
  first rule in force that matches a packet decides its verdict. The two facts a client needs
  are proved once: a rule added later never overrides a decision, and it does decide the
  packets that no earlier rule matched.
\<close>

locale packet_filter =
  fixes inv :: "'s \<Rightarrow> bool"
    and active :: "'s \<Rightarrow> 'r list"
    and filtering :: "'s \<Rightarrow> bool"
    and add :: "'r \<Rightarrow> 's \<Rightarrow> int \<times> 's"
    and matches :: "'p \<Rightarrow> 'r \<Rightarrow> bool"
    and action :: "'r \<Rightarrow> int"
    and deny :: int
    and verdict :: "'p \<Rightarrow> 's \<Rightarrow> int"
  assumes add_inv: "inv s \<Longrightarrow> inv (snd (add r s))"
    and add_active: "inv s \<Longrightarrow> active (snd (add r s)) =
      (if fst (add r s) = 0 then active s @ [r] else active s)"
    and add_filtering: "filtering (snd (add r s)) = filtering s"
    and verdict_first: "inv s \<Longrightarrow> filtering s \<Longrightarrow>
      verdict p s = (case find (matches p) (active s) of None \<Rightarrow> deny | Some r \<Rightarrow> action r)"
begin

lemma verdict_stable:
  assumes "inv s" "filtering s" "\<exists>r' \<in> set (active s). matches p r'"
  shows "verdict p (snd (add r s)) = verdict p s"
proof -
  from assms(3) obtain r' where "find (matches p) (active s) = Some r'"
    by (cases "find (matches p) (active s)") (auto simp: find_None_iff)
  with assms(1,2) show ?thesis
    by (simp add: verdict_first add_inv add_filtering add_active find_append)
qed

lemma verdict_new:
  assumes "inv s" "filtering s" "\<forall>r' \<in> set (active s). \<not> matches p r'" "fst (add r s) = 0"
  shows "verdict p (snd (add r s)) = (if matches p r then action r else deny)"
proof -
  from assms(3) have "find (matches p) (active s) = None"
    by (simp add: find_None_iff)
  with assms(1,2,4) show ?thesis
    by (simp add: verdict_first add_inv add_filtering add_active find_append)
qed

lemma verdict_default:
  "inv s \<Longrightarrow> filtering s \<Longrightarrow> \<forall>r \<in> set (active s). \<not> matches p r \<Longrightarrow> verdict p s = deny"
  by (simp add: verdict_first find_None_iff [THEN iffD2])

end

text \<open>A packet, as the five values the filter is given.\<close>

record flow =
  fl_src_ip :: u32
  fl_dst_ip :: u32
  fl_src_port :: u16
  fl_dst_port :: u16
  fl_protocol :: u8

definition flow_matches :: "flow \<Rightarrow> firewall_rule \<Rightarrow> bool" where
  "flow_matches f =
     rule_matches (fl_src_ip f) (fl_dst_ip f) (fl_src_port f) (fl_dst_port f) (fl_protocol f)"

definition flow_verdict :: "flow \<Rightarrow> 'a firewall_state_scheme \<Rightarrow> int" where
  "flow_verdict f s =
     firewall_check_packet (fl_src_ip f) (fl_dst_ip f) (fl_src_port f) (fl_dst_port f)
       (fl_protocol f) s"

lemma check_first_match:
  assumes "firewall_inv s" "firewall_enabled s"
  shows "flow_verdict f s =
    (case find (flow_matches f) (active_rules s) of None \<Rightarrow> RULE_DENY | Some r \<Rightarrow> uint (fr_action r))"
  using assms check_from_find [of "rule_count s" "rules s" 0]
  by (simp add: flow_verdict_def flow_matches_def firewall_check_packet_def firewall_inv_def
      active_rules_def)

interpretation fw: packet_filter firewall_inv active_rules firewall_enabled firewall_add_rule
  flow_matches "\<lambda>r. uint (fr_action r)" RULE_DENY flow_verdict
proof unfold_locales
  fix s :: "'a firewall_state_scheme" and r
  assume inv: "firewall_inv s"
  show "firewall_inv (snd (firewall_add_rule r s))"
    using inv by (rule firewall_add_rule_inv)
  show "active_rules (snd (firewall_add_rule r s)) =
      (if fst (firewall_add_rule r s) = 0 then active_rules s @ [r] else active_rules s)"
    using inv active_rules_add [of s r] by (simp add: firewall_add_rule_def not_le)
qed (simp_all add: check_first_match firewall_add_rule_def)

section \<open>Properties\<close>

text \<open>
  What a rule set means, written without the code: a rule covers a flow when each of its fields
  is zero or the value of the flow, and the oldest rule that covers the flow decides.
\<close>

definition covers :: "firewall_rule \<Rightarrow> flow \<Rightarrow> bool" where
  "covers r f \<longleftrightarrow> fr_src_ip r \<in> {0, fl_src_ip f} \<and> fr_dst_ip r \<in> {0, fl_dst_ip f} \<and>
     fr_src_port r \<in> {0, fl_src_port f} \<and> fr_dst_port r \<in> {0, fl_dst_port f} \<and>
     fr_protocol r \<in> {0, fl_protocol f}"

primrec policy :: "firewall_rule list \<Rightarrow> flow \<Rightarrow> int" where
  "policy [] f = 0"
| "policy (r # rs) f = (if covers r f then uint (fr_action r) else policy rs f)"

lemma flow_matches_covers: "flow_matches f r \<longleftrightarrow> covers r f"
  by (auto simp: flow_matches_def rule_matches_def covers_def)

lemma policy_find: "policy rs f = (case find (flow_matches f) rs of None \<Rightarrow> RULE_DENY | Some r \<Rightarrow> uint (fr_action r))"
  by (induction rs) (simp_all add: flow_matches_covers RULE_DENY_def)

lemma flow_verdict_policy:
  "firewall_inv s \<Longrightarrow> flow_verdict f s = (if firewall_enabled s then policy (active_rules s) f else 1)"
  by (simp add: check_first_match policy_find)
    (simp add: flow_verdict_def firewall_check_packet_def RULE_ALLOW_def)

text \<open>The calls that change the filter, in any order, after its initialisation.\<close>

datatype fw_call = Add_rule firewall_rule | Switch_on | Switch_off

primrec fw_step :: "fw_call \<Rightarrow> 'a firewall_state_scheme \<Rightarrow> 'a firewall_state_scheme" where
  "fw_step (Add_rule r) s = snd (firewall_add_rule r s)"
| "fw_step Switch_on s = firewall_enable s"
| "fw_step Switch_off s = firewall_disable s"

fun added :: "fw_call list \<Rightarrow> firewall_rule list" where
  "added [] = []"
| "added (Add_rule r # cs) = r # added cs"
| "added (c # cs) = added cs"

definition switched_on :: "fw_call list \<Rightarrow> bool" where
  "switched_on cs = fold (\<lambda>c on. case c of Add_rule r \<Rightarrow> on | Switch_on \<Rightarrow> True | Switch_off \<Rightarrow> False) cs True"

lemma added_append: "added (xs @ ys) = added xs @ added ys"
  by (induction xs rule: added.induct) simp_all

lemma fw_calls:
  assumes "length (rules s) = MAX_RULES"
  shows "firewall_inv (fold fw_step cs (firewall_init s)) \<and>
    active_rules (fold fw_step cs (firewall_init s)) = take MAX_RULES (added cs) \<and>
    firewall_enabled (fold fw_step cs (firewall_init s)) = switched_on cs"
proof (induction cs rule: rev_induct)
  case Nil
  then show ?case using firewall_init_inv [OF assms] by (simp add: switched_on_def firewall_init_def)
next
  case (snoc c cs)
  let ?t = "fold fw_step cs (firewall_init s)"
  have n: "rule_count ?t = min MAX_RULES (length (added cs))"
    using snoc by (metis active_rules_def firewall_inv_def length_take min.absorb2 min.commute)
  show ?case
  proof (cases c)
    case (Add_rule r)
    then show ?thesis
      using snoc n fw.add_inv [of ?t r] active_rules_add [of ?t r] fw.add_filtering [of r ?t]
      by (cases "length (added cs) < MAX_RULES")
        (auto simp: added_append switched_on_def firewall_add_rule_def)
  next
    case Switch_on
    then show ?thesis using snoc firewall_switch_inv(1) [of ?t]
      by (simp add: added_append switched_on_def firewall_enable_def active_rules_def)
  next
    case Switch_off
    then show ?thesis using snoc firewall_switch_inv(2) [of ?t]
      by (simp add: added_append switched_on_def firewall_disable_def active_rules_def)
  qed
qed

text \<open>
  C30: after \<^verbatim>\<open>firewall_init\<close> and any sequence of added rules and switchings, the verdict for a
  packet is that of the oldest of the first 256 rules added whose five fields are each zero or
  the value of the packet; no such rule means denied, and after \<^verbatim>\<open>firewall_disable\<close> without a
  later \<^verbatim>\<open>firewall_enable\<close> everything is allowed. A rule is taken exactly while fewer than 256 are.
\<close>

theorem firewall_first_match:
  assumes "length (rules s) = MAX_RULES"
  shows "firewall_check_packet (fl_src_ip f) (fl_dst_ip f) (fl_src_port f) (fl_dst_port f) (fl_protocol f)
      (fold fw_step cs (firewall_init s)) = (if switched_on cs then policy (take 256 (added cs)) f else 1) \<and>
    fst (firewall_add_rule r (fold fw_step cs (firewall_init s))) = (if length (added cs) < 256 then 0 else - 1)"
proof -
  let ?t = "fold fw_step cs (firewall_init s)"
  note t = fw_calls [OF assms, of cs]
  have "rule_count ?t = min MAX_RULES (length (added cs))"
    using t by (metis active_rules_def firewall_inv_def length_take min.absorb2 min.commute)
  then have "fst (firewall_add_rule r ?t) = (if length (added cs) < 256 then 0 else - 1)"
    by (simp add: firewall_add_rule_def MAX_RULES_def)
  with t flow_verdict_policy [of ?t f] show ?thesis by (simp add: flow_verdict_def MAX_RULES_def)
qed

definition deny_ssh :: firewall_rule where
  "deny_ssh = \<lparr>fr_src_ip = 0, fr_dst_ip = 0, fr_src_port = 0, fr_dst_port = 22,
     fr_protocol = 6, fr_action = 0\<rparr>"

definition allow_tcp :: firewall_rule where
  "allow_tcp = \<lparr>fr_src_ip = 0, fr_dst_ip = 0, fr_src_port = 0, fr_dst_port = 0,
     fr_protocol = 6, fr_action = 1\<rparr>"

text \<open>A table with SSH denied and the rest of TCP allowed, in that order.\<close>

definition fw_example :: firewall_state where
  "fw_example = \<lparr>con_out = [],
     rules = [deny_ssh, allow_tcp] @ replicate 254 deny_ssh,
     rule_count = 2, firewall_enabled = True\<rparr>"

lemma fw_example_facts:
  "firewall_inv fw_example" "active_rules fw_example = [deny_ssh, allow_tcp]"
  "firewall_enabled fw_example" "rule_count fw_example = 2"
  by (simp_all add: fw_example_def firewall_inv_def MAX_RULES_def active_rules_def)

text \<open>SSH denied and TCP allowed, in that order: a rule added before decides.\<close>

theorem firewall_first_match_witness:
  "firewall_check_packet 1 2 3 80 6 (fold fw_step [Add_rule deny_ssh, Switch_off, Add_rule allow_tcp, Switch_on]
      (firewall_init fw_example)) = 1 \<and>
   firewall_check_packet 1 2 3 22 6 (fold fw_step [Add_rule deny_ssh, Add_rule allow_tcp] (firewall_init fw_example)) = 0 \<and>
   firewall_check_packet 1 2 3 22 6 (fold fw_step [Add_rule deny_ssh, Switch_off] (firewall_init fw_example)) = 1"
proof -
  have n: "length (rules fw_example) = MAX_RULES" by (simp add: fw_example_def MAX_RULES_def)
  let ?f = "\<lambda>p. \<lparr>fl_src_ip = 1, fl_dst_ip = 2, fl_src_port = 3, fl_dst_port = p, fl_protocol = 6\<rparr>"
  show ?thesis
    using firewall_first_match [OF n, of "?f 80" "[Add_rule deny_ssh, Switch_off, Add_rule allow_tcp, Switch_on]"]
      firewall_first_match [OF n, of "?f 22" "[Add_rule deny_ssh, Add_rule allow_tcp]"]
      firewall_first_match [OF n, of "?f 22" "[Add_rule deny_ssh, Switch_off]"]
    by (simp add: switched_on_def covers_def deny_ssh_def allow_tcp_def)
qed

text \<open>
  Rules are first come, first served. While filtering is on, adding a rule never changes
  the verdict of a packet that an earlier rule already matches, and if the addition succeeds
  the new rule decides exactly the packets that matched no rule before.
\<close>

theorem firewall_add_rule_order:
  assumes "firewall_inv s" "firewall_enabled s"
  shows "((\<exists>r' \<in> set (active_rules s). flow_matches f r') \<longrightarrow>
      flow_verdict f (snd (firewall_add_rule r s)) = flow_verdict f s) \<and>
    ((\<forall>r' \<in> set (active_rules s). \<not> flow_matches f r') \<and> fst (firewall_add_rule r s) = 0 \<longrightarrow>
      flow_verdict f (snd (firewall_add_rule r s)) =
        (if flow_matches f r then uint (fr_action r) else RULE_DENY))"
  using fw.verdict_stable [OF assms] fw.verdict_new [OF assms] by blast

definition udp_flow :: flow where
  "udp_flow = \<lparr>fl_src_ip = 1, fl_dst_ip = 2, fl_src_port = 3, fl_dst_port = 53, fl_protocol = 17\<rparr>"

definition allow_dns :: firewall_rule where
  "allow_dns = \<lparr>fr_src_ip = 0, fr_dst_ip = 0, fr_src_port = 0, fr_dst_port = 53,
     fr_protocol = 17, fr_action = 1\<rparr>"

theorem firewall_add_rule_order_witness:
  "firewall_inv fw_example \<and> firewall_enabled fw_example
    \<and> flow_verdict udp_flow (snd (firewall_add_rule allow_dns fw_example)) = RULE_ALLOW"
proof -
  have fresh: "\<forall>r' \<in> set (active_rules fw_example). \<not> flow_matches udp_flow r'"
    by (simp add: fw_example_facts flow_matches_def rule_matches_def udp_flow_def deny_ssh_def
        allow_tcp_def)
  have "fst (firewall_add_rule allow_dns fw_example) = 0"
    by (simp add: firewall_add_rule_def fw_example_facts MAX_RULES_def)
  with fresh show ?thesis
    using firewall_add_rule_order [OF fw_example_facts(1,3), of udp_flow allow_dns]
    by (simp add: fw_example_facts flow_matches_def rule_matches_def udp_flow_def allow_dns_def
        RULE_ALLOW_def)
qed

end
