(* ===== verification/Pci.thy ===== *)
theory Pci
  imports Firewall
begin

text \<open>
  Port input and output (\<^verbatim>\<open>include/kernel/io.h\<close>) and the two searches of the PCI configuration
  space, \<^verbatim>\<open>src/kernel/pci.c\<close> and \<^verbatim>\<open>src/kernel/pcie.c\<close>. The hardware behind the ports is a
  parameter: a \<open>bus\<close> answers a read from what has gone over the ports before it.
\<close>

section \<open>Ports\<close>

datatype io_access = Out8 u16 u8 | Out16 u16 u16 | Out32 u16 u32 | In8 u16 | In32 u16

record bus =
  bus8 :: "io_access list \<Rightarrow> u16 \<Rightarrow> u8"
  bus32 :: "io_access list \<Rightarrow> u16 \<Rightarrow> u32"

text \<open>\<^verbatim>\<open>struct pci_device\<close> and \<^verbatim>\<open>struct pcie_device\<close>.\<close>

record pci_device =
  pd_vendor_id :: u16
  pd_device_id :: u16
  pd_command :: u16
  pd_status :: u16
  pd_revision_id :: u8
  pd_prog_if :: u8
  pd_subclass :: u8
  pd_class_code :: u8
  pd_cache_line_size :: u8
  pd_latency_timer :: u8
  pd_header_type :: u8
  pd_bist :: u8

record pcie_device =
  pe_vendor_id :: u16
  pe_device_id :: u16
  pe_class_code :: u8
  pe_subclass :: u8
  pe_prog_if :: u8
  pe_revision :: u8
  pe_bar :: "u32 list"

text \<open>The machine of the network code: the packet filter, the ports, and the two static results.\<close>

record kports = firewall_state +
  io_log :: "io_access list"
  pci_dev :: pci_device
  pcie_dev :: pcie_device

definition io_access :: "io_access \<Rightarrow> 'a kports_scheme \<Rightarrow> 'a kports_scheme" where
  "io_access a s = s\<lparr>io_log := io_log s @ [a]\<rparr>"

definition port_outb :: "u16 \<Rightarrow> u8 \<Rightarrow> 'a kports_scheme \<Rightarrow> 'a kports_scheme" where
  "port_outb port value = io_access (Out8 port value)"

definition port_outw :: "u16 \<Rightarrow> u16 \<Rightarrow> 'a kports_scheme \<Rightarrow> 'a kports_scheme" where
  "port_outw port value = io_access (Out16 port value)"

definition port_outl :: "u16 \<Rightarrow> u32 \<Rightarrow> 'a kports_scheme \<Rightarrow> 'a kports_scheme" where
  "port_outl port value = io_access (Out32 port value)"

definition port_inb :: "bus \<Rightarrow> u16 \<Rightarrow> 'a kports_scheme \<Rightarrow> u8 \<times> 'a kports_scheme" where
  "port_inb b port s = (bus8 b (io_log s) port, io_access (In8 port) s)"

definition port_inl :: "bus \<Rightarrow> u16 \<Rightarrow> 'a kports_scheme \<Rightarrow> u32 \<times> 'a kports_scheme" where
  "port_inl b port s = (bus32 b (io_log s) port, io_access (In32 port) s)"

lemma io_access_fields [simp]:
  "io_log (io_access a s) = io_log s @ [a]" "pci_dev (io_access a s) = pci_dev s"
  "pcie_dev (io_access a s) = pcie_dev s" "con_out (io_access a s) = con_out s"
  "rules (io_access a s) = rules s" "rule_count (io_access a s) = rule_count s"
  "firewall_enabled (io_access a s) = firewall_enabled s" "kports.more (io_access a s) = kports.more s"
  by (simp_all add: io_access_def)

lemma emit_ports [simp]:
  "io_log (emit c s) = io_log s" "pci_dev (emit c s) = pci_dev s" "pcie_dev (emit c s) = pcie_dev s"
  "kports.more (emit c s) = kports.more s"
  by (simp_all add: emit_def)

section \<open>The search of pci.c\<close>

abbreviation PCI_CONFIG_ADDRESS :: u16 where "PCI_CONFIG_ADDRESS \<equiv> 0xCF8"
abbreviation PCI_CONFIG_DATA :: u16 where "PCI_CONFIG_DATA \<equiv> 0xCFC"

definition pci_address :: "u8 \<Rightarrow> u8 \<Rightarrow> u8 \<Rightarrow> u8 \<Rightarrow> u32" where
  "pci_address bus device func offset =
     push_bit 16 (ucast bus) OR push_bit 11 (ucast device) OR push_bit 8 (ucast func) OR
     (ucast offset AND 0xfc) OR 0x80000000"

text \<open>The ports are accessed by bytes: of the address and of the answer only the low byte passes.\<close>

definition pci_read :: "bus \<Rightarrow> u8 \<Rightarrow> u8 \<Rightarrow> u8 \<Rightarrow> u8 \<Rightarrow> 'a kports_scheme \<Rightarrow> u32 \<times> 'a kports_scheme" where
  "pci_read b bus device func offset s =
     (let address = pci_address bus device func offset;
          (v, s1) = port_inb b PCI_CONFIG_DATA (port_outb PCI_CONFIG_ADDRESS (ucast address) s)
      in (ucast v, s1))"

definition pci_write :: "u8 \<Rightarrow> u8 \<Rightarrow> u8 \<Rightarrow> u8 \<Rightarrow> u32 \<Rightarrow> 'a kports_scheme \<Rightarrow> 'a kports_scheme" where
  "pci_write bus device func offset value s =
     (let address = pci_address bus device func offset
      in port_outb PCI_CONFIG_DATA (ucast value) (port_outb PCI_CONFIG_ADDRESS (ucast address) s))"

text \<open>The buses and their device numbers, in the order of the two loops.\<close>

definition bus_slots :: "(u8 \<times> u8) list" where
  "bus_slots = List.product (map of_nat [0..<256]) (map of_nat [0..<32])"

fun pci_scan :: "bus \<Rightarrow> (u8 \<times> u8) list \<Rightarrow> 'a kports_scheme \<Rightarrow> bool \<times> 'a kports_scheme" where
  "pci_scan b [] s = (False, s)"
| "pci_scan b ((bus, device) # rest) s =
     (let (id, s1) = pci_read b bus device 0 0 s
      in if id AND 0xFFFF \<noteq> 0xFFFF
         then let (class, s2) = pci_read b bus device 0 0x0B s1;
                  (subclass, s3) = pci_read b bus device 0 0x0A s2
              in if (ucast class :: u8) = 0x02 \<and> (ucast subclass :: u8) = 0x00
                 then (True, s3\<lparr>pci_dev := (pci_dev s3)\<lparr>pd_vendor_id := ucast (id AND 0xFFFF),
                        pd_device_id := ucast (drop_bit 16 id AND 0xFFFF)\<rparr>\<rparr>)
                 else pci_scan b rest s3
         else pci_scan b rest s1)"

text \<open>The result tells whether the returned pointer is the static device or null.\<close>

definition pci_find_network_card :: "bus \<Rightarrow> 'a kports_scheme \<Rightarrow> bool \<times> 'a kports_scheme" where
  "pci_find_network_card b s = pci_scan b bus_slots s"

section \<open>The search of pcie.c\<close>

abbreviation PCIE_CONFIG_ADDRESS :: u32 where "PCIE_CONFIG_ADDRESS \<equiv> 0xE0000000"
abbreviation PCIE_CLASS_NETWORK :: u8 where "PCIE_CLASS_NETWORK \<equiv> 0x02"
abbreviation PCIE_SUBCLASS_WIFI :: u8 where "PCIE_SUBCLASS_WIFI \<equiv> 0x80"

definition pcie_address :: "u8 \<Rightarrow> u8 \<Rightarrow> u8 \<Rightarrow> u8 \<Rightarrow> u32" where
  "pcie_address bus device function offset =
     PCIE_CONFIG_ADDRESS OR push_bit 20 (ucast bus) OR push_bit 15 (ucast device) OR
     push_bit 12 (ucast function) OR ucast offset"

definition pcie_read_config :: "bus \<Rightarrow> u8 \<Rightarrow> u8 \<Rightarrow> u8 \<Rightarrow> u8 \<Rightarrow> 'a kports_scheme \<Rightarrow> u32 \<times> 'a kports_scheme" where
  "pcie_read_config b bus device function offset s =
     port_inl b PCI_CONFIG_DATA (port_outl PCI_CONFIG_ADDRESS (pcie_address bus device function offset) s)"

definition wireless_card :: con_call where
  "wireless_card = Printf ''Wireless Kart (ID: 0x%04X)''"

definition intel_card :: "u16 \<Rightarrow> con_call" where
  "intel_card device_id =
     (if device_id = 0x0042 then Puts ''Centrino Ultimate-N 6300''
      else if device_id = 0x0085 then Puts ''Centrino Advanced-N 6205''
      else if device_id = 0x0082 then Puts ''Centrino Advanced-N 6205''
      else if device_id = 0x0091 then Puts ''Wireless-AC 7260''
      else if device_id = 0x2526 then Puts ''Wireless-AC 9260''
      else if device_id = 0x2723 then Puts ''Wireless-AC 9560''
      else if device_id = 0x3165 then Puts ''Wireless-AC 3165''
      else if device_id = 0x08b1 then Puts ''Wireless-AC 7265''
      else if device_id = 0x095a then Puts ''Wireless-AC 9560''
      else wireless_card)"

definition atheros_card :: "u16 \<Rightarrow> con_call" where
  "atheros_card device_id =
     (if device_id = 0x0030 then Puts ''AR93xx''
      else if device_id = 0x0032 then Puts ''AR9485''
      else if device_id = 0x0033 then Puts ''AR9580''
      else if device_id = 0x0042 then Puts ''QCA9377''
      else if device_id = 0x003e then Puts ''QCA6174''
      else wireless_card)"

definition broadcom_card :: "u16 \<Rightarrow> con_call" where
  "broadcom_card device_id =
     (if device_id = 0x4315 then Puts ''BCM4312''
      else if device_id = 0x4357 then Puts ''BCM43225''
      else if device_id = 0x4727 then Puts ''BCM4313''
      else if device_id = 0x4353 then Puts ''BCM43224''
      else if device_id = 0x432b then Puts ''BCM4322''
      else if device_id = 0x43a0 then Puts ''BCM4360''
      else wireless_card)"

definition ralink_card :: "u16 \<Rightarrow> con_call" where
  "ralink_card device_id =
     (if device_id = 0x0601 then Puts ''RT2800''
      else if device_id = 0x0781 then Puts ''RT2700/RT2800''
      else if device_id = 0x3090 then Puts ''RT3090''
      else if device_id = 0x3062 then Puts ''RT3062''
      else if device_id = 0x539b then Puts ''RT5390''
      else wireless_card)"

definition wifi_card_lines :: "u16 \<Rightarrow> u16 \<Rightarrow> con_call list" where
  "wifi_card_lines vendor_id device_id =
     [Puts ''WiFi karti bulundu: ''] @
     (if vendor_id = 0x8086 then [Puts ''Intel '', intel_card device_id]
      else if vendor_id = 0x168c then [Puts ''Qualcomm Atheros '', atheros_card device_id]
      else if vendor_id = 0x14e4 then [Puts ''Broadcom '', broadcom_card device_id]
      else if vendor_id = 0x1814 then [Puts ''Ralink/MediaTek '', ralink_card device_id]
      else [Printf ''Bilinmeyen Uretici (ID: 0x%04X), Cihaz ID: 0x%04X'']) @
     [Puts newline]"

fun pcie_scan :: "bus \<Rightarrow> (u8 \<times> u8) list \<Rightarrow> 'a kports_scheme \<Rightarrow> bool \<times> 'a kports_scheme" where
  "pcie_scan b [] s = (False, s)"
| "pcie_scan b ((bus, device) # rest) s =
     (let (id, s1) = pcie_read_config b bus device 0 0 s
      in if id AND 0xFFFF \<noteq> 0xFFFF
         then let (class, s2) = pcie_read_config b bus device 0 0x0B s1;
                  class_code = ucast (class AND 0xFF);
                  (sub, s3) = pcie_read_config b bus device 0 0x0A s2;
                  subclass = ucast (sub AND 0xFF)
              in if class_code = PCIE_CLASS_NETWORK \<and> subclass = PCIE_SUBCLASS_WIFI
                 then let dev = (pcie_dev s3)\<lparr>pe_vendor_id := ucast (id AND 0xFFFF),
                        pe_device_id := ucast (drop_bit 16 id AND 0xFFFF),
                        pe_class_code := class_code, pe_subclass := subclass\<rparr>
                      in (True, fold emit (wifi_card_lines (pe_vendor_id dev) (pe_device_id dev))
                            (s3\<lparr>pcie_dev := dev\<rparr>))
                 else pcie_scan b rest s3
         else pcie_scan b rest s1)"

definition pcie_find_wifi_card :: "bus \<Rightarrow> 'a kports_scheme \<Rightarrow> bool \<times> 'a kports_scheme" where
  "pcie_find_wifi_card b s = pcie_scan b bus_slots s"

section \<open>What the searches find\<close>

text \<open>
  The configuration mechanism of the host bridge: the data port shows the register that the
  last value written to the address port selects, as a function of that value. The address
  as a byte-wide and as a 32-bit port:
\<close>

definition address_byte :: "io_access list \<Rightarrow> u8" where
  "address_byte h =
     foldl (\<lambda>a x. case x of Out8 p v \<Rightarrow> if p = PCI_CONFIG_ADDRESS then v else a | _ \<Rightarrow> a) 0 h"

definition address_reg :: "io_access list \<Rightarrow> u32" where
  "address_reg h =
     foldl (\<lambda>a x. case x of Out32 p v \<Rightarrow> if p = PCI_CONFIG_ADDRESS then v else a | _ \<Rightarrow> a) 0 h"

lemma address_last [simp]:
  "address_byte (h @ [Out8 PCI_CONFIG_ADDRESS v]) = v" "address_reg (h @ [Out32 PCI_CONFIG_ADDRESS w]) = w"
  by (simp_all add: address_byte_def address_reg_def)

lemma pci_read_eq:
  "pci_read b n d f r s =
     (ucast (bus8 b (io_log s @ [Out8 PCI_CONFIG_ADDRESS (ucast (pci_address n d f r))]) PCI_CONFIG_DATA),
      s\<lparr>io_log := io_log s @ [Out8 PCI_CONFIG_ADDRESS (ucast (pci_address n d f r)), In8 PCI_CONFIG_DATA]\<rparr>)"
  by (simp add: pci_read_def Let_def port_inb_def port_outb_def io_access_def)

text \<open>
  Both identification words come from one byte, so the device identification is zero.
\<close>

lemma and_FFFF: "(x :: u32) AND 0xFFFF = take_bit 16 x" "(x :: u32) AND 0xFF = take_bit 8 x"
  by (simp_all add: take_bit_eq_mask mask_eq_exp_minus_1)

lemma low_id: "ucast ((ucast (v :: u8) :: u32) AND 0xFFFF) = (ucast v :: u16)"
  unfolding and_FFFF by (rule bit_word_eqI) (auto simp: bit_simps dest: bit_imp_le_length)

lemma high_id: "(ucast (drop_bit 16 (ucast (v :: u8) :: u32) AND 0xFFFF) :: u16) = 0"
  by (rule bit_word_eqI) (auto simp: bit_simps dest: bit_imp_le_length)

lemma pci_scan_result:
  "\<exists>log. pci_scan b xs s = (False, s\<lparr>io_log := log\<rparr>) \<or>
    (\<exists>v :: u8. pci_scan b xs s = (True, s\<lparr>io_log := log,
       pci_dev := (pci_dev s)\<lparr>pd_vendor_id := ucast v, pd_device_id := 0\<rparr>\<rparr>))"
proof (induction xs arbitrary: s)
  case Nil
  show ?case by (rule exI [of _ "io_log s"]) simp
next
  case (Cons x xs)
  obtain n d where x: "x = (n, d)" by (cases x)
  have IH: "\<exists>l. pci_scan b xs (s\<lparr>io_log := log\<rparr>) = (False, s\<lparr>io_log := l\<rparr>) \<or>
    (\<exists>v :: u8. pci_scan b xs (s\<lparr>io_log := log\<rparr>) = (True, s\<lparr>io_log := l,
       pci_dev := (pci_dev s)\<lparr>pd_vendor_id := ucast v, pd_device_id := 0\<rparr>\<rparr>))" for log
    using Cons [of "s\<lparr>io_log := log\<rparr>"] by simp
  show ?case
    unfolding x pci_scan.simps pci_read_eq Let_def prod.case low_id high_id using IH by auto
qed

text \<open>
  On such a bridge the class and the subclass are read from the same register, so no device
  is ever taken for a network card.
\<close>

lemma pci_address_low:
  "(ucast (pci_address n d f r) :: u8) = r AND 0xfc"
proof -
  have "\<not> bit (0x80000000 :: u32) k" if "k < 8" for k
    using that bit_push_bit_iff [of 31 "1 :: u32" k] by simp
  moreover have "bit (0xfc :: u32) k = bit (0xfc :: u8) k" if "k < 8" for k
    using that bit_ucast_iff [of "0xfc :: u8" k, where ?'a = 32] by simp
  ultimately show ?thesis
    by (intro bit_word_eqI) (auto simp: pci_address_def bit_simps)
qed

lemma pci_scan_nothing:
  assumes "\<And>h. bus8 b h PCI_CONFIG_DATA = answer (address_byte h)"
  shows "fst (pci_scan b xs s) = False"
proof (induction xs arbitrary: s)
  case (Cons x xs)
  then show ?case by (cases x) (auto simp: pci_read_eq assms pci_address_low address_byte_def)
qed simp

text \<open>
  The search of \<^verbatim>\<open>pcie.c\<close> reads whole registers at full addresses. With a bridge that answers by
  address, it takes the first slot, in the order of the loops, that shows the class of a
  wireless controller.
\<close>

definition slot_reg :: "(u32 \<Rightarrow> u32) \<Rightarrow> u8 \<times> u8 \<Rightarrow> u8 \<Rightarrow> u32" where
  "slot_reg cfg slot r = cfg (pcie_address (fst slot) (snd slot) 0 r)"

definition wifi_slot :: "(u32 \<Rightarrow> u32) \<Rightarrow> u8 \<times> u8 \<Rightarrow> bool" where
  "wifi_slot cfg slot \<longleftrightarrow> (ucast (slot_reg cfg slot 0) :: u16) \<noteq> 0xFFFF \<and>
     (ucast (slot_reg cfg slot 0x0B) :: u8) = PCIE_CLASS_NETWORK \<and>
     (ucast (slot_reg cfg slot 0x0A) :: u8) = PCIE_SUBCLASS_WIFI"

definition slot_ids :: "(u32 \<Rightarrow> u32) \<Rightarrow> u8 \<times> u8 \<Rightarrow> u16 \<times> u16" where
  "slot_ids cfg slot = (ucast (slot_reg cfg slot 0), ucast (drop_bit 16 (slot_reg cfg slot 0)))"

lemma low_half:
  "((x :: u32) AND 0xFFFF = 0xFFFF) = ((ucast x :: u16) = 0xFFFF)"
  "(ucast (x AND 0xFFFF) :: u16) = ucast x"
  "(ucast (drop_bit 16 x AND 0xFFFF) :: u16) = ucast (drop_bit 16 x)"
  "(ucast (x AND 0xFF) :: u8) = ucast x"
proof -
  have "(take_bit 16 x = 0xFFFF) = ((ucast x :: u16) = 0xFFFF)"
    by (simp add: word_unat_eq_iff unsigned_ucast_eq unsigned_take_bit_eq)
  then show "(x AND 0xFFFF = 0xFFFF) = ((ucast x :: u16) = 0xFFFF)" by (simp add: and_FFFF)
qed (simp_all add: and_FFFF, (rule bit_word_eqI; auto simp: bit_simps dest: bit_imp_le_length)+)

lemma pcie_read_eq:
  "pcie_read_config b n d f r s =
     (bus32 b (io_log s @ [Out32 PCI_CONFIG_ADDRESS (pcie_address n d f r)]) PCI_CONFIG_DATA,
      s\<lparr>io_log := io_log s @ [Out32 PCI_CONFIG_ADDRESS (pcie_address n d f r), In32 PCI_CONFIG_DATA]\<rparr>)"
  by (simp add: pcie_read_config_def port_inl_def port_outl_def io_access_def)

lemma pcie_scan_finds:
  assumes "\<And>h. bus32 b h PCI_CONFIG_DATA = cfg (address_reg h)"
  shows "\<exists>log. pcie_scan b xs s = (case find (wifi_slot cfg) xs of
      None \<Rightarrow> (False, s\<lparr>io_log := log\<rparr>)
    | Some slot \<Rightarrow> (True, s\<lparr>io_log := log,
        pcie_dev := (pcie_dev s)\<lparr>pe_vendor_id := fst (slot_ids cfg slot),
          pe_device_id := snd (slot_ids cfg slot), pe_class_code := PCIE_CLASS_NETWORK,
          pe_subclass := PCIE_SUBCLASS_WIFI\<rparr>,
        con_out := con_out s @ wifi_card_lines (fst (slot_ids cfg slot)) (snd (slot_ids cfg slot))\<rparr>))"
proof (induction xs arbitrary: s)
  case Nil
  show ?case by (rule exI [of _ "io_log s"]) simp
next
  case (Cons x xs)
  obtain n d where x: "x = (n, d)" by (cases x)
  have reg: "bus32 b (h @ [Out32 PCI_CONFIG_ADDRESS (pcie_address n d 0 r)]) PCI_CONFIG_DATA = slot_reg cfg x r" for h r
    by (simp add: assms slot_reg_def x)
  note step = pcie_scan.simps(2) [of b n d xs s, folded x, unfolded pcie_read_eq reg Let_def prod.case low_half]
  show ?case
  proof (cases "wifi_slot cfg x")
    case True
    then show ?thesis unfolding step
      by (simp add: wifi_slot_def slot_ids_def fold_emit low_half) (rule exI, rule refl)
  next
    case False
    then have "\<exists>log. pcie_scan b (x # xs) s = pcie_scan b xs (s\<lparr>io_log := log\<rparr>)"
      unfolding step by (auto simp: wifi_slot_def reg low_half)
    then obtain log where "pcie_scan b (x # xs) s = pcie_scan b xs (s\<lparr>io_log := log\<rparr>)" by blast
    with Cons [of "s\<lparr>io_log := log\<rparr>"] False show ?thesis by (cases "find (wifi_slot cfg) xs") auto
  qed
qed

text \<open>
  A bridge that ignores the two low address bits, which the mechanism reserves, shows the same
  register for both reads: no wireless card is found.
\<close>

lemma pcie_address_low: "pcie_address n d f 0x0B AND NOT 3 = pcie_address n d f 0x0A AND NOT 3"
proof -
  have "(0x0B :: u32) AND NOT 3 = 0x0A AND NOT 3" by simp
  then show ?thesis by (simp add: pcie_address_def bit.conj_disj_distrib2)
qed

lemma no_wifi_slot:
  assumes "\<And>a. cfg a = cfg (a AND NOT 3)"
  shows "\<not> wifi_slot cfg slot"
  using pcie_address_low [of "fst slot" "snd slot" 0] assms [of "pcie_address (fst slot) (snd slot) 0 0x0B"]
    assms [of "pcie_address (fst slot) (snd slot) 0 0x0A"]
  by (auto simp: wifi_slot_def slot_reg_def)

end
