(* ===== verification/Network.thy ===== *)
theory Network
  imports Pci
begin

text \<open>
  The network stack: the start of the card in \<^verbatim>\<open>src/drivers/network/rtl8139.c\<close> and the two packet
  calls of \<^verbatim>\<open>src/kernel/net/network.c\<close>. The send and receive functions of the card are declared
  in \<^verbatim>\<open>rtl8139.h\<close> and defined nowhere; they are parameters.
\<close>

section \<open>State\<close>

abbreviation RTL8139_VENDOR_ID :: u16 where "RTL8139_VENDOR_ID \<equiv> 0x10EC"
abbreviation RTL8139_DEVICE_ID :: u16 where "RTL8139_DEVICE_ID \<equiv> 0x8139"
abbreviation RTL8139_PORT_MAC :: u16 where "RTL8139_PORT_MAC \<equiv> 0x00"
abbreviation RTL8139_PORT_RBSTART :: u16 where "RTL8139_PORT_RBSTART \<equiv> 0x30"
abbreviation RTL8139_PORT_CMD :: u16 where "RTL8139_PORT_CMD \<equiv> 0x37"

text \<open>
  \<^verbatim>\<open>struct network_device\<close>; the two function pointers are set together, to the parameters of
  the packet calls. The pointer \<^verbatim>\<open>current_device\<close> is null or shows the one device there is. It is one
  flag here for the two variables of that name: the external one that \<^verbatim>\<open>rtl8139.c\<close> sets and the static
  one that \<^verbatim>\<open>network.c\<close> reads, which no code ever assigns. As the files stand, the packet calls
  see a null pointer even after a successful start of the card.
\<close>

record network_device =
  nd_name :: string
  mac_address :: "u8 list"
  nd_ip_address :: u32
  netmask :: u32
  gateway :: u32
  driver_functions :: bool

record knet = kports +
  net_mem :: "u32 \<Rightarrow> u8"
  rtl8139_dev :: network_device
  rx_buffer :: u32
  current_packet_ptr :: u32
  current_device :: bool

section \<open>Start of the card\<close>

partial_function (option) reset_wait :: "bus \<Rightarrow> 'a knet_scheme \<Rightarrow> 'a knet_scheme option" where
  "reset_wait b s =
     (let (v, s1) = port_inb b RTL8139_PORT_CMD s
      in if v AND 0x10 \<noteq> 0 then reset_wait b s1 else Some s1)"

fun read_mac :: "bus \<Rightarrow> nat list \<Rightarrow> 'a knet_scheme \<Rightarrow> 'a knet_scheme" where
  "read_mac b [] s = s"
| "read_mac b (i # is) s =
     (let (v, s1) = port_inb b (RTL8139_PORT_MAC + of_nat i) s
      in read_mac b is (s1\<lparr>rtl8139_dev := (rtl8139_dev s1)\<lparr>
           mac_address := (mac_address (rtl8139_dev s1))[i := v]\<rparr>\<rparr>))"

definition rtl8139_init :: "bus \<Rightarrow> pci_device \<Rightarrow> 'a knet_scheme \<Rightarrow> (int \<times> 'a knet_scheme) option" where
  "rtl8139_init b dev s =
     (if pd_vendor_id dev \<noteq> RTL8139_VENDOR_ID \<or> pd_device_id dev \<noteq> RTL8139_DEVICE_ID then Some (- 1, s)
      else do {
        s1 \<leftarrow> reset_wait b (port_outb RTL8139_PORT_CMD 0x10 s);
        let s2 = (port_outl RTL8139_PORT_RBSTART (rx_buffer s1) s1)\<lparr>current_packet_ptr := 0\<rparr>;
        let s3 = read_mac b [0..<6] s2;
        let s4 = s3\<lparr>rtl8139_dev := (rtl8139_dev s3)\<lparr>driver_functions := True\<rparr>\<rparr>;
        let s5 = port_outw RTL8139_PORT_CMD 0x000C s4;
        Some (0, s5\<lparr>current_device := True\<rparr>)
      })"

definition network_init :: "bus \<Rightarrow> 'a knet_scheme \<Rightarrow> 'a knet_scheme option" where
  "network_init b s =
     (let (found, s1) = pci_find_network_card b (puts (''Network init started'' @ newline) s)
      in do {
        s2 \<leftarrow> (if found then do {
                  (r, s3) \<leftarrow> rtl8139_init b (pci_dev s1) (puts (''Network card found!'' @ newline) s1);
                  Some (if r = 0 then puts (''RTL8139 driver loaded successfully.'' @ newline) s3
                        else puts (''Driver not loaded!'' @ newline) s3)
                }
                else Some (puts (''Network card not found!'' @ newline) s1));
        Some (firewall_init (puts (''Firewall init started...'' @ newline) s2))
      })"

section \<open>Packets\<close>

text \<open>Loads through a cast pointer, lowest byte first.\<close>

definition load16 :: "(u32 \<Rightarrow> u8) \<Rightarrow> u32 \<Rightarrow> u16" where
  "load16 m a = ucast (m a) OR push_bit 8 (ucast (m (a + 1)))"

definition load32 :: "(u32 \<Rightarrow> u8) \<Rightarrow> u32 \<Rightarrow> u32" where
  "load32 m a = ucast (load16 m a) OR push_bit 16 (ucast (load16 m (a + 2)))"

type_synonym 'a driver_call = "u32 \<Rightarrow> u32 \<Rightarrow> 'a knet_scheme \<Rightarrow> int \<times> 'a knet_scheme"

definition network_send_packet :: "'a driver_call \<Rightarrow> u32 \<Rightarrow> u32 \<Rightarrow> 'a knet_scheme \<Rightarrow> int \<times> 'a knet_scheme" where
  "network_send_packet send data len s =
     (if \<not> current_device s then (- 1, s)
      else
        let src_ip = nd_ip_address (rtl8139_dev s);
            dst_ip = load32 (net_mem s) (data + 16);
            src_port = load16 (net_mem s) (data + 20);
            dst_port = load16 (net_mem s) (data + 22);
            protocol = net_mem s (data + 9)
        in if firewall_check_packet src_ip dst_ip src_port dst_port protocol s = RULE_DENY
           then (- 2, puts (''Packet blocked by firewall.'' @ newline) s)
           else send data len s)"

definition network_receive_packet :: "'a driver_call \<Rightarrow> u32 \<Rightarrow> u32 \<Rightarrow> 'a knet_scheme \<Rightarrow> int \<times> 'a knet_scheme" where
  "network_receive_packet receive buf len s =
     (if \<not> current_device s then (- 1, s)
      else if buf = 0 \<or> len < 14 then (- 2, s)
      else
        let eth_type = push_bit 8 (ucast (net_mem s (buf + 12))) OR ucast (net_mem s (buf + 13)) :: u16
        in if eth_type \<noteq> 0x0800 \<and> eth_type \<noteq> 0x0806 then (- 3, s)
           else if eth_type = 0x0800 \<and> 34 \<le> len \<and>
             drop_bit 4 (net_mem s (buf + 14)) AND 0x0F \<noteq> 4 then (- 4, s)
           else receive buf len s)"

section \<open>The network never comes up\<close>

lemma puts_net [simp]:
  "current_device (emit c s) = current_device s" "net_mem (emit c s) = net_mem s"
  "rtl8139_dev (emit c s) = rtl8139_dev s"
  by (simp_all add: emit_def)

lemma rtl8139_init_refuses: "pd_device_id dev = 0 \<Longrightarrow> rtl8139_init b dev s = Some (- 1, s)"
  by (simp add: rtl8139_init_def)

lemma pci_find_card:
  "\<exists>log. pci_find_network_card b (s :: 'a knet_scheme) = (False, s\<lparr>io_log := log\<rparr>) \<or>
    (\<exists>v :: u8. pci_find_network_card b s = (True, s\<lparr>io_log := log,
       pci_dev := (pci_dev s)\<lparr>pd_vendor_id := ucast v, pd_device_id := 0\<rparr>\<rparr>))"
  unfolding pci_find_network_card_def by (rule pci_scan_result)

text \<open>
  C31: the byte-wide configuration access never shows the identification of the card: whatever
  the hardware answers, \<^verbatim>\<open>network_init\<close> returns without a device, with an empty and enabled
  packet filter, and every later send or receive fails with -1 before any packet is looked at.
  On a bridge that shows the register of the last address, not even a card is seen.
\<close>

theorem network_never_comes_up:
  fixes s :: "'a knet_scheme"
  assumes "\<not> current_device s"
  shows "\<exists>t msg. network_init b s = Some t \<and> \<not> current_device t \<and> firewall_enabled t \<and> rule_count t = 0 \<and>
    con_out t = con_out s @ [Puts (''Network init started'' @ newline)] @ msg @
      [Puts (''Firewall init started...'' @ newline), Puts (''Firewall initialized.'' @ newline)] \<and>
    (msg = [Puts (''Network card not found!'' @ newline)] \<or>
     msg = [Puts (''Network card found!'' @ newline), Puts (''Driver not loaded!'' @ newline)]) \<and>
    ((\<exists>answer. \<forall>h. bus8 b h PCI_CONFIG_DATA = answer (address_byte h)) \<longrightarrow> length msg = 1) \<and>
    network_send_packet send data len t = (- 1, t) \<and> network_receive_packet receive buf l t = (- 1, t)"
proof -
  let ?s = "puts (''Network init started'' @ newline) s"
  have none: "(\<exists>answer. \<forall>h. bus8 b h PCI_CONFIG_DATA = answer (address_byte h)) \<Longrightarrow>
      \<not> fst (pci_find_network_card b ?s)"
    unfolding pci_find_network_card_def by (auto simp: pci_scan_nothing)
  from pci_find_card [of b ?s] obtain log where "pci_find_network_card b ?s = (False, ?s\<lparr>io_log := log\<rparr>) \<or>
    (\<exists>v :: u8. pci_find_network_card b ?s = (True, ?s\<lparr>io_log := log,
       pci_dev := (pci_dev ?s)\<lparr>pd_vendor_id := ucast v, pd_device_id := 0\<rparr>\<rparr>))" by blast
  then show ?thesis
  proof
    assume "pci_find_network_card b ?s = (False, ?s\<lparr>io_log := log\<rparr>)"
    with assms show ?thesis
      by (simp add: network_init_def firewall_init_def network_send_packet_def network_receive_packet_def)
  next
    assume "\<exists>v :: u8. pci_find_network_card b ?s = (True, ?s\<lparr>io_log := log,
       pci_dev := (pci_dev ?s)\<lparr>pd_vendor_id := ucast v, pd_device_id := 0\<rparr>\<rparr>)"
    then obtain d where f: "pci_find_network_card b ?s = (True, ?s\<lparr>io_log := log, pci_dev := d\<rparr>)"
      and d: "pd_device_id d = 0" by auto
    have i: "network_init b s = Some (firewall_init (puts (''Firewall init started...'' @ newline)
        (puts (''Driver not loaded!'' @ newline) (puts (''Network card found!'' @ newline)
        (?s\<lparr>io_log := log, pci_dev := d\<rparr>)))))"
      unfolding network_init_def f Let_def prod.case by (simp add: rtl8139_init_refuses d)
    have "\<not> (\<exists>answer. \<forall>h. bus8 b h PCI_CONFIG_DATA = answer (address_byte h))" using none f by auto
    with assms show ?thesis
      unfolding i
      by - (rule exI, rule exI [of _ "[Puts (''Network card found!'' @ newline), Puts (''Driver not loaded!'' @ newline)]"],
        intro conjI, rule refl, simp_all add: firewall_init_def network_send_packet_def network_receive_packet_def)
  qed
qed

definition knet0 :: knet where
  "knet0 = kports.extend (firewall_state.extend (console.extend \<lparr>con_out = []\<rparr>
       \<lparr>rules = replicate 256 \<lparr>fr_src_ip = 0, fr_dst_ip = 0, fr_src_port = 0, fr_dst_port = 0,
          fr_protocol = 0, fr_action = 0\<rparr>, rule_count = 0, firewall_enabled = False\<rparr>)
       \<lparr>io_log = [], pci_dev = \<lparr>pd_vendor_id = 0, pd_device_id = 0, pd_command = 0, pd_status = 0,
          pd_revision_id = 0, pd_prog_if = 0, pd_subclass = 0, pd_class_code = 0, pd_cache_line_size = 0,
          pd_latency_timer = 0, pd_header_type = 0, pd_bist = 0\<rparr>,
        pcie_dev = \<lparr>pe_vendor_id = 0, pe_device_id = 0, pe_class_code = 0, pe_subclass = 0, pe_prog_if = 0,
          pe_revision = 0, pe_bar = replicate 6 0\<rparr>\<rparr>)
     \<lparr>net_mem = \<lambda>_. 0, rtl8139_dev = \<lparr>nd_name = '''', mac_address = replicate 6 0, nd_ip_address = 0,
        netmask = 0, gateway = 0, driver_functions = False\<rparr>, rx_buffer = 0x200000,
      current_packet_ptr = 0, current_device = False\<rparr>"

lemma knet0_simps [simp]:
  "current_device knet0 = False" "con_out knet0 = []" "rule_count knet0 = 0"
  "length (rules knet0) = MAX_RULES" "net_mem knet0 = (\<lambda>_. 0)" "nd_ip_address (rtl8139_dev knet0) = 0"
  by (simp_all add: knet0_def kports.defs firewall_state.defs console.defs MAX_RULES_def)

text \<open>A bridge that shows the low byte of the card's vendor at address 0 and its class elsewhere.\<close>

definition card_bus :: bus where
  "card_bus = \<lparr>bus8 = \<lambda>h _. if address_byte h = 0 then 0xEC else 2, bus32 = \<lambda>_ _. 0x813910EC\<rparr>"

theorem network_never_comes_up_witness:
  "\<exists>t. network_init card_bus knet0 = Some t \<and> rule_count t = 0 \<and>
     con_out t = [Puts (''Network init started'' @ newline), Puts (''Network card not found!'' @ newline),
       Puts (''Firewall init started...'' @ newline), Puts (''Firewall initialized.'' @ newline)] \<and>
     network_send_packet (\<lambda>_ _ s. (0, s)) 0 0 t = (- 1, t)"
proof -
  have "\<exists>answer. \<forall>h. bus8 card_bus h PCI_CONFIG_DATA = answer (address_byte h)"
    by (rule exI [of _ "\<lambda>a. if a = 0 then 0xEC else 2"]) (simp add: card_bus_def)
  then show ?thesis
    using network_never_comes_up [of knet0 card_bus "\<lambda>_ _ s. (0, s)" 0 0 "\<lambda>_ _ s. (0, s)" 0 0] by auto
qed

section \<open>What a packet call checks\<close>

text \<open>The two bytes of a header field in network order, and the exchange of the two bytes.\<close>

definition wire16 :: "(u32 \<Rightarrow> u8) \<Rightarrow> u32 \<Rightarrow> u16" where
  "wire16 m a = push_bit 8 (ucast (m a)) OR ucast (m (a + 1))"

definition swap16 :: "u16 \<Rightarrow> u16" where
  "swap16 w = push_bit 8 w OR drop_bit 8 w"

lemma load16_wire: "load16 m a = swap16 (wire16 m a)"
  by (rule bit_word_eqI) (auto simp: load16_def swap16_def wire16_def bit_simps dest: bit_imp_le_length)

text \<open>The same for a field of four bytes.\<close>

definition wire32 :: "(u32 \<Rightarrow> u8) \<Rightarrow> u32 \<Rightarrow> u32" where
  "wire32 m a = push_bit 16 (ucast (wire16 m a)) OR ucast (wire16 m (a + 2))"

definition swap32 :: "u32 \<Rightarrow> u32" where
  "swap32 w = push_bit 16 (ucast (swap16 (ucast w))) OR ucast (swap16 (ucast (drop_bit 16 w)))"

lemma load32_wire: "load32 m a = swap32 (wire32 m a)"
proof -
  have "ucast (wire32 m a) = wire16 m (a + 2)" "ucast (drop_bit 16 (wire32 m a)) = wire16 m a"
    by (rule bit_word_eqI, auto simp: wire32_def bit_simps dest: bit_imp_le_length)+
  then show ?thesis by (simp add: swap32_def load32_def load16_wire or.commute)
qed

text \<open>
  The flow a packet belongs to for the filter: the address of the device, and the protocol,
  destination and ports of an IPv4 header of twenty bytes at the start of the buffer, each field
  of more than one byte with its bytes in reverse order.
\<close>

definition packet_flow :: "'a knet_scheme \<Rightarrow> u32 \<Rightarrow> flow" where
  "packet_flow s data =
     \<lparr>fl_src_ip = nd_ip_address (rtl8139_dev s),
      fl_dst_ip = swap32 (wire32 (net_mem s) (data + 16)),
      fl_src_port = swap16 (wire16 (net_mem s) (data + 20)),
      fl_dst_port = swap16 (wire16 (net_mem s) (data + 22)),
      fl_protocol = net_mem s (data + 9)\<rparr>"

text \<open>
  C32: \<^verbatim>\<open>network_send_packet\<close> fails with -1 without a device. With one, it hands the packet to
  the driver exactly when the filter is switched off, or when the oldest rule that covers the
  packet (each field of the rule zero or that of the packet) does not deny it; if that rule
  denies, or no rule covers the packet, the packet is blocked with the message and -2. The fields
  are those of the header with their bytes in reverse order: a rule names port 80 as 20480, and
  a rule for port 80 lets through the packets to port 20480.
\<close>

theorem network_send_filters:
  fixes s :: "'a knet_scheme" and data :: u32
  assumes "firewall_inv s"
  shows "network_send_packet send data len s =
    (if \<not> current_device s then (- 1, s)
     else if firewall_enabled s \<and> policy (active_rules s) (packet_flow s data) = 0
     then (- 2, puts (''Packet blocked by firewall.'' @ newline) s)
     else send data len s)"
proof -
  have "network_send_packet send data len s =
    (if \<not> current_device s then (- 1, s)
     else if flow_verdict (packet_flow s data) s = 0
     then (- 2, puts (''Packet blocked by firewall.'' @ newline) s)
     else send data len s)"
    by (simp add: network_send_packet_def flow_verdict_def packet_flow_def load16_wire load32_wire RULE_DENY_def)
  then show ?thesis using flow_verdict_policy [OF assms, of "packet_flow s data"] by simp
qed

text \<open>The allow rule for port 80, and a packet to port 80 and one to port 20480.\<close>

definition http_rule :: "u16 \<Rightarrow> firewall_rule" where
  "http_rule p = \<lparr>fr_src_ip = 0, fr_dst_ip = 0, fr_src_port = 0, fr_dst_port = p, fr_protocol = 6, fr_action = 1\<rparr>"

definition knet1 :: knet where
  "knet1 = (snd (firewall_add_rule (http_rule 80) (firewall_init knet0)))\<lparr>current_device := True,
     net_mem := (\<lambda>_. 0)(9 := 6, 23 := 80, 109 := 6, 122 := 80)\<rparr>"

lemma knet1_simps:
  "firewall_inv knet1" "active_rules knet1 = [http_rule 80]" "current_device knet1" "firewall_enabled knet1"
  "net_mem knet1 = (\<lambda>_. 0)(9 := 6, 23 := 80, 109 := 6, 122 := 80)"
  by (cases "rules knet0"; use knet0_simps(4) in
    \<open>simp add: knet1_def active_rules_def firewall_inv_def firewall_add_rule_def firewall_init_def
      MAX_RULES_def emit_def\<close>)+

theorem network_send_filters_witness:
  "network_send_packet (\<lambda>_ _ s. (0, s)) 0 24 knet1 =
     (- 2, puts (''Packet blocked by firewall.'' @ newline) knet1) \<and>
   network_send_packet (\<lambda>_ _ s. (0, s)) 100 24 knet1 = (0, knet1) \<and>
   network_send_packet (\<lambda>_ _ s. (0, s)) 0 24 (firewall_disable knet1) = (0, firewall_disable knet1)"
proof -
  have inv: "firewall_inv (firewall_disable knet1)"
    using knet1_simps(1) by (simp add: firewall_inv_def firewall_disable_def emit_def)
  have "current_device (firewall_disable knet1)" "\<not> firewall_enabled (firewall_disable knet1)"
    using knet1_simps(3) by (simp_all add: firewall_disable_def emit_def)
  then show ?thesis
    using network_send_filters [OF knet1_simps(1), of "\<lambda>_ _ s. (0, s)" 0 24]
      network_send_filters [OF knet1_simps(1), of "\<lambda>_ _ s. (0, s)" 100 24]
      network_send_filters [OF inv, of "\<lambda>_ _ s. (0, s)" 0 24]
    by (simp add: knet1_simps(2-5) covers_def packet_flow_def http_rule_def wire16_def swap16_def)
qed

text \<open>
  \<^verbatim>\<open>network_receive_packet\<close> asks the driver exactly for a present buffer of at least 14 bytes
  whose old contents, in network order, announce ARP or IP, the latter with version 4 when the
  buffer has room for an IP header; what the driver then stores is not looked at. Any other
  call fails with its own code and changes nothing.
\<close>

theorem network_receive_checks:
  fixes s :: "'a knet_scheme" and buf :: u32
  defines "ethertype \<equiv> wire16 (net_mem s) (buf + 12)" and "version \<equiv> unat (net_mem s (buf + 14)) div 16"
  shows "network_receive_packet receive buf len s =
    (if current_device s \<and> buf \<noteq> 0 \<and> 14 \<le> unat len \<and>
        (ethertype = 0x0806 \<or> ethertype = 0x0800 \<and> (unat len < 34 \<or> version = 4))
     then receive buf len s
     else (if \<not> current_device s then - 1 else if buf = 0 \<or> unat len < 14 then - 2
       else if ethertype \<noteq> 0x0800 then - 3 else - 4, s))"
proof -
  have "(drop_bit 4 b AND 0x0F = 4) = (unat b div 16 = 4)" for b :: u8
  proof -
    have "drop_bit 4 b AND 0x0F = take_bit 4 (drop_bit 4 b)" by (simp add: take_bit_eq_mask mask_eq_exp_minus_1)
    also have "\<dots> = drop_bit 4 b" by (rule bit_word_eqI) (auto simp: bit_simps dest: bit_imp_le_length)
    finally show ?thesis by (simp add: word_unat_eq_iff unat_div drop_bit_eq_div)
  qed
  then have v: "(drop_bit 4 (net_mem s (buf + 14)) AND 0x0F \<noteq> 4) = (version \<noteq> 4)" by (simp add: version_def)
  have "buf + 13 = buf + 12 + 1" by simp
  then have e: "push_bit 8 (ucast (net_mem s (buf + 12))) OR ucast (net_mem s (buf + 13)) = ethertype"
    unfolding ethertype_def wire16_def by (simp only:)
  have l: "(len < 14) = (unat len < 14)" "(34 \<le> len) = (34 \<le> unat len)"
    by (simp_all add: word_less_nat_alt word_le_nat_alt)
  have ne: "(0x0800 :: u16) \<noteq> 0x0806" by simp
  show ?thesis
    unfolding network_receive_packet_def Let_def e v l
    by (cases "ethertype = 0x0800"; cases "ethertype = 0x0806") (use ne in \<open>simp_all add: not_less\<close>)
qed

end
