(* ===== verification/Wifi.thy ===== *)
theory Wifi
  imports Pci
begin

text \<open>
  The wireless connection of \<^verbatim>\<open>src/drivers/network/wifi.c\<close>: a device with five states and the
  four calls. No file of the repository defines a driver; its functions are parameters. The
  clock is the tick counter of \<^verbatim>\<open>src/kernel/process.c\<close>, which timer interrupts advance between two
  readings: the value of each reading in turn is a parameter, too.
\<close>

section \<open>State\<close>

abbreviation WIFI_STATE_DOWN :: u8 where "WIFI_STATE_DOWN \<equiv> 0"
abbreviation WIFI_STATE_READY :: u8 where "WIFI_STATE_READY \<equiv> 1"
abbreviation WIFI_STATE_SCANNING :: u8 where "WIFI_STATE_SCANNING \<equiv> 2"
abbreviation WIFI_STATE_CONNECTING :: u8 where "WIFI_STATE_CONNECTING \<equiv> 3"
abbreviation WIFI_STATE_CONNECTED :: u8 where "WIFI_STATE_CONNECTED \<equiv> 4"
abbreviation WIFI_SECURITY_NONE :: u8 where "WIFI_SECURITY_NONE \<equiv> 0"
abbreviation WIFI_SECURITY_WEP :: u8 where "WIFI_SECURITY_WEP \<equiv> 1"
abbreviation WIFI_SECURITY_WPA2_PSK :: u8 where "WIFI_SECURITY_WPA2_PSK \<equiv> 3"

record wifi_connection_params =
  cp_ssid :: string
  cp_password :: string
  cp_security_type :: u8

record wifi_config =
  cf_ssid :: string
  cf_password :: string

text \<open>\<^verbatim>\<open>wifi_device_t\<close>; of the driver pointer, whether it is set.\<close>

record wifi_device =
  current_state :: u8
  signal_strength :: u8
  wifi_ip :: "u8 list"
  connected_channel :: u8
  connection_timeout :: u32
  connection_start_time :: u32
  networks_found :: u8
  config :: wifi_config
  has_driver :: bool

record kwifi = kports +
  wifi_dev :: wifi_device
  wifi_current :: bool
  clock_reads :: nat

text \<open>\<^verbatim>\<open>wifi_driver_t\<close>: three function pointers, each of them possibly null.\<close>

record wifi_driver =
  drv_scan :: "(kwifi \<Rightarrow> int \<times> kwifi) option"
  drv_connect :: "(wifi_connection_params \<Rightarrow> kwifi \<Rightarrow> int \<times> kwifi) option"
  drv_disconnect :: "(kwifi \<Rightarrow> int \<times> kwifi) option"

definition on_dev :: "(wifi_device \<Rightarrow> wifi_device) \<Rightarrow> kwifi \<Rightarrow> kwifi" where
  "on_dev f s = s\<lparr>wifi_dev := f (wifi_dev s)\<rparr>"

definition set_state :: "u8 \<Rightarrow> kwifi \<Rightarrow> kwifi" where
  "set_state st = on_dev (\<lambda>d. d\<lparr>current_state := st\<rparr>)"

text \<open>A call of \<^verbatim>\<open>get_tick_count\<close>, which counts the readings.\<close>

definition read_ticks :: "(nat \<Rightarrow> u32) \<Rightarrow> kwifi \<Rightarrow> u32 \<times> kwifi" where
  "read_ticks clock s = (clock (clock_reads s), s\<lparr>clock_reads := clock_reads s + 1\<rparr>)"

text \<open>\<^verbatim>\<open>strncpy\<close> of the C library: at most \<open>n\<close> characters, padded with null characters.\<close>

definition strncpy :: "string \<Rightarrow> string \<Rightarrow> nat \<Rightarrow> string" where
  "strncpy dst src n = take n (src @ replicate n (CHR 0x00)) @ drop n dst"

section \<open>Calls\<close>

definition wifi_init :: "bus \<Rightarrow> kwifi \<Rightarrow> int \<times> kwifi" where
  "wifi_init b s =
     (let (found, s1) = pcie_find_wifi_card b (puts (''WiFi alt sistemi baslatiliyor...'' @ newline) s)
      in if found
         then let s2 = puts (''WiFi karti baslatiliyor...'' @ newline) s1;
                  s3 = set_state WIFI_STATE_DOWN s2;
                  s4 = on_dev (\<lambda>d. d\<lparr>signal_strength := 0\<rparr>) s3
              in (0, s4\<lparr>wifi_current := True\<rparr>)
         else (- 1, puts (''WiFi karti bulunamadi!'' @ newline) s1))"

definition driver_word :: string where
  "driver_word = ''s'' @ tr_u @ ''r'' @ tr_u @ ''c'' @ tr_u @ ''s'' @ tr_u"

definition wifi_scan :: "wifi_driver \<Rightarrow> kwifi \<Rightarrow> int \<times> kwifi" where
  "wifi_scan D s =
     (if current_state (wifi_dev s) = WIFI_STATE_DOWN then (- 1, s)
      else
        let s1 = puts (''WiFi aglari taraniyor...'' @ newline) (set_state WIFI_STATE_SCANNING s)
        in if \<not> has_driver (wifi_dev s1) \<or> drv_scan D = None
           then (- 2, set_state WIFI_STATE_READY
             (puts (''HATA: WiFi '' @ driver_word @ '' tarama fonksiyonu desteklemiyor!'' @ newline) s1))
           else
             let (result, s2) = the (drv_scan D) s1
             in if result < 0
                then (- 3, set_state WIFI_STATE_READY (puts (''HATA: WiFi tarama basarisiz!'' @ newline) s2))
                else
                  let s3 = puts (newline @ ''WiFi aglari taramasi tamamlandi.'' @ newline) s2;
                      s4 = (if 0 < result
                            then emit (Printf (''Toplam %d WiFi agi bulundu.'' @ newline))
                              (on_dev (\<lambda>d. d\<lparr>networks_found := of_int result\<rparr>) s3)
                            else on_dev (\<lambda>d. d\<lparr>networks_found := 0\<rparr>)
                              (puts (''Herhangi bir WiFi agi bulunamadi.'' @ newline) s3))
                  in (0, set_state WIFI_STATE_READY s4))"

text \<open>
  The waiting loops of \<^verbatim>\<open>wifi_connect\<close> and \<^verbatim>\<open>wifi_disconnect\<close>: the clock is read once for the
  condition and, inside, once more for the dot.
\<close>

partial_function (option) tick_wait :: "(nat \<Rightarrow> u32) \<Rightarrow> u32 \<Rightarrow> u32 \<Rightarrow> u32 \<Rightarrow> kwifi \<Rightarrow> kwifi option" where
  "tick_wait clock start_time wait_time dots s =
     (let (now, s1) = read_ticks clock s
      in if now - start_time < wait_time
         then let (again, s2) = read_ticks clock s1
              in tick_wait clock start_time wait_time dots
                   (if (again - start_time) mod dots = 0 then emit (Putc CHR ''.'') s2 else s2)
         else Some s1)"

text \<open>Every byte of the two strings of the parameters is written.\<close>

definition connection_params :: "string \<Rightarrow> string \<Rightarrow> wifi_connection_params" where
  "connection_params ssid password =
     \<lparr>cp_ssid = (strncpy (replicate 32 (CHR 0x00)) ssid 31)[31 := CHR 0x00],
      cp_password = (strncpy (replicate 64 (CHR 0x00)) password 63)[63 := CHR 0x00],
      cp_security_type =
        (if length password = 0 then WIFI_SECURITY_NONE
         else if length password = 5 \<or> length password = 13 then WIFI_SECURITY_WEP
         else WIFI_SECURITY_WPA2_PSK)\<rparr>"

text \<open>The rest of \<^verbatim>\<open>wifi_connect\<close> once the driver has accepted.\<close>

definition connect_wait :: "(nat \<Rightarrow> u32) \<Rightarrow> kwifi \<Rightarrow> (int \<times> kwifi) option" where
  "connect_wait clock s =
     do {
       let (start_time, s7) = read_ticks clock s;
       s8 \<leftarrow> tick_wait clock start_time 300 50 (puts ''Baglaniyor'' s7);
       let s9 = on_dev (\<lambda>d. d\<lparr>wifi_ip := [192, 168, 1, 100]\<rparr>)
         (puts (newline @ ''Baglanti kuruldu!'' @ newline) s8);
       let s10 = fold emit [Puts ''IP adresi: '', Printf (''%d.%d.%d.%d'' @ newline)] s9;
       Some (0, on_dev (\<lambda>d. d\<lparr>signal_strength := 75, connected_channel := 6\<rparr>)
         (set_state WIFI_STATE_CONNECTED s10))
     }"

definition wifi_connect :: "wifi_driver \<Rightarrow> (nat \<Rightarrow> u32) \<Rightarrow> string \<Rightarrow> string \<Rightarrow> kwifi \<Rightarrow> (int \<times> kwifi) option" where
  "wifi_connect D clock ssid password s =
     (if current_state (wifi_dev s) = WIFI_STATE_DOWN then Some (- 1, s)
      else
        let s1 = fold emit [Puts ''WiFi agina baglaniliyor: '', Puts ssid, Puts newline] s;
            s2 = on_dev (\<lambda>d. d\<lparr>config := \<lparr>cf_ssid = strncpy (cf_ssid (config d)) ssid 31,
              cf_password = strncpy (cf_password (config d)) password 63\<rparr>\<rparr>) s1;
            s3 = set_state WIFI_STATE_CONNECTING s2
        in if \<not> has_driver (wifi_dev s3) \<or> drv_connect D = None
           then Some (- 2, set_state WIFI_STATE_READY
             (puts (''HATA: WiFi '' @ driver_word @ '' baglanti fonksiyonu desteklemiyor!'' @ newline) s3))
           else
             let (begin_time, s4) = read_ticks clock (on_dev (\<lambda>d. d\<lparr>connection_timeout := 10000\<rparr>) s3);
                 s5 = on_dev (\<lambda>d. d\<lparr>connection_start_time := begin_time\<rparr>) s4;
                 (result, s6) = the (drv_connect D) (connection_params ssid password) s5
             in if result < 0
                then Some (- 3, set_state WIFI_STATE_READY
                  (puts (''HATA: WiFi baglanti baslatma basarisiz!'' @ newline) s6))
                else connect_wait clock s6)"

definition wifi_disconnect :: "wifi_driver \<Rightarrow> (nat \<Rightarrow> u32) \<Rightarrow> kwifi \<Rightarrow> (int \<times> kwifi) option" where
  "wifi_disconnect D clock s =
     (if current_state (wifi_dev s) \<noteq> WIFI_STATE_CONNECTED
      then Some (- 1, puts (''HATA: Aktif WiFi baglantisi bulunamadi.'' @ newline) s)
      else
        let s1 = puts ''WiFi baglantisi kesiliyor... '' s
        in if \<not> has_driver (wifi_dev s1) \<or> drv_disconnect D = None
           then Some (- 2, puts (newline @ ''HATA: WiFi '' @ driver_word @
             '' baglanti kesme fonksiyonu desteklemiyor!'' @ newline) s1)
           else
             let (result, s2) = the (drv_disconnect D) s1
             in if result < 0
                then Some (- 3, puts (newline @ ''HATA: WiFi baglanti kesme basarisiz!'' @ newline) s2)
                else do {
                  let (start_time, s3) = read_ticks clock s2;
                  s4 \<leftarrow> tick_wait clock start_time 100 25 s3;
                  let s5 = on_dev (\<lambda>d. d\<lparr>wifi_ip := [0, 0, 0, 0], signal_strength := 0, connected_channel := 0,
                    config := \<lparr>cf_ssid = replicate 32 (CHR 0x00), cf_password = replicate 64 (CHR 0x00)\<rparr>\<rparr>) s4;
                  Some (0, puts (newline @ ''WiFi baglantisi kesildi.'' @ newline)
                    (set_state WIFI_STATE_READY s5))
                })"

lemma on_dev_fields [simp]:
  "wifi_dev (on_dev f s) = f (wifi_dev s)" "clock_reads (on_dev f s) = clock_reads s"
  "con_out (on_dev f s) = con_out s" "wifi_current (on_dev f s) = wifi_current s"
  "wifi_dev (set_state st s) = (wifi_dev s)\<lparr>current_state := st\<rparr>" "clock_reads (set_state st s) = clock_reads s"
  "con_out (set_state st s) = con_out s" "wifi_current (set_state st s) = wifi_current s"
  by (simp_all add: on_dev_def set_state_def)

lemma emit_wifi [simp]:
  "wifi_dev (emit c s) = wifi_dev s" "clock_reads (emit c s) = clock_reads s"
  "wifi_current (emit c s) = wifi_current s"
  by (simp_all add: emit_def)

section \<open>The device found\<close>

text \<open>
  On a bridge that answers by address, \<^verbatim>\<open>wifi_init\<close> succeeds exactly when some slot shows a
  wireless controller; it then names the first such slot and puts the device in the state DOWN.
  On a bridge that ignores the two reserved address bits it always fails, since both class
  bytes are then read from the same register.
\<close>

theorem wifi_init_finds_first:
  assumes "\<And>h. bus32 b h PCI_CONFIG_DATA = cfg (address_reg h)"
  shows "(fst (wifi_init b s) = 0 \<longleftrightarrow> (\<exists>slot \<in> set bus_slots. wifi_slot cfg slot)) \<and>
    (case find (wifi_slot cfg) bus_slots of
       None \<Rightarrow> fst (wifi_init b s) = - 1 \<and> wifi_dev (snd (wifi_init b s)) = wifi_dev s
     | Some slot \<Rightarrow> current_state (wifi_dev (snd (wifi_init b s))) = WIFI_STATE_DOWN \<and>
         con_out (snd (wifi_init b s)) = con_out s @ [Puts (''WiFi alt sistemi baslatiliyor...'' @ newline)] @
           wifi_card_lines (fst (slot_ids cfg slot)) (snd (slot_ids cfg slot)) @
           [Puts (''WiFi karti baslatiliyor...'' @ newline)]) \<and>
    ((\<forall>a. cfg a = cfg (a AND NOT 3)) \<longrightarrow> fst (wifi_init b s) = - 1)"
proof -
  let ?s = "puts (''WiFi alt sistemi baslatiliyor...'' @ newline) s"
  have none: "(\<forall>a. cfg a = cfg (a AND NOT 3)) \<Longrightarrow> find (wifi_slot cfg) bus_slots = None"
    by (auto simp: find_None_iff no_wifi_slot)
  from pcie_scan_finds [OF assms, of bus_slots ?s] show ?thesis
  proof (cases "find (wifi_slot cfg) bus_slots")
    case None
    then have "\<not> (\<exists>slot \<in> set bus_slots. wifi_slot cfg slot)" by (auto simp: find_None_iff)
    with None pcie_scan_finds [OF assms, of bus_slots ?s] show ?thesis
      by (auto simp: wifi_init_def pcie_find_wifi_card_def)
  next
    case (Some slot)
    then have "slot \<in> set bus_slots \<and> wifi_slot cfg slot" by (auto simp: find_Some_iff)
    with Some none pcie_scan_finds [OF assms, of bus_slots ?s] show ?thesis
      by (auto simp: wifi_init_def pcie_find_wifi_card_def)
  qed
qed

section \<open>The states\<close>

inductive wifi_call :: "bus \<Rightarrow> wifi_driver \<Rightarrow> (nat \<Rightarrow> u32) \<Rightarrow> kwifi \<Rightarrow> kwifi \<Rightarrow> bool"
  for b D clock where
  call_init: "wifi_call b D clock s (snd (wifi_init b s))"
| call_scan: "wifi_call b D clock s (snd (wifi_scan D s))"
| call_connect: "wifi_connect D clock ssid password s = Some (r, t) \<Longrightarrow> wifi_call b D clock s t"
| call_disconnect: "wifi_disconnect D clock s = Some (r, t) \<Longrightarrow> wifi_call b D clock s t"

lemma pcie_scan_dev: "wifi_dev (snd (pcie_scan b xs s)) = wifi_dev s"
proof (induction xs arbitrary: s)
  case (Cons x xs)
  then show ?case by (cases x) (simp add: pcie_read_eq Let_def fold_emit)
qed simp

lemma wifi_init_dev:
  "wifi_dev (snd (wifi_init b s)) =
     (if fst (wifi_init b s) = 0
      then (wifi_dev s)\<lparr>current_state := WIFI_STATE_DOWN, signal_strength := 0\<rparr> else wifi_dev s)"
proof -
  let ?s = "puts (''WiFi alt sistemi baslatiliyor...'' @ newline) s"
  obtain found s1 where f: "pcie_find_wifi_card b ?s = (found, s1)" by (cases "pcie_find_wifi_card b ?s")
  then have "wifi_dev s1 = wifi_dev s"
    using pcie_scan_dev [of b bus_slots ?s] by (simp add: pcie_find_wifi_card_def)
  then show ?thesis unfolding wifi_init_def f by (cases found) simp_all
qed

lemma wifi_call_down:
  assumes "wifi_call b D clock s t" "current_state (wifi_dev s) = WIFI_STATE_DOWN"
  shows "current_state (wifi_dev t) = WIFI_STATE_DOWN \<and> wifi_ip (wifi_dev t) = wifi_ip (wifi_dev s)"
  using assms
proof cases
  case call_init
  then show ?thesis using assms(2) by (simp add: wifi_init_dev)
next
  case call_scan
  then show ?thesis using assms(2) by (simp add: wifi_scan_def)
next
  case call_connect
  then show ?thesis using assms(2) by (simp add: wifi_connect_def)
next
  case call_disconnect
  then show ?thesis using assms(2) by (auto simp: wifi_disconnect_def)
qed

text \<open>
  C33: no sequence of calls leaves the state DOWN in which the kernel starts: \<^verbatim>\<open>wifi_init\<close> leaves
  the device down even when it finds a card, and no other function of the kernel raises it.
  Every scan, connection and disconnection ever asked for fails with -1, and no address is set.
\<close>

theorem wifi_stays_down:
  assumes "(wifi_call b D clock)\<^sup>*\<^sup>* s t" "current_state (wifi_dev s) = WIFI_STATE_DOWN"
  shows "current_state (wifi_dev t) = WIFI_STATE_DOWN \<and> wifi_ip (wifi_dev t) = wifi_ip (wifi_dev s) \<and>
    wifi_scan D t = (- 1, t) \<and> wifi_connect D clock ssid password t = Some (- 1, t) \<and>
    map_option fst (wifi_disconnect D clock t) = Some (- 1)"
proof -
  from assms have "current_state (wifi_dev t) = WIFI_STATE_DOWN \<and> wifi_ip (wifi_dev t) = wifi_ip (wifi_dev s)"
    by (induction rule: rtranclp_induct) (auto dest: wifi_call_down)
  then show ?thesis by (simp add: wifi_scan_def wifi_connect_def wifi_disconnect_def)
qed

definition wifi0 :: wifi_device where
  "wifi0 = \<lparr>current_state = 0, signal_strength = 0, wifi_ip = [0, 0, 0, 0], connected_channel = 0,
     connection_timeout = 0, connection_start_time = 0, networks_found = 0,
     config = \<lparr>cf_ssid = replicate 32 (CHR 0x00), cf_password = replicate 64 (CHR 0x00)\<rparr>, has_driver = False\<rparr>"

definition kwifi0 :: kwifi where
  "kwifi0 = kports.extend (firewall_state.extend (console.extend \<lparr>con_out = []\<rparr>
       \<lparr>rules = [], rule_count = 0, firewall_enabled = False\<rparr>)
       \<lparr>io_log = [], pci_dev = \<lparr>pd_vendor_id = 0, pd_device_id = 0, pd_command = 0, pd_status = 0,
          pd_revision_id = 0, pd_prog_if = 0, pd_subclass = 0, pd_class_code = 0, pd_cache_line_size = 0,
          pd_latency_timer = 0, pd_header_type = 0, pd_bist = 0\<rparr>,
        pcie_dev = \<lparr>pe_vendor_id = 0, pe_device_id = 0, pe_class_code = 0, pe_subclass = 0, pe_prog_if = 0,
          pe_revision = 0, pe_bar = replicate 6 0\<rparr>\<rparr>)
     \<lparr>wifi_dev = wifi0, wifi_current = False, clock_reads = 0\<rparr>"

lemma kwifi0_simps [simp]:
  "wifi_dev kwifi0 = wifi0" "current_state wifi0 = 0" "clock_reads kwifi0 = 0" "con_out kwifi0 = []"
  by (simp_all add: kwifi0_def wifi0_def kports.defs firewall_state.defs console.defs)

text \<open>A machine whose only card is an Intel 9260 in the third slot of bus 0.\<close>

definition intel_cfg :: "u32 \<Rightarrow> u32" where
  "intel_cfg a = (if a = pcie_address 0 2 0 0 then 0x25268086 else if a = pcie_address 0 2 0 0x0B then 2
     else if a = pcie_address 0 2 0 0x0A then 0x80 else 0xFFFFFFFF)"

definition intel_bus :: bus where
  "intel_bus = \<lparr>bus8 = \<lambda>_ _. 0xFF, bus32 = \<lambda>h _. intel_cfg (address_reg h)\<rparr>"

lemma bus_slots_front: "\<exists>rest. bus_slots = [(0, 0), (0, 1), (0, 2)] @ rest"
proof -
  have "[0..<256] = 0 # [1..<256]" "[0..<32] = 0 # 1 # 2 # [3..<32]"
    by (simp_all only: upt_conv_Cons) (simp_all add: upt_conv_Cons)
  then show ?thesis unfolding bus_slots_def by simp
qed

lemma intel_found: "find (wifi_slot intel_cfg) bus_slots = Some (0, 2)"
proof -
  have "find (wifi_slot intel_cfg) ([(0, 0), (0, 1), (0, 2)] @ xs) = Some (0, 2)" for xs
    by (simp add: wifi_slot_def slot_reg_def intel_cfg_def pcie_address_def)
  with bus_slots_front show ?thesis by metis
qed

theorem wifi_init_finds_first_witness:
  "fst (wifi_init intel_bus kwifi0) = 0 \<and>
   con_out (snd (wifi_init intel_bus kwifi0)) = [Puts (''WiFi alt sistemi baslatiliyor...'' @ newline),
     Puts ''WiFi karti bulundu: '', Puts ''Intel '', Puts ''Wireless-AC 9260'', Puts newline,
     Puts (''WiFi karti baslatiliyor...'' @ newline)]"
proof -
  have "(0, 2) \<in> set bus_slots" "wifi_slot intel_cfg (0, 2)"
    using intel_found by (auto simp: find_Some_iff)
  moreover have "slot_ids intel_cfg (0, 2) = (0x8086, 0x2526)"
    by (simp add: slot_ids_def slot_reg_def intel_cfg_def)
  ultimately show ?thesis
    using wifi_init_finds_first [of intel_bus intel_cfg kwifi0] intel_found
    by (auto simp: intel_bus_def wifi_card_lines_def intel_card_def)
qed

theorem wifi_stays_down_witness:
  "wifi_scan (wifi_driver.make None None None) (snd (wifi_init intel_bus kwifi0)) =
     (- 1, snd (wifi_init intel_bus kwifi0)) \<and>
   wifi_connect (wifi_driver.make None None None) of_nat ''home'' '''' (snd (wifi_init intel_bus kwifi0)) =
     Some (- 1, snd (wifi_init intel_bus kwifi0))"
proof -
  have "(wifi_call intel_bus (wifi_driver.make None None None) of_nat)\<^sup>*\<^sup>* kwifi0 (snd (wifi_init intel_bus kwifi0))"
    by (rule r_into_rtranclp, rule call_init)
  from wifi_stays_down [OF this] show ?thesis by simp
qed

section \<open>A connection with a driver\<close>

text \<open>A clock that counts ticks, no more than one between two readings, and never stops.\<close>

definition ticking :: "(nat \<Rightarrow> nat) \<Rightarrow> bool" where
  "ticking c \<longleftrightarrow> (\<forall>k. c k \<le> c (Suc k) \<and> c (Suc k) \<le> Suc (c k)) \<and> (\<forall>n. \<exists>k. n \<le> c k)"

lemma ticking_mono: "ticking c \<Longrightarrow> k \<le> l \<Longrightarrow> c k \<le> c l"
  by (rule lift_Suc_mono_le) (simp_all add: ticking_def)

lemma elapsed: "c0 \<le> c1 \<Longrightarrow> c1 - c0 < 2 ^ 32 \<Longrightarrow> unat (of_nat c1 - of_nat c0 :: u32) = c1 - c0"
  by (simp add: unat_of_nat take_bit_nat_eq_self flip: of_nat_diff)

lemma tick_wait_returns:
  assumes "ticking c" "c0 + unat w \<le> c N" "unat w + 2 < 2 ^ 32"
    "c0 \<le> c (clock_reads s)" "c (clock_reads s) \<le> c0 + unat w + 1"
  shows "\<exists>n k. tick_wait (\<lambda>i. of_nat (c i)) (of_nat c0) w d s =
      Some (s\<lparr>con_out := con_out s @ replicate n (Putc CHR ''.''), clock_reads := Suc k\<rparr>) \<and>
    clock_reads s \<le> k \<and> c0 + unat w \<le> c k"
  using assms(4,5)
proof (induction "N - clock_reads s" arbitrary: s rule: less_induct)
  case less
  let ?r = "clock_reads s"
  have el: "unat (of_nat (c ?r) - of_nat c0 :: u32) = c ?r - c0"
    using less.prems assms(3) by (intro elapsed) auto
  show ?case
  proof (cases "c0 + unat w \<le> c ?r")
    case True
    then have "\<not> of_nat (c ?r) - of_nat c0 < w" using el by (simp add: word_less_nat_alt)
    then show ?thesis using True
      by (subst tick_wait.simps) (rule exI [of _ 0], rule exI [of _ ?r], simp add: read_ticks_def)
  next
    case False
    then have lt: "of_nat (c ?r) - of_nat c0 < w" using el less.prems by (simp add: word_less_nat_alt)
    have "?r < N" using False assms(2) ticking_mono [OF assms(1), of N ?r] by (meson not_less order.trans)
    let ?s2 = "s\<lparr>clock_reads := Suc (Suc ?r)\<rparr>"
    let ?s3 = "if (of_nat (c (Suc ?r)) - of_nat c0) mod d = 0 then emit (Putc CHR ''.'') ?s2 else ?s2"
    have step: "tick_wait (\<lambda>i. of_nat (c i)) (of_nat c0) w d s = tick_wait (\<lambda>i. of_nat (c i)) (of_nat c0) w d ?s3"
      by (subst tick_wait.simps) (simp add: read_ticks_def lt)
    have s3: "\<exists>m. ?s3 = s\<lparr>con_out := con_out s @ replicate m (Putc CHR ''.''), clock_reads := Suc (Suc ?r)\<rparr>"
      by (cases "(of_nat (c (Suc ?r)) - of_nat c0) mod d = 0")
        (simp add: emit_def, rule exI [of _ 1], simp, simp, rule exI [of _ 0], simp)
    have "c (Suc (Suc ?r)) \<le> c ?r + 2" "c ?r \<le> c (Suc (Suc ?r))"
      using assms(1) by (auto simp: ticking_def) (metis add_2_eq_Suc' le_trans Suc_le_mono, meson order.trans)
    then have "c0 \<le> c (clock_reads ?s3)" "c (clock_reads ?s3) \<le> c0 + unat w + 1"
      "N - clock_reads ?s3 < N - ?r" using False less.prems \<open>?r < N\<close> by auto
    from less.hyps [OF this(3,1,2)] s3 show ?thesis
      unfolding step by (fastforce simp: replicate_add [symmetric])
  qed
qed

lemma connect_wait_returns:
  assumes "ticking c"
  shows "\<exists>t k. connect_wait (\<lambda>i. of_nat (c i)) s = Some (0, t) \<and>
    c (clock_reads s) + 300 \<le> c k \<and> clock_reads s < k \<and> clock_reads t = Suc k \<and>
    current_state (wifi_dev t) = WIFI_STATE_CONNECTED \<and> wifi_ip (wifi_dev t) = [192, 168, 1, 100] \<and>
    signal_strength (wifi_dev t) = 75 \<and> connected_channel (wifi_dev t) = 6"
proof -
  let ?r = "clock_reads s" and ?u = "puts ''Baglaniyor'' (s\<lparr>clock_reads := Suc (clock_reads s)\<rparr>)"
  obtain N where N: "c ?r + unat (300 :: u32) \<le> c N" using assms unfolding ticking_def by blast
  have b: "c ?r \<le> c (clock_reads ?u)" "c (clock_reads ?u) \<le> c ?r + unat (300 :: u32) + 1"
    using assms le_SucI [of "c (Suc ?r)" "Suc (c ?r)"] by (auto simp: ticking_def intro: le_trans)
  have w: "unat (300 :: u32) + 2 < 2 ^ 32" by simp
  obtain n k where t: "tick_wait (\<lambda>i. of_nat (c i)) (of_nat (c ?r)) 300 50 ?u =
      Some (?u\<lparr>con_out := con_out ?u @ replicate n (Putc CHR ''.''), clock_reads := Suc k\<rparr>)"
    and k: "clock_reads ?u \<le> k" "c ?r + unat (300 :: u32) \<le> c k"
    using tick_wait_returns [OF assms N w b, of 50] by metis
  have "connect_wait (\<lambda>i. of_nat (c i)) s = Some (0, on_dev (\<lambda>d. d\<lparr>signal_strength := 75, connected_channel := 6\<rparr>)
    (set_state WIFI_STATE_CONNECTED (fold emit [Puts ''IP adresi: '', Printf (''%d.%d.%d.%d'' @ newline)]
      (on_dev (\<lambda>d. d\<lparr>wifi_ip := [192, 168, 1, 100]\<rparr>) (puts (newline @ ''Baglanti kuruldu!'' @ newline)
        (?u\<lparr>con_out := con_out ?u @ replicate n (Putc CHR ''.''), clock_reads := Suc k\<rparr>))))))"
    unfolding connect_wait_def read_ticks_def Let_def prod.case Suc_eq_plus1 [symmetric] t by simp
  with k show ?thesis by (simp add: Suc_le_eq)
qed

lemma tick_wait_stuck: "tick_wait clock now w d s = Some t \<Longrightarrow> \<not> (clock = (\<lambda>_. now) \<and> 0 < w)"
  by (erule tick_wait.raw_induct [where P = "\<lambda>clock now w d s t. \<not> (clock = (\<lambda>_. now) \<and> 0 < w)", rotated])
    (auto simp: read_ticks_def Let_def split: if_splits)

lemma connect_wait_stuck: "connect_wait (\<lambda>_. now) s = None"
  using tick_wait_stuck [of "\<lambda>_. now" now 300 50]
  by (cases "tick_wait (\<lambda>_. now) now 300 50 (puts ''Baglaniyor'' (s\<lparr>clock_reads := clock_reads s + 1\<rparr>))")
    (auto simp: connect_wait_def read_ticks_def)

definition refused :: "kwifi \<Rightarrow> kwifi" where
  "refused s = set_state WIFI_STATE_READY (puts (''HATA: WiFi baglanti baslatma basarisiz!'' @ newline) s)"

lemma refused_dev [simp]: "wifi_dev (refused s) = (wifi_dev s)\<lparr>current_state := WIFI_STATE_READY\<rparr>"
  by (simp add: refused_def)

definition asking :: "u32 \<Rightarrow> string \<Rightarrow> string \<Rightarrow> kwifi \<Rightarrow> kwifi" where
  "asking now ssid password s =
     on_dev (\<lambda>d. d\<lparr>config := \<lparr>cf_ssid = strncpy (cf_ssid (config d)) ssid 31,
          cf_password = strncpy (cf_password (config d)) password 63\<rparr>,
        current_state := WIFI_STATE_CONNECTING, connection_timeout := 10000, connection_start_time := now\<rparr>)
       ((fold emit [Puts ''WiFi agina baglaniliyor: '', Puts ssid, Puts newline] s)
          \<lparr>clock_reads := clock_reads s + 1\<rparr>)"

lemma wifi_connect_asks:
  assumes "current_state (wifi_dev s) \<noteq> WIFI_STATE_DOWN" "has_driver (wifi_dev s)" "drv_connect D = Some f"
  shows "\<exists>u. current_state (wifi_dev u) = WIFI_STATE_CONNECTING \<and>
    connection_start_time (wifi_dev u) = clock (clock_reads s) \<and>
    wifi_connect D clock ssid password s = (if fst (f (connection_params ssid password) u) < 0
      then Some (- 3, refused (snd (f (connection_params ssid password) u)))
      else connect_wait clock (snd (f (connection_params ssid password) u)))"
proof -
  let ?u = "asking (clock (clock_reads s)) ssid password s"
  have "wifi_connect D clock ssid password s = (if fst (f (connection_params ssid password) ?u) < 0
      then Some (- 3, refused (snd (f (connection_params ssid password) ?u)))
      else connect_wait clock (snd (f (connection_params ssid password) ?u)))"
    using assms
    by (simp add: wifi_connect_def read_ticks_def asking_def refused_def on_dev_def set_state_def
      emit_def split_beta Let_def)
  then show ?thesis by (intro exI [of _ ?u]) (simp add: asking_def)
qed

lemma cstr_strncpy:
  assumes "NUL \<notin> set src"
  shows "cstr ((strncpy (replicate (Suc n) NUL) src n)[n := NUL]) = take n src"
proof -
  have "strncpy (replicate (Suc n) NUL) src n = take n (src @ replicate n NUL) @ [NUL]"
    by (simp add: strncpy_def flip: replicate_Suc) simp
  moreover have "take n (src @ replicate n NUL) = take n src @ replicate (n - length src) NUL" by simp
  ultimately have "(strncpy (replicate (Suc n) NUL) src n)[n := NUL] = take n src @ replicate (n - length src) NUL @ [NUL]"
    by (cases "n \<le> length src") (simp_all add: list_update_append)
  moreover have "takeWhile (\<lambda>c. c \<noteq> NUL) (take n src @ replicate k NUL @ [NUL]) = take n src" for k
    using assms by (cases k) (auto simp: takeWhile_append dest: in_set_takeD)
  ultimately show ?thesis by (simp add: cstr_def)
qed

lemma params_cut:
  assumes "NUL \<notin> set ssid" "NUL \<notin> set password"
  shows "cstr (cp_ssid (connection_params ssid password)) = take 31 ssid"
    "cstr (cp_password (connection_params ssid password)) = take 63 password"
  using cstr_strncpy [OF assms(1), of 31] cstr_strncpy [OF assms(2), of 63]
  by (simp_all add: connection_params_def)

text \<open>
  C34: every outcome of \<^verbatim>\<open>wifi_connect\<close>. In the state DOWN it returns -1 at once and changes
  nothing, whatever the clock does. In any other state, without a driver or without its connect
  function it returns -2, and with a driver that refuses (a negative result) -3, both times with
  the device READY. A driver that accepts is followed by a wait of at least 300 ticks of a running
  clock, the return value 0 and a device CONNECTED with the fixed address 192.168.1.100, whatever
  the driver left; with a clock that stands still, as it does while no interrupt arrives, that
  wait never ends. The driver is asked once, with the name cut to 31 and the password to 63
  characters. In this kernel no driver is ever set and the state never leaves DOWN (C33), so
  only the first of these outcomes is reached.
\<close>

theorem wifi_connect_outcomes:
  fixes s :: kwifi and D :: wifi_driver and ssid password :: string
  assumes "ticking c" "NUL \<notin> set ssid" "NUL \<notin> set password"
  defines "run \<equiv> \<lambda>clock. wifi_connect D clock ssid password s"
  shows "if current_state (wifi_dev s) = WIFI_STATE_DOWN then run clock = Some (- 1, s)
    else case if has_driver (wifi_dev s) then drv_connect D else None of
      None \<Rightarrow> \<exists>t. run clock = Some (- 2, t) \<and> current_state (wifi_dev t) = WIFI_STATE_READY \<and>
        wifi_ip (wifi_dev t) = wifi_ip (wifi_dev s) \<and> clock_reads t = clock_reads s
    | Some f \<Rightarrow> \<exists>p u v. cstr (cp_ssid p) = take 31 ssid \<and> cstr (cp_password p) = take 63 password \<and>
        current_state (wifi_dev u) = WIFI_STATE_CONNECTING \<and> current_state (wifi_dev v) = WIFI_STATE_CONNECTING \<and>
        connection_start_time (wifi_dev u) = of_nat (c (clock_reads s)) \<and>
        (if fst (f p u) < 0
         then \<exists>t. run (\<lambda>i. of_nat (c i)) = Some (- 3, t) \<and>
           wifi_dev t = (wifi_dev (snd (f p u)))\<lparr>current_state := WIFI_STATE_READY\<rparr>
         else \<exists>t start. run (\<lambda>i. of_nat (c i)) = Some (0, t) \<and> start < clock_reads t - 1 \<and>
           c start + 300 \<le> c (clock_reads t - 1) \<and>
           current_state (wifi_dev t) = WIFI_STATE_CONNECTED \<and> wifi_ip (wifi_dev t) = [192, 168, 1, 100] \<and>
           signal_strength (wifi_dev t) = 75 \<and> connected_channel (wifi_dev t) = 6) \<and>
        (if fst (f p v) < 0
         then \<exists>t. run (\<lambda>_. now) = Some (- 3, t) \<and>
           wifi_dev t = (wifi_dev (snd (f p v)))\<lparr>current_state := WIFI_STATE_READY\<rparr>
         else run (\<lambda>_. now) = None)"
proof -
  consider (down) "current_state (wifi_dev s) = WIFI_STATE_DOWN"
    | (none) "current_state (wifi_dev s) \<noteq> WIFI_STATE_DOWN" "\<not> has_driver (wifi_dev s) \<or> drv_connect D = None"
    | (some) f where "current_state (wifi_dev s) \<noteq> WIFI_STATE_DOWN" "has_driver (wifi_dev s)" "drv_connect D = Some f"
    by blast
  then show ?thesis
  proof cases
    case down
    then show ?thesis by (simp add: run_def wifi_connect_def)
  next
    case none
    then show ?thesis by (auto simp: run_def wifi_connect_def)
  next
    case some
    let ?p = "connection_params ssid password"
    note asked = wifi_connect_asks [OF some, of _ ssid password]
    obtain u where u: "current_state (wifi_dev u) = WIFI_STATE_CONNECTING"
      "connection_start_time (wifi_dev u) = of_nat (c (clock_reads s))"
      "run (\<lambda>i. of_nat (c i)) = (if fst (f ?p u) < 0
        then Some (- 3, refused (snd (f ?p u))) else connect_wait (\<lambda>i. of_nat (c i)) (snd (f ?p u)))"
      unfolding run_def using asked [of "\<lambda>i. of_nat (c i)"] by blast
    obtain v where v: "current_state (wifi_dev v) = WIFI_STATE_CONNECTING"
      "run (\<lambda>_. now) = (if fst (f ?p v) < 0
        then Some (- 3, refused (snd (f ?p v))) else connect_wait (\<lambda>_. now) (snd (f ?p v)))"
      unfolding run_def using asked [of "\<lambda>_. now"] by blast
    have one: "if fst (f ?p u) < 0
         then \<exists>t. run (\<lambda>i. of_nat (c i)) = Some (- 3, t) \<and>
           wifi_dev t = (wifi_dev (snd (f ?p u)))\<lparr>current_state := WIFI_STATE_READY\<rparr>
         else \<exists>t start. run (\<lambda>i. of_nat (c i)) = Some (0, t) \<and> start < clock_reads t - 1 \<and>
           c start + 300 \<le> c (clock_reads t - 1) \<and>
           current_state (wifi_dev t) = WIFI_STATE_CONNECTED \<and> wifi_ip (wifi_dev t) = [192, 168, 1, 100] \<and>
           signal_strength (wifi_dev t) = 75 \<and> connected_channel (wifi_dev t) = 6"
      using u(3) connect_wait_returns [OF assms(1), of "snd (f ?p u)"] by fastforce
    have two: "if fst (f ?p v) < 0
         then \<exists>t. run (\<lambda>_. now) = Some (- 3, t) \<and>
           wifi_dev t = (wifi_dev (snd (f ?p v)))\<lparr>current_state := WIFI_STATE_READY\<rparr>
         else run (\<lambda>_. now) = None"
      using v(2) by (simp add: connect_wait_stuck)
    have h: "(if has_driver (wifi_dev s) then drv_connect D else None) = Some f" using some by simp
    show ?thesis
      unfolding h if_not_P [OF some(1)] option.case
      by (rule exI [of _ ?p], rule exI [of _ u], rule exI [of _ v])
        (intro conjI one two u(1,2) v(1) params_cut [OF assms(2,3)])
  qed
qed

text \<open>A driver that answers \<open>r\<close> to a connection, and a device with it, ready.\<close>

definition answering :: "int \<Rightarrow> wifi_driver" where
  "answering r = wifi_driver.make None (Some (\<lambda>_ s. (r, s))) None"

definition ready_wifi :: kwifi where
  "ready_wifi = set_state WIFI_STATE_READY (on_dev (\<lambda>d. d\<lparr>has_driver := True\<rparr>) kwifi0)"

lemma ready_wifi_simps:
  "current_state (wifi_dev ready_wifi) = WIFI_STATE_READY" "has_driver (wifi_dev ready_wifi)"
  "drv_connect (answering r) = Some (\<lambda>_ s. (r, s))" "drv_connect (wifi_driver.make None None None) = None"
  by (simp_all add: ready_wifi_def answering_def wifi_driver.defs)

theorem wifi_connect_outcomes_witness:
  "wifi_connect (answering 0) of_nat ''home'' ''secret'' kwifi0 = Some (- 1, kwifi0) \<and>
   (\<exists>t. wifi_connect (wifi_driver.make None None None) of_nat ''home'' ''secret'' ready_wifi = Some (- 2, t)) \<and>
   (\<exists>t. wifi_connect (answering (- 1)) of_nat ''home'' ''secret'' ready_wifi = Some (- 3, t) \<and>
     current_state (wifi_dev t) = WIFI_STATE_READY) \<and>
   (\<exists>t. wifi_connect (answering 0) of_nat ''home'' ''secret'' ready_wifi = Some (0, t) \<and>
     current_state (wifi_dev t) = WIFI_STATE_CONNECTED \<and> wifi_ip (wifi_dev t) = [192, 168, 1, 100]) \<and>
   wifi_connect (answering 0) (\<lambda>_. 7) ''home'' ''secret'' ready_wifi = None"
proof -
  have tick: "ticking (\<lambda>n. n)" by (auto simp: ticking_def)
  note outcomes = wifi_connect_outcomes [OF tick, of "''home''" "''secret''" _ _ of_nat 7]
  have nul: "NUL \<notin> set ''home''" "NUL \<notin> set ''secret''" by simp_all
  have "wifi_connect (answering 0) of_nat ''home'' ''secret'' kwifi0 = Some (- 1, kwifi0)"
    using outcomes [OF nul, of kwifi0 "answering 0"] by simp
  moreover have "\<exists>t. wifi_connect (wifi_driver.make None None None) of_nat ''home'' ''secret'' ready_wifi = Some (- 2, t)"
    using outcomes [OF nul, of ready_wifi "wifi_driver.make None None None"] by (auto simp: ready_wifi_simps)
  moreover have "\<exists>t. wifi_connect (answering (- 1)) of_nat ''home'' ''secret'' ready_wifi = Some (- 3, t) \<and>
     current_state (wifi_dev t) = WIFI_STATE_READY"
    using outcomes [OF nul, of ready_wifi "answering (- 1)"] by (auto simp: ready_wifi_simps)
  moreover have "(\<exists>t. wifi_connect (answering 0) of_nat ''home'' ''secret'' ready_wifi = Some (0, t) \<and>
     current_state (wifi_dev t) = WIFI_STATE_CONNECTED \<and> wifi_ip (wifi_dev t) = [192, 168, 1, 100]) \<and>
   wifi_connect (answering 0) (\<lambda>_. 7) ''home'' ''secret'' ready_wifi = None"
    using outcomes [OF nul, of ready_wifi "answering 0"] by (auto simp: ready_wifi_simps)
  ultimately show ?thesis by blast
qed

end
