(* ===== verification/AuditLog.thy ===== *)
theory AuditLog
  imports Process
begin

text \<open>
  The security audit log, \<^verbatim>\<open>src/security/audit.c\<close>: a heap block of 1024 events of which the
  first \<^verbatim>\<open>audit_count\<close> are in use, oldest first. A log entry whose level lies above the
  current one is dropped; a full log loses its oldest event. Event types and levels are the
  numbers of the two enumerations, since the code compares levels by size and gives the type 0,
  which is no enumerator, a meaning of its own.
\<close>

section \<open>State\<close>

abbreviation AUDIT_LOGIN :: u32 where "AUDIT_LOGIN \<equiv> 1"
abbreviation AUDIT_LOGOUT :: u32 where "AUDIT_LOGOUT \<equiv> 2"
abbreviation AUDIT_FILE_ACCESS :: u32 where "AUDIT_FILE_ACCESS \<equiv> 3"
abbreviation AUDIT_PROCESS_CREATE :: u32 where "AUDIT_PROCESS_CREATE \<equiv> 4"
abbreviation AUDIT_PROCESS_EXIT :: u32 where "AUDIT_PROCESS_EXIT \<equiv> 5"
abbreviation AUDIT_NETWORK_ACCESS :: u32 where "AUDIT_NETWORK_ACCESS \<equiv> 6"
abbreviation AUDIT_SECURITY_CHANGE :: u32 where "AUDIT_SECURITY_CHANGE \<equiv> 7"
abbreviation AUDIT_SYSTEM_BOOT :: u32 where "AUDIT_SYSTEM_BOOT \<equiv> 8"
abbreviation AUDIT_SYSTEM_SHUTDOWN :: u32 where "AUDIT_SYSTEM_SHUTDOWN \<equiv> 9"
abbreviation AUDIT_USER_ADMIN :: u32 where "AUDIT_USER_ADMIN \<equiv> 10"

abbreviation AUDIT_LEVEL_NONE :: u32 where "AUDIT_LEVEL_NONE \<equiv> 0"
abbreviation AUDIT_LEVEL_ERROR :: u32 where "AUDIT_LEVEL_ERROR \<equiv> 1"
abbreviation AUDIT_LEVEL_WARNING :: u32 where "AUDIT_LEVEL_WARNING \<equiv> 2"
abbreviation AUDIT_LEVEL_INFO :: u32 where "AUDIT_LEVEL_INFO \<equiv> 3"
abbreviation AUDIT_LEVEL_VERBOSE :: u32 where "AUDIT_LEVEL_VERBOSE \<equiv> 4"

record audit_event =
  event_id :: u32
  timestamp :: u32
  ev_type :: u32
  ev_level :: u32
  ev_user :: u32
  ev_message :: "char list"

text \<open>\<open>audit_logs\<close> is the pointer, \<open>audit_events\<close> the contents of the block it points to.\<close>

record kaudit = kproc +
  audit_logs :: u32
  audit_events :: "audit_event list"
  audit_count :: u32
  next_event_id :: u32
  audit_level :: u32

definition MAX_AUDIT_LOGS :: nat where
  "MAX_AUDIT_LOGS = 1024"

definition AUDIT_EVENT_SIZE :: u32 where
  "AUDIT_EVENT_SIZE = 276"

section \<open>Recording\<close>

text \<open>\<^verbatim>\<open>for (i = 1; i < MAX_AUDIT_LOGS; i++) audit_logs[i-1] = audit_logs[i];\<close>\<close>

definition drop_oldest :: "audit_event list \<Rightarrow> audit_event list" where
  "drop_oldest evs = fold (\<lambda>i es. es[i - 1 := es ! i]) [1..<MAX_AUDIT_LOGS] evs"

definition audit_log :: "u32 \<Rightarrow> u32 \<Rightarrow> u32 \<Rightarrow> string \<Rightarrow> 'a kaudit_scheme \<Rightarrow>
    (int \<times> 'a kaudit_scheme) option" where
  "audit_log event_type level user_id message s =
     (if audit_level s < level \<or> audit_level s = AUDIT_LEVEL_NONE then Some (0, s)
      else if audit_logs s = 0 then Some (- 1, s)
      else
        let s1 = (if of_nat MAX_AUDIT_LOGS \<le> audit_count s
              then s\<lparr>audit_events := drop_oldest (audit_events s),
                audit_count := of_nat MAX_AUDIT_LOGS - 1\<rparr>
              else s);
            at = unat (audit_count s1)
        in do {
          ev \<leftarrow> arr_get (audit_events s1) at;
          msg \<leftarrow> copy_cstr 255 message (ev_message ev);
          evs \<leftarrow> arr_set (audit_events s1) at
            (ev\<lparr>event_id := next_event_id s1, timestamp := get_tick_count s1,
              ev_type := event_type, ev_level := level, ev_user := user_id, ev_message := msg\<rparr>);
          Some (0, s1\<lparr>audit_events := evs, next_event_id := next_event_id s1 + 1,
            audit_count := audit_count s1 + 1\<rparr>)
        })"

text \<open>\<open>junk\<close> is what the fresh block holds.\<close>

definition audit_init :: "audit_event list \<Rightarrow> 'a kaudit_scheme \<Rightarrow> 'a kaudit_scheme option" where
  "audit_init junk s =
     (let s1 = puts (''security audit init started'' @ newline) s;
          (p, s2) = kmalloc (AUDIT_EVENT_SIZE * of_nat MAX_AUDIT_LOGS) s1;
          s3 = s2\<lparr>audit_logs := p, audit_events := junk\<rparr>
      in if p = 0
         then Some (puts (''ERROR: audit log buffer not allocated!'' @ newline) s3)
         else do {
           (_, s4) \<leftarrow> audit_log AUDIT_SYSTEM_BOOT AUDIT_LEVEL_INFO 0 ''system started''
             (s3\<lparr>audit_count := 0, next_event_id := 1\<rparr>);
           Some (puts (''security audit init completed'' @ newline) s4)
         })"

definition level_name :: "u32 \<Rightarrow> string" where
  "level_name level =
     (if level = AUDIT_LEVEL_NONE then ''NONE (Disabled)''
      else if level = AUDIT_LEVEL_ERROR then ''ERROR (Only errors)''
      else if level = AUDIT_LEVEL_WARNING then ''WARNING (Errors and warnings)''
      else if level = AUDIT_LEVEL_INFO then ''INFO (Information, errors and warnings)''
      else ''VERBOSE (All events)'')"

definition audit_set_level :: "u32 \<Rightarrow> 'a kaudit_scheme \<Rightarrow> 'a kaudit_scheme option" where
  "audit_set_level level s =
     (if level \<le> AUDIT_LEVEL_VERBOSE
      then let s1 = puts newline (puts (level_name level)
            (puts ''audit level set to: '' (s\<lparr>audit_level := level\<rparr>)))
        in map_option snd (audit_log AUDIT_SECURITY_CHANGE AUDIT_LEVEL_INFO 0
          ''Denetim seviyesi degistirildi'' s1)
      else Some s)"

section \<open>Viewing and searching\<close>

text \<open>
  \<^verbatim>\<open>terminal_printf\<close> prints its format and none of its arguments, so the names of type and
  level that the loop selects do not reach the terminal.
\<close>

definition log_format :: string where
  "log_format = ''%3d | %7d | %4s | %6s | %9d | %s'' @ newline"

fun view_from :: "u32 \<Rightarrow> u32 \<Rightarrow> audit_event list \<Rightarrow> u32 \<Rightarrow> 'a console_scheme \<Rightarrow>
    u32 \<times> 'a console_scheme" where
  "view_from start_id n [] displayed s = (displayed, s)"
| "view_from start_id n (ev # evs) displayed s =
     (if displayed < n
      then if event_id ev < start_id then view_from start_id n evs displayed s
        else view_from start_id n evs (displayed + 1) (emit (Printf log_format) s)
      else (displayed, s))"

definition audit_view_logs :: "u32 \<Rightarrow> u32 \<Rightarrow> 'a kaudit_scheme \<Rightarrow> int \<times> 'a kaudit_scheme" where
  "audit_view_logs start_id n s =
     (if audit_logs s = 0 \<or> audit_count s = 0
      then (- 1, puts (''Denetim kaydi bulunamadi.'' @ newline) s)
      else
        let s1 = puts (''ID  | ZAMAN   | TUR  | SEVIYE | KULLANICI | MESAJ'' @ newline) s;
            s2 = puts (''----+---------+------+--------+-----------+------------------------''
              @ newline) s1;
            (displayed, s3) = view_from start_id n (take (unat (audit_count s)) (audit_events s)) 0 s2
        in if displayed = 0
           then (- 1, puts (''No audit records found matching the specified criteria.'' @ newline) s3)
           else (sint displayed, s3))"

definition event_matches :: "u32 \<Rightarrow> u32 \<Rightarrow> audit_event \<Rightarrow> bool" where
  "event_matches ty user_id ev \<longleftrightarrow>
     (ty = 0 \<or> ev_type ev = ty) \<and> (user_id = 0 \<or> ev_user ev = user_id)"

fun find_from :: "u32 \<Rightarrow> u32 \<Rightarrow> u32 \<Rightarrow> audit_event list \<Rightarrow> nat \<Rightarrow> u32 list \<Rightarrow>
    (nat \<times> u32 list) option" where
  "find_from ty user_id max_results [] found results = Some (found, results)"
| "find_from ty user_id max_results (ev # evs) found results =
     (if found < unat max_results
      then if event_matches ty user_id ev
        then arr_set results found (event_id ev) \<bind>
          find_from ty user_id max_results evs (Suc found)
        else find_from ty user_id max_results evs found results
      else Some (found, results))"

text \<open>\<open>results\<close> is the caller's array, or \<^const>\<open>None\<close> for a null pointer.\<close>

definition audit_find_events :: "u32 \<Rightarrow> u32 \<Rightarrow> u32 list option \<Rightarrow> u32 \<Rightarrow> 'a kaudit_scheme \<Rightarrow>
    (int \<times> u32 list option) option" where
  "audit_find_events ty user_id results max_results s =
     (if audit_logs s = 0 \<or> audit_count s = 0 then Some (- 1, results)
      else case results of
        None \<Rightarrow> Some (- 1, None)
      | Some r \<Rightarrow> map_option (\<lambda>(found, r'). (int found, Some r'))
          (find_from ty user_id max_results (take (unat (audit_count s)) (audit_events s)) 0 r))"

section \<open>The log as a list\<close>

definition audit_ok :: "'a kaudit_scheme \<Rightarrow> bool" where
  "audit_ok s \<longleftrightarrow> audit_logs s \<noteq> 0 \<and> length (audit_events s) = MAX_AUDIT_LOGS \<and>
     unat (audit_count s) \<le> MAX_AUDIT_LOGS \<and>
     (\<forall>ev \<in> set (audit_events s). length (ev_message ev) = 256)"

text \<open>An event with its message read as a string.\<close>

type_synonym entry = "u32 \<times> u32 \<times> u32 \<times> u32 \<times> u32 \<times> string"

definition entry_of :: "audit_event \<Rightarrow> entry" where
  "entry_of ev = (event_id ev, timestamp ev, ev_type ev, ev_level ev, ev_user ev,
     cstr (ev_message ev))"

definition entries :: "'a kaudit_scheme \<Rightarrow> entry list" where
  "entries s = map entry_of (take (unat (audit_count s)) (audit_events s))"

definition newest :: "nat \<Rightarrow> 'x list \<Rightarrow> 'x list" where
  "newest n xs = drop (length xs - n) xs"

lemma newest_short [simp]: "length xs \<le> n \<Longrightarrow> newest n xs = xs"
  by (simp add: newest_def)

lemma newest_newest: "newest n (newest n xs @ ys) = newest n (xs @ ys)"
proof (cases "length xs \<le> n")
  case False
  then show ?thesis by (auto simp: newest_def add.commute)
qed simp

lemma length_newest: "length (newest n xs) = min n (length xs)"
  by (simp add: newest_def)

lemma drop_oldest_steps:
  "k \<le> n \<Longrightarrow> n < length evs \<Longrightarrow>
    fold (\<lambda>i es. es[i - 1 := es ! i]) [1..<Suc k] evs
      = take k (tl evs) @ drop k evs"
proof (induction k)
  case 0
  then show ?case by simp
next
  case (Suc k)
  then obtain x xs where evs: "evs = x # xs" by (cases evs) auto
  from Suc have "fold (\<lambda>i es. es[i - 1 := es ! i]) [1..<Suc (Suc k)] evs
      = (take k (tl evs) @ drop k evs)[k := (take k (tl evs) @ drop k evs) ! Suc k]"
    by simp
  also have "(take k (tl evs) @ drop k evs) ! Suc k = evs ! Suc k"
    using Suc.prems by (simp add: nth_append evs)
  also have "(take k (tl evs) @ drop k evs)[k := evs ! Suc k]
      = take (Suc k) (tl evs) @ drop (Suc k) evs"
  proof -
    have "drop k evs = evs ! k # drop (Suc k) evs"
      using Suc.prems by (simp add: Cons_nth_drop_Suc)
    then show ?thesis
      using Suc.prems by (simp add: evs list_update_append take_Suc_conv_app_nth)
  qed
  finally show ?case .
qed

lemma drop_oldest_eq:
  assumes "length evs = MAX_AUDIT_LOGS"
  shows "drop_oldest evs = tl evs @ [last evs]"
proof -
  have "drop_oldest evs = take 1023 (tl evs) @ drop 1023 evs"
    using drop_oldest_steps [of 1023 1023 evs] assms
    by (simp add: drop_oldest_def MAX_AUDIT_LOGS_def del: upt_Suc upt_rec_numeral)
  moreover have "drop 1023 evs = [last evs]"
  proof -
    have "drop 1023 evs = evs ! 1023 # drop (Suc 1023) evs"
      using assms by (intro Cons_nth_drop_Suc [symmetric]) (simp add: MAX_AUDIT_LOGS_def)
    moreover have "last evs = evs ! 1023"
      using assms by (subst last_conv_nth) (auto simp: MAX_AUDIT_LOGS_def)
    ultimately show ?thesis using assms by (simp add: MAX_AUDIT_LOGS_def)
  qed
  ultimately show ?thesis using assms by (simp add: MAX_AUDIT_LOGS_def)
qed


lemma copy_message:
  assumes "NUL \<notin> set msg" "length buf = 256"
  obtains b where "copy_cstr 255 msg buf = Some b" "length b = 256" "cstr b = take 255 msg"
  using copy_cstr_cstr [OF assms(1), of 255 buf] assms(2) by auto

text \<open>The two halves of \<^verbatim>\<open>audit_log\<close>: making room, and storing the event.\<close>

definition make_room :: "'a kaudit_scheme \<Rightarrow> 'a kaudit_scheme" where
  "make_room s =
     (if of_nat MAX_AUDIT_LOGS \<le> audit_count s
      then s\<lparr>audit_events := drop_oldest (audit_events s),
        audit_count := of_nat MAX_AUDIT_LOGS - 1\<rparr>
      else s)"

lemma make_room_ok:
  assumes "audit_ok s"
  shows "audit_ok (make_room s)" "unat (audit_count (make_room s)) < MAX_AUDIT_LOGS"
    "entries (make_room s) = newest (MAX_AUDIT_LOGS - 1) (entries s)"
    "next_event_id (make_room s) = next_event_id s" "tick_count (make_room s) = tick_count s"
    "audit_level (make_room s) = audit_level s"
proof -
  have len: "length (audit_events s) = MAX_AUDIT_LOGS"
    and le: "unat (audit_count s) \<le> MAX_AUDIT_LOGS"
    and msgs: "\<forall>ev \<in> set (audit_events s). length (ev_message ev) = 256"
    using assms by (simp_all add: audit_ok_def)
  have full: "of_nat MAX_AUDIT_LOGS \<le> audit_count s \<longleftrightarrow> unat (audit_count s) = MAX_AUDIT_LOGS"
    using le by (auto simp: MAX_AUDIT_LOGS_def word_le_nat_alt)
  have "audit_events s \<noteq> []" using len by (auto simp: MAX_AUDIT_LOGS_def)
  then have sub: "set (drop_oldest (audit_events s)) \<subseteq> set (audit_events s)"
    and len': "length (drop_oldest (audit_events s)) = MAX_AUDIT_LOGS"
    using len by (auto simp: drop_oldest_eq MAX_AUDIT_LOGS_def dest: list.set_sel(2))
  show "audit_ok (make_room s)"
    using assms msgs sub len'
    by (auto simp: audit_ok_def make_room_def MAX_AUDIT_LOGS_def)
  show "unat (audit_count (make_room s)) < MAX_AUDIT_LOGS"
    using le full by (auto simp: make_room_def MAX_AUDIT_LOGS_def)
  show "entries (make_room s) = newest (MAX_AUDIT_LOGS - 1) (entries s)"
  proof (cases "unat (audit_count s) = MAX_AUDIT_LOGS")
    case True
    then have "entries (make_room s) = map entry_of (take 1023 (tl (audit_events s)))"
      using len full [THEN iffD2, OF True]
      by (simp add: make_room_def entries_def drop_oldest_eq MAX_AUDIT_LOGS_def)
    moreover have "newest (MAX_AUDIT_LOGS - 1) (entries s) = map entry_of (tl (audit_events s))"
      using True len by (simp add: newest_def entries_def MAX_AUDIT_LOGS_def drop_Suc drop_map)
    ultimately show ?thesis using len by (simp add: MAX_AUDIT_LOGS_def)
  next
    case False
    with le len show ?thesis by (simp add: make_room_def full newest_def entries_def)
  qed
qed (simp_all add: make_room_def)

lemma audit_log_records:
  assumes ok: "audit_ok s" and msg: "NUL \<notin> set msg"
    and lv: "lv \<le> audit_level s" "audit_level s \<noteq> 0"
  obtains t where "audit_log ty lv uid msg s = Some (0, t)" "audit_ok t"
    "entries t = newest MAX_AUDIT_LOGS (entries s @
      [(next_event_id s, tick_count s, ty, lv, uid, take 255 msg)])"
    "next_event_id t = next_event_id s + 1" "tick_count t = tick_count s"
    "audit_level t = audit_level s"
proof -
  let ?r = "make_room s" and ?n = "unat (audit_count (make_room s))"
  note room = make_room_ok [OF ok]
  have len: "length (audit_events ?r) = MAX_AUDIT_LOGS" and ptr: "audit_logs s \<noteq> 0"
    and msgs: "\<forall>ev \<in> set (audit_events ?r). length (ev_message ev) = 256"
    using ok room(1) by (simp_all add: audit_ok_def)
  have n: "?n < length (audit_events ?r)" using room(2) len by simp
  let ?ev = "audit_events ?r ! ?n"
  obtain b where b: "copy_cstr 255 msg (ev_message ?ev) = Some b" "length b = 256"
    "cstr b = take 255 msg"
    using copy_message [OF msg, of "ev_message ?ev"] msgs n by auto
  let ?new = "?ev\<lparr>event_id := next_event_id ?r, timestamp := get_tick_count ?r, ev_type := ty,
    ev_level := lv, ev_user := uid, ev_message := b\<rparr>"
  let ?t = "?r\<lparr>audit_events := (audit_events ?r)[?n := ?new],
    next_event_id := next_event_id ?r + 1, audit_count := audit_count ?r + 1\<rparr>"
  have cnt: "unat (audit_count ?r + 1) = Suc ?n"
    using room(2) by (simp add: unat_word_ariths MAX_AUDIT_LOGS_def)
  have "audit_log ty lv uid msg s = Some (0, ?t)"
    using lv ptr n b(1) by (simp add: audit_log_def Let_def make_room_def [symmetric])
  moreover have "audit_ok ?t"
    using room(1,2) msgs b(2) cnt by (auto simp: audit_ok_def dest!: set_update_subset_insert [THEN subsetD])
  moreover have "entries ?t = newest MAX_AUDIT_LOGS (entries s @
      [(next_event_id s, tick_count s, ty, lv, uid, take 255 msg)])"
  proof -
    have "entries ?t = entries ?r @ [entry_of ?new]"
      using n cnt by (simp add: entries_def take_Suc_conv_app_nth)
    also have "\<dots> = newest (MAX_AUDIT_LOGS - 1) (entries s) @
        [(next_event_id s, tick_count s, ty, lv, uid, take 255 msg)]"
      using b(3) room by (simp add: entry_of_def get_tick_count_def)
    finally show ?thesis by (simp add: newest_def MAX_AUDIT_LOGS_def)
  qed
  ultimately show ?thesis using that room by simp
qed

lemma audit_log_skips:
  "audit_level s < lv \<or> audit_level s = 0 \<Longrightarrow> audit_log ty lv uid msg s = Some (0, s)"
  by (simp add: audit_log_def)

text \<open>
  A sequence of calls, each with the tick at which it happens.
\<close>

type_synonym request = "u32 \<times> u32 \<times> u32 \<times> u32 \<times> string"

fun log_all :: "request list \<Rightarrow> 'a kaudit_scheme \<Rightarrow> 'a kaudit_scheme option" where
  "log_all [] s = Some s"
| "log_all ((tick, ty, lv, uid, msg) # rs) s =
     audit_log ty lv uid msg (s\<lparr>tick_count := tick\<rparr>) \<bind> (\<lambda>(_, t). log_all rs t)"

fun recorded :: "u32 \<Rightarrow> u32 \<Rightarrow> request list \<Rightarrow> entry list" where
  "recorded level n [] = []"
| "recorded level n ((tick, ty, lv, uid, msg) # rs) =
     (if level \<noteq> 0 \<and> lv \<le> level
      then (n, tick, ty, lv, uid, take 255 msg) # recorded level (n + 1) rs
      else recorded level n rs)"

lemma audit_ok_tick [simp]: "audit_ok (s\<lparr>tick_count := k\<rparr>) = audit_ok s"
  "entries (s\<lparr>tick_count := k\<rparr>) = entries s"
  by (simp_all add: audit_ok_def entries_def)

lemma log_all_effect:
  assumes "audit_ok s" "\<forall>(tick, ty, lv, uid, msg) \<in> set rs. NUL \<notin> set msg"
  shows "\<exists>t. log_all rs s = Some t \<and> audit_ok t \<and>
    entries t = newest MAX_AUDIT_LOGS (entries s @ recorded (audit_level s) (next_event_id s) rs)"
  using assms
proof (induction rs arbitrary: s)
  case Nil
  then have "length (entries s) \<le> MAX_AUDIT_LOGS" by (simp add: entries_def audit_ok_def)
  with Nil show ?case by simp
next
  case (Cons r rs)
  obtain tick ty lv uid msg where r: "r = (tick, ty, lv, uid, msg)" by (cases r) auto
  let ?s = "s\<lparr>tick_count := tick\<rparr>"
  from Cons.prems r have msg: "NUL \<notin> set msg" and ok: "audit_ok ?s"
    and rest: "\<forall>(tick, ty, lv, uid, msg) \<in> set rs. NUL \<notin> set msg" by auto
  show ?case
  proof (cases "lv \<le> audit_level s \<and> audit_level s \<noteq> 0")
    case True
    then obtain t where t: "audit_log ty lv uid msg ?s = Some (0, t)" "audit_ok t"
      "entries t = newest MAX_AUDIT_LOGS (entries s @ [(next_event_id s, tick, ty, lv, uid, take 255 msg)])"
      "next_event_id t = next_event_id s + 1" "audit_level t = audit_level s"
      using audit_log_records [OF ok msg, of lv ty uid] by auto
    from Cons.IH [OF t(2) rest] t True r show ?thesis by (simp add: newest_newest)
  next
    case False
    then have "audit_log ty lv uid msg ?s = Some (0, ?s)" by (intro audit_log_skips) auto
    with Cons.IH [OF ok rest] False r show ?thesis by auto
  qed
qed

lemma find_from_eq:
  assumes "unat mx \<le> length results" "found \<le> unat mx"
  shows "\<exists>r. find_from ty u mx evs found results =
      Some (found + length (take (unat mx - found) (filter (event_matches ty u) evs)), r) \<and>
    length r = length results \<and>
    take (found + length (take (unat mx - found) (filter (event_matches ty u) evs))) r =
      take found results @ map event_id (take (unat mx - found) (filter (event_matches ty u) evs))"
  using assms
proof (induction evs arbitrary: found results)
  case Nil
  then show ?case by simp
next
  case (Cons ev evs)
  show ?case
  proof (cases "found < unat mx \<and> event_matches ty u ev")
    case True
    then have less: "found < length results" using Cons.prems by simp
    from Cons.IH [of "results[found := event_id ev]" "Suc found"] Cons.prems True less
    obtain r where r: "find_from ty u mx evs (Suc found) (results[found := event_id ev]) =
        Some (Suc found + length (take (unat mx - Suc found) (filter (event_matches ty u) evs)), r)"
      "length r = length results"
      "take (Suc found + length (take (unat mx - Suc found) (filter (event_matches ty u) evs))) r =
        take (Suc found) (results[found := event_id ev]) @
        map event_id (take (unat mx - Suc found) (filter (event_matches ty u) evs))"
      by auto
    have "unat mx - found = Suc (unat mx - Suc found)" using True by auto
    moreover have "take (Suc found) (results[found := event_id ev]) = take found results @ [event_id ev]"
      using less by (simp add: take_Suc_conv_app_nth)
    ultimately show ?thesis using r True less by (simp add: add.commute)
  next
    case False
    then consider "\<not> found < unat mx" | "found < unat mx" "\<not> event_matches ty u ev" by blast
    then show ?thesis
    proof cases
      case 1
      then show ?thesis using Cons.prems by simp
    next
      case 2
      with Cons.IH [OF Cons.prems] show ?thesis by simp
    qed
  qed
qed


section \<open>Properties\<close>

lemma filter_entry_of:
  "map fst (filter (\<lambda>(i, w, t, l, v, m). (ty = 0 \<or> t = ty) \<and> (u = 0 \<or> v = u)) (map entry_of evs))
    = map event_id (filter (event_matches ty u) evs)"
  unfolding event_matches_def [abs_def] by (simp add: filter_map comp_def entry_of_def)

text \<open>
  C8: the log holds the newest 1024 of the entries its calls have recorded, in order, whatever
  the sequence of calls: a call records its entry, under the next identifier, with its tick and
  the first 255 characters of its message, exactly when its level is at most the current one and
  logging is not off, and a full log loses its oldest entry. A search of the log with room for
  \<open>mx\<close> results delivers the identifiers of the first \<open>mx\<close> entries of the given type and user,
  0 standing for any.
\<close>

theorem audit_log_keeps_newest:
  assumes "audit_ok s" "\<forall>(tick, ty, lv, uid, msg) \<in> set rs. NUL \<notin> set msg"
    "unat mx \<le> length buf"
  shows "\<exists>t. log_all rs s = Some t \<and> audit_ok t \<and>
    entries t = newest 1024 (entries s @ recorded (audit_level s) (next_event_id s) rs) \<and>
    (let ids = take (unat mx) (map fst (filter
         (\<lambda>(i, w, t, l, v, m). (ty = 0 \<or> t = ty) \<and> (u = 0 \<or> v = u)) (entries t)))
     in entries t \<noteq> [] \<longrightarrow> (\<exists>r. audit_find_events ty u (Some buf) mx t = Some (int (length ids), Some r)
          \<and> take (length ids) r = ids))"
proof -
  obtain t where t: "log_all rs s = Some t" "audit_ok t"
    "entries t = newest MAX_AUDIT_LOGS (entries s @ recorded (audit_level s) (next_event_id s) rs)"
    using log_all_effect [OF assms(1,2)] by blast
  let ?evs = "take (unat (audit_count t)) (audit_events t)"
  let ?ids = "take (unat mx) (map fst (filter
         (\<lambda>(i, w, t, l, v, m). (ty = 0 \<or> t = ty) \<and> (u = 0 \<or> v = u)) (entries t)))"
  have ids: "?ids = map event_id (take (unat mx) (filter (event_matches ty u) ?evs))"
    unfolding entries_def filter_entry_of by (simp add: take_map)
  have find: "\<exists>r. audit_find_events ty u (Some buf) mx t = Some (int (length ?ids), Some r)
      \<and> take (length ?ids) r = ?ids" if "entries t \<noteq> []"
  proof -
    from that have "audit_count t \<noteq> 0" by (auto simp: entries_def)
    with t(2) find_from_eq [OF assms(3), of 0 ty u ?evs]
    show ?thesis unfolding ids by (auto simp: audit_find_events_def audit_ok_def)
  qed
  have "entries t = newest 1024 (entries s @ recorded (audit_level s) (next_event_id s) rs)"
    using t(3) by (simp add: MAX_AUDIT_LOGS_def)
  with t(1,2) find show ?thesis unfolding Let_def by blast
qed

text \<open>A machine with an empty log at the level for information.\<close>

definition kaudit0 :: kaudit where
  "kaudit0 = kproc.extend kproc0 \<lparr>audit_logs = 0x200000,
     audit_events = replicate 1024 \<lparr>event_id = 0, timestamp = 0, ev_type = 0, ev_level = 0,
       ev_user = 0, ev_message = replicate 256 NUL\<rparr>,
     audit_count = 0, next_event_id = 1, audit_level = 3\<rparr>"

lemma kaudit0_fields [simp]: "audit_count kaudit0 = 0" "audit_level kaudit0 = 3"
  "next_event_id kaudit0 = 1"
  by (simp_all add: kaudit0_def kproc.defs)

lemma audit_ok_kaudit0: "audit_ok kaudit0" and entries_kaudit0: "entries kaudit0 = []"
  by (simp_all add: audit_ok_def entries_def kaudit0_def kproc.defs MAX_AUDIT_LOGS_def)

theorem audit_log_keeps_newest_witness:
  "\<exists>t. log_all [(7, AUDIT_LOGIN, 3, 5, ''root''), (8, AUDIT_LOGIN, 4, 5, ''dropped''),
      (9, AUDIT_LOGOUT, 1, 5, ''bye'')] kaudit0 = Some t \<and>
    entries t = [(1, 7, AUDIT_LOGIN, 3, 5, ''root''), (2, 9, AUDIT_LOGOUT, 1, 5, ''bye'')] \<and>
    (\<exists>r. audit_find_events AUDIT_LOGOUT 0 (Some [0, 0, 0]) 2 t = Some (1, Some r) \<and> take 1 r = [2])"
proof -
  let ?rs = "[(7, AUDIT_LOGIN, 3, 5, ''root''), (8, AUDIT_LOGIN, 4, 5, ''dropped''),
      (9, AUDIT_LOGOUT, 1, 5, ''bye'')] :: request list"
  have rec: "recorded 3 1 ?rs
      = [(1, 7, AUDIT_LOGIN, 3, 5, ''root''), (2, 9, AUDIT_LOGOUT, 1, 5, ''bye'')]"
    by simp
  show ?thesis
    using audit_log_keeps_newest [OF audit_ok_kaudit0, of ?rs 2 "[0, 0, 0]" AUDIT_LOGOUT 0]
    by (auto simp: entries_kaudit0 rec Let_def)
qed

end
