(* ===== verification/Crypto.thy ===== *)
theory Crypto
  imports Heap
begin

text \<open>
  The toy ciphers of \<^verbatim>\<open>src/security/crypto.c\<close>: keys and contexts on the kernel heap, a store of
  at most 16 key pointers, XOR and Caesar encryption of byte buffers, and a 32-byte checksum.
  Buffers, key bytes and the checksum are ranges of memory, so that the loops see the writes
  they make when the caller's buffers overlap. Algorithms are the numbers of the enumeration,
  which the code compares by size.
\<close>

section \<open>State\<close>

abbreviation CRYPTO_NONE :: u32 where "CRYPTO_NONE \<equiv> 0"
abbreviation CRYPTO_XOR :: u32 where "CRYPTO_XOR \<equiv> 1"
abbreviation CRYPTO_CAESAR :: u32 where "CRYPTO_CAESAR \<equiv> 2"
abbreviation CRYPTO_AES :: u32 where "CRYPTO_AES \<equiv> 3"
abbreviation CRYPTO_RSA :: u32 where "CRYPTO_RSA \<equiv> 4"
abbreviation CRYPTO_SHA :: u32 where "CRYPTO_SHA \<equiv> 5"

record crypto_key =
  ck_id :: u32
  ck_type :: u32
  ck_length :: u32
  ck_data :: u32

record crypto_context =
  cc_algorithm :: u32
  cc_key :: u32
  cc_data :: u32

record kcrypto = kmem +
  ckeys :: "u32 \<Rightarrow> crypto_key option"
  cctxs :: "u32 \<Rightarrow> crypto_context option"
  key_store :: "u32 list"
  key_count :: nat
  next_key_id :: u32

definition MAX_CRYPTO_KEYS :: nat where
  "MAX_CRYPTO_KEYS = 16"

definition crypto_init :: "'a kcrypto_scheme \<Rightarrow> 'a kcrypto_scheme" where
  "crypto_init s =
     (let s1 = puts (''crypto init started'' @ newline) s;
          s2 = s1\<lparr>key_store := fold (\<lambda>i ks. ks[i := 0]) [0..<MAX_CRYPTO_KEYS] (key_store s1),
            key_count := 0\<rparr>
      in puts (''crypto init completed'' @ newline) s2)"

section \<open>Ciphers\<close>

text \<open>The loops \<^verbatim>\<open>for (i = 0; i < length; i++) out[i] = f(in[i], i);\<close> over memory.\<close>

definition byte_loop :: "(nat \<Rightarrow> (u32 \<Rightarrow> u8) \<Rightarrow> u8 \<Rightarrow> u8) \<Rightarrow> u32 \<Rightarrow> u32 \<Rightarrow> nat \<Rightarrow> (u32 \<Rightarrow> u8) \<Rightarrow>
    (u32 \<Rightarrow> u8)" where
  "byte_loop f out inp n m =
     fold (\<lambda>i m. m(out + of_nat i := f i m (m (inp + of_nat i)))) [0..<n] m"

text \<open>With a key of length 0 the remainder is undefined, unless there is nothing to process.\<close>

definition crypto_xor_process :: "u32 \<Rightarrow> u32 \<Rightarrow> u32 \<Rightarrow> u32 \<Rightarrow> u32 \<Rightarrow> 'a kcrypto_scheme \<Rightarrow>
    (int \<times> 'a kcrypto_scheme) option" where
  "crypto_xor_process inp out len key key_length s =
     (if key_length = 0 \<and> len \<noteq> 0 then None
      else Some (0, s\<lparr>bytes := byte_loop
        (\<lambda>i m b. b XOR m (key + of_nat i mod key_length)) out inp (unat len) (bytes s)\<rparr>))"

definition crypto_caesar_encrypt :: "u32 \<Rightarrow> u32 \<Rightarrow> u32 \<Rightarrow> u32 \<Rightarrow> u32 \<Rightarrow> 'a kcrypto_scheme \<Rightarrow>
    int \<times> 'a kcrypto_scheme" where
  "crypto_caesar_encrypt inp out len key key_length s =
     (let shift = bytes s key
      in (0, s\<lparr>bytes := byte_loop (\<lambda>i m b. b + shift) out inp (unat len) (bytes s)\<rparr>))"

definition crypto_caesar_decrypt :: "u32 \<Rightarrow> u32 \<Rightarrow> u32 \<Rightarrow> u32 \<Rightarrow> u32 \<Rightarrow> 'a kcrypto_scheme \<Rightarrow>
    int \<times> 'a kcrypto_scheme" where
  "crypto_caesar_decrypt inp out len key key_length s =
     (let shift = bytes s key
      in (0, s\<lparr>bytes := byte_loop (\<lambda>i m b. b - shift) out inp (unat len) (bytes s)\<rparr>))"

definition crypto_encrypt :: "u32 \<Rightarrow> u32 \<Rightarrow> u32 \<Rightarrow> u32 \<Rightarrow> 'a kcrypto_scheme \<Rightarrow>
    (int \<times> 'a kcrypto_scheme) option" where
  "crypto_encrypt ctx inp out len s =
     (if ctx = 0 then Some (- 1, s)
      else do {
        c \<leftarrow> cctxs s ctx;
        if cc_key c = 0 \<or> inp = 0 \<or> out = 0 then Some (- 1, s)
        else if cc_algorithm c = CRYPTO_XOR
        then do { k \<leftarrow> ckeys s (cc_key c);
          crypto_xor_process inp out len (ck_data k) (ck_length k) s }
        else if cc_algorithm c = CRYPTO_CAESAR
        then do { k \<leftarrow> ckeys s (cc_key c);
          Some (crypto_caesar_encrypt inp out len (ck_data k) (ck_length k) s) }
        else if cc_algorithm c = CRYPTO_AES \<or> cc_algorithm c = CRYPTO_RSA
        then Some (- 2, puts (''ERROR: AES and RSA not supported yet.'' @ newline) s)
        else Some (- 3, s)
      })"

definition crypto_decrypt :: "u32 \<Rightarrow> u32 \<Rightarrow> u32 \<Rightarrow> u32 \<Rightarrow> 'a kcrypto_scheme \<Rightarrow>
    (int \<times> 'a kcrypto_scheme) option" where
  "crypto_decrypt ctx inp out len s =
     (if ctx = 0 then Some (- 1, s)
      else do {
        c \<leftarrow> cctxs s ctx;
        if cc_key c = 0 \<or> inp = 0 \<or> out = 0 then Some (- 1, s)
        else if cc_algorithm c = CRYPTO_XOR
        then do { k \<leftarrow> ckeys s (cc_key c);
          crypto_xor_process inp out len (ck_data k) (ck_length k) s }
        else if cc_algorithm c = CRYPTO_CAESAR
        then do { k \<leftarrow> ckeys s (cc_key c);
          Some (crypto_caesar_decrypt inp out len (ck_data k) (ck_length k) s) }
        else if cc_algorithm c = CRYPTO_AES \<or> cc_algorithm c = CRYPTO_RSA
        then Some (- 2, puts (''ERROR: AES and RSA not supported yet.'' @ newline) s)
        else Some (- 3, s)
      })"

section \<open>Checksum\<close>

text \<open>
  The shift of the 32 bytes by one bit, every eighth byte: the last step reads byte 0, which
  the loop has already shifted.
\<close>

definition hash_shift :: "u32 \<Rightarrow> (u32 \<Rightarrow> u8) \<Rightarrow> (u32 \<Rightarrow> u8)" where
  "hash_shift h m =
     (let m1 = fold (\<lambda>j m. m(h + of_nat j :=
            push_bit 1 (m (h + of_nat j)) OR drop_bit 7 (m (h + of_nat (j + 1))))) [0..<31] m
      in m1(h + 31 := push_bit 1 (m1 (h + 31)) OR drop_bit 7 (m1 h)))"

definition hash_step :: "u32 \<Rightarrow> u32 \<Rightarrow> nat \<Rightarrow> (u32 \<Rightarrow> u8) \<Rightarrow> (u32 \<Rightarrow> u8)" where
  "hash_step h inp i m =
     (let cell = h + of_nat (i mod 32);
          m1 = m(cell := m cell XOR m (inp + of_nat i))
      in if i mod 8 = 7 then hash_shift h m1 else m1)"

definition crypto_simple_hash :: "u32 \<Rightarrow> u32 \<Rightarrow> u32 \<Rightarrow> 'a kcrypto_scheme \<Rightarrow> int \<times> 'a kcrypto_scheme" where
  "crypto_simple_hash inp len hash s =
     (if inp = 0 \<or> hash = 0 then (- 1, s)
      else (0, s\<lparr>bytes := fold (hash_step hash inp) [0..<unat len] (memset_bytes hash 0 32 (bytes s))\<rparr>))"

definition crypto_hash :: "u32 \<Rightarrow> u32 \<Rightarrow> u32 \<Rightarrow> u32 \<Rightarrow> 'a kcrypto_scheme \<Rightarrow> int \<times> 'a kcrypto_scheme" where
  "crypto_hash algorithm inp len hash s =
     (if inp = 0 \<or> hash = 0 then (- 1, s)
      else if algorithm = CRYPTO_SHA
      then crypto_simple_hash inp len hash
        (puts (''WARNING: SHA not supported yet, using simple hash.'' @ newline) s)
      else crypto_simple_hash inp len hash s)"

section \<open>Keys and contexts\<close>

definition clamp_key_length :: "u32 \<Rightarrow> u32 \<Rightarrow> u32" where
  "clamp_key_length algorithm len =
     (if algorithm = CRYPTO_XOR
      then let l1 = (if len < 4 then 4 else len) in (if 32 < l1 then 32 else l1)
      else if algorithm = CRYPTO_CAESAR then 1 else len)"

text \<open>\<open>k = 0\<close> is the null pointer.\<close>

definition crypto_generate_key :: "u32 \<Rightarrow> u32 \<Rightarrow> 'a kcrypto_scheme \<Rightarrow>
    (u32 \<times> 'a kcrypto_scheme) option" where
  "crypto_generate_key algorithm key_length s =
     (if algorithm = CRYPTO_NONE \<or> (CRYPTO_AES \<le> algorithm \<and> algorithm \<noteq> CRYPTO_SHA)
      then Some (0, s)
      else let len = clamp_key_length algorithm key_length;
               (k, s1) = kmalloc 16 s
        in if k = 0 then Some (0, s1)
           else let (d, s2) = kmalloc len s1
             in if d = 0 then Some (0, kfree k s2)
                else let n = next_key_id s2;
                         s3 = s2\<lparr>next_key_id := n + 1,
                           ckeys := (ckeys s2)(k \<mapsto> \<lparr>ck_id = n, ck_type = algorithm,
                             ck_length = len, ck_data = d\<rparr>),
                           bytes := byte_loop (\<lambda>i m b. ucast ((of_nat i * 29 + n * 13) mod 256 :: u32))
                             d d (unat len) (bytes s2)\<rparr>
                  in if key_count s3 < MAX_CRYPTO_KEYS
                     then do { ks \<leftarrow> arr_set (key_store s3) (key_count s3) k;
                       Some (k, s3\<lparr>key_store := ks, key_count := key_count s3 + 1\<rparr>) }
                     else Some (k, s3))"

fun find_key :: "u32 \<Rightarrow> u32 list \<Rightarrow> nat \<Rightarrow> nat option" where
  "find_key key [] i = None"
| "find_key key (k # ks) i = (if k = key then Some i else find_key key ks (Suc i))"

definition crypto_destroy_key :: "u32 \<Rightarrow> 'a kcrypto_scheme \<Rightarrow> 'a kcrypto_scheme option" where
  "crypto_destroy_key key s =
     (if key = 0 then Some s
      else ckeys s key \<bind> (\<lambda>k.
        case find_key key (take (key_count s) (key_store s)) 0 of
          Some i \<Rightarrow>
            let s1 = kfree key (kfree (ck_data k) s);
                n = key_count s1 - 1
            in Some (s1\<lparr>key_count := n,
              key_store := (key_store s1)[i := key_store s1 ! n, n := 0]\<rparr>)
        | None \<Rightarrow> Some (kfree key (if ck_data k \<noteq> 0 then kfree (ck_data k) s else s))))"

definition crypto_create_context :: "u32 \<Rightarrow> u32 \<Rightarrow> 'a kcrypto_scheme \<Rightarrow>
    (u32 \<times> 'a kcrypto_scheme) option" where
  "crypto_create_context algorithm key s =
     (if key = 0 then Some (0, s)
      else ckeys s key \<bind> (\<lambda>k.
        if ck_type k \<noteq> algorithm then Some (0, s)
        else let (c, s1) = kmalloc 12 s
          in if c = 0 then Some (0, s1)
             else Some (c, s1\<lparr>cctxs := (cctxs s1)(c \<mapsto>
               \<lparr>cc_algorithm = algorithm, cc_key = key, cc_data = 0\<rparr>)\<rparr>)))"

definition crypto_destroy_context :: "u32 \<Rightarrow> 'a kcrypto_scheme \<Rightarrow> 'a kcrypto_scheme option" where
  "crypto_destroy_context ctx s =
     (if ctx = 0 then Some s
      else cctxs s ctx \<bind> (\<lambda>c.
        Some (kfree ctx (if cc_data c \<noteq> 0 then kfree (cc_data c) s else s))))"

section \<open>Loops over buffers\<close>

text \<open>
  A byte loop whose function reads, besides its byte, only memory outside the destination, and
  whose buffers are either the same or disjoint.
\<close>

definition reads_outside :: "(nat \<Rightarrow> (u32 \<Rightarrow> u8) \<Rightarrow> u8 \<Rightarrow> u8) \<Rightarrow> u32 set \<Rightarrow> bool" where
  "reads_outside f D \<longleftrightarrow> (\<forall>i m m' b. (\<forall>a. a \<notin> D \<longrightarrow> m a = m' a) \<longrightarrow> f i m b = f i m' b)"

lemma byte_loop_Suc:
  "byte_loop f out inp (Suc n) m = (let m1 = byte_loop f out inp n m
    in m1(out + of_nat n := f n m1 (m1 (inp + of_nat n))))"
  by (simp add: byte_loop_def Let_def)

lemma byte_loop_outside: "a \<notin> block out n \<Longrightarrow> byte_loop f out inp n m a = m a"
proof (induction n)
  case 0
  then show ?case by (simp add: byte_loop_def)
next
  case (Suc n)
  then show ?case by (simp add: byte_loop_Suc block_Suc Let_def)
qed

lemma byte_loop_inside:
  assumes "n \<le> 2 ^ 32" "out = inp \<or> block out n \<inter> block inp n = {}"
    "reads_outside f (block out n)" "i < n"
  shows "byte_loop f out inp n m (out + of_nat i) = f i m (m (inp + of_nat i))"
  using assms
proof (induction n)
  case 0
  then show ?case by simp
next
  case (Suc n)
  let ?m = "byte_loop f out inp n m"
  show ?case
  proof (cases "i = n")
    case True
    have "inp + of_nat n \<notin> block out n"
    proof (cases "out = inp")
      case True
      then show ?thesis using Suc.prems(1) in_prefix_block [of n n inp] by simp
    next
      case False
      with Suc.prems(2) show ?thesis by (auto simp: block_Suc)
    qed
    then have "?m (inp + of_nat n) = m (inp + of_nat n)" by (rule byte_loop_outside)
    moreover have "f n ?m b = f n m b" for b
      using Suc.prems(3) byte_loop_outside [of _ out n f inp m]
      unfolding reads_outside_def by (auto simp: block_Suc)
    ultimately show ?thesis using True by (simp add: byte_loop_Suc Let_def)
  next
    case False
    then have "i < n" using Suc.prems(4) by simp
    moreover have "of_nat i \<noteq> (of_nat n :: u32)"
      using False Suc.prems(1,4) by (simp add: of_nat32_eq_iff)
    moreover have "reads_outside f (block out n)"
      using Suc.prems(3) unfolding reads_outside_def by (simp add: block_Suc)
    moreover have "out = inp \<or> block out n \<inter> block inp n = {}"
      using Suc.prems(2) by (auto simp: block_Suc)
    ultimately show ?thesis using Suc by (simp add: byte_loop_Suc Let_def)
  qed
qed

text \<open>
  Processing a buffer with \<open>f\<close> and the result with \<open>g\<close>, which undoes \<open>f\<close> where the two read
  the same memory outside the buffers.
\<close>

lemma byte_loop_round_trip:
  assumes "n \<le> 2 ^ 32" "out = inp \<or> block out n \<inter> block inp n = {}"
    "back = out \<or> block back n \<inter> block out n = {}"
    "reads_outside f (block out n)" "reads_outside g (block back n)"
    and undo: "\<And>i m' b. (\<forall>a. a \<notin> block out n \<longrightarrow> m' a = m a) \<Longrightarrow> g i m' (f i m b) = b"
  shows "read_bytes (byte_loop g back out n (byte_loop f out inp n m)) back n = read_bytes m inp n"
  unfolding read_bytes_def
proof (rule map_cong [OF refl])
  fix i assume "i \<in> set [0..<n]"
  then have i: "i < n" by simp
  let ?m = "byte_loop f out inp n m"
  have "byte_loop g back out n ?m (back + of_nat i) = g i ?m (?m (out + of_nat i))"
    by (rule byte_loop_inside) (use assms i in auto)
  also have "?m (out + of_nat i) = f i m (m (inp + of_nat i))"
    by (rule byte_loop_inside) (use assms i in auto)
  also have "g i ?m \<dots> = m (inp + of_nat i)"
    by (rule undo) (simp add: byte_loop_outside)
  finally show "byte_loop g back out n ?m (back + of_nat i) = m (inp + of_nat i)" .
qed

lemma xor_reads_outside:
  assumes "block key 32 \<inter> D = {}" "0 < kl" "kl \<le> 32"
  shows "reads_outside (\<lambda>i m b. b XOR m (key + of_nat i mod kl)) D"
proof -
  have "key + of_nat i mod kl \<notin> D" for i :: nat
  proof -
    have "unat (of_nat i mod kl) < unat kl"
      using assms(2) word_gt_0 [of kl] by (simp add: unat_mod unat_gt_0)
    moreover have "unat kl \<le> 32" using assms(3) by (simp add: word_le_nat_alt)
    ultimately have "key + of_nat i mod kl \<in> block key 32"
      by (simp add: in_block_iff)
    with assms(1) show ?thesis by blast
  qed
  then show ?thesis by (simp add: reads_outside_def)
qed

section \<open>Properties\<close>

lemma clamp_range:
  assumes "algorithm = CRYPTO_XOR \<or> algorithm = CRYPTO_CAESAR"
  shows "0 < clamp_key_length algorithm len" "clamp_key_length algorithm len \<le> 32"
  using assms by (auto simp: clamp_key_length_def word_less_nat_alt word_le_nat_alt)

text \<open>A key and a context for it, in a state with heap room.\<close>

lemma crypto_context_ready:
  fixes s :: "'a kcrypto_scheme"
  assumes alg: "algorithm = CRYPTO_XOR \<or> algorithm = CRYPTO_CAESAR"
    and heap: "heap_end s \<noteq> 0" "unat (heap_end s) + 60 < 2 ^ 32"
    and store: "length (key_store s) = MAX_CRYPTO_KEYS"
  shows "\<exists>s1 c s2 kl. crypto_generate_key algorithm key_length s = Some (heap_end s, s1) \<and>
    crypto_create_context algorithm (heap_end s) s1 = Some (c, s2) \<and> c \<noteq> 0 \<and>
    cctxs s2 c = Some \<lparr>cc_algorithm = algorithm, cc_key = heap_end s, cc_data = 0\<rparr> \<and>
    map_option ck_data (ckeys s2 (heap_end s)) = Some (heap_end s + 16) \<and>
    map_option ck_length (ckeys s2 (heap_end s)) = Some kl \<and> 0 < kl \<and> kl \<le> 32"
proof -
  let ?kl = "clamp_key_length algorithm key_length"
  note kl = clamp_range [OF alg, of key_length]
  have kl32: "unat ?kl \<le> 32" using kl(2) by (simp add: word_le_nat_alt)
  have d: "heap_end s + 16 \<noteq> 0"
  proof -
    have "unat (heap_end s + 16) = unat (heap_end s) + 16" using heap(2) by (simp add: unat_word_ariths)
    then show ?thesis by (auto simp: unat_eq_0 [symmetric])
  qed
  have c: "heap_end s + 16 + ?kl \<noteq> 0"
  proof -
    have "unat (heap_end s + 16 + ?kl) = unat (heap_end s) + 16 + unat ?kl"
      using heap(2) kl32 by (simp add: unat_word_ariths)
    then show ?thesis by (auto simp: unat_eq_0 [symmetric])
  qed
  have ok: "\<not> (algorithm = CRYPTO_NONE \<or> (CRYPTO_AES \<le> algorithm \<and> algorithm \<noteq> CRYPTO_SHA))"
    using alg by (auto simp: word_le_nat_alt)
  show ?thesis
    using ok d c heap(1) store kl alg
    by (auto simp: crypto_generate_key_def crypto_create_context_def kmalloc_eq Let_def
        MAX_CRYPTO_KEYS_def)
qed

text \<open>
  C28: XOR and Caesar encryption can be undone. With a key from \<^verbatim>\<open>crypto_generate_key\<close> and a
  context from \<^verbatim>\<open>crypto_create_context\<close>, decrypting what \<^verbatim>\<open>crypto_encrypt\<close> has written gives
  the original bytes back, for any requested key length and any amount of data, in place or
  between disjoint buffers, as long as the buffers stay off the 32 bytes of key memory.
\<close>

theorem crypto_round_trip:
  assumes "algorithm = CRYPTO_XOR \<or> algorithm = CRYPTO_CAESAR"
    "heap_end s \<noteq> 0" "unat (heap_end s) + 60 < 2 ^ 32" "length (key_store s) = MAX_CRYPTO_KEYS"
    "inp \<noteq> 0" "out \<noteq> 0" "back \<noteq> 0"
    "out = inp \<or> block out (unat len) \<inter> block inp (unat len) = {}"
    "back = out \<or> block back (unat len) \<inter> block out (unat len) = {}"
    "block (heap_end s + 16) 32 \<inter> (block out (unat len) \<union> block back (unat len)) = {}"
  shows "\<exists>k s1 c s2 s3 s4. crypto_generate_key algorithm key_length s = Some (k, s1) \<and>
    crypto_create_context algorithm k s1 = Some (c, s2) \<and>
    crypto_encrypt c inp out len s2 = Some (0, s3) \<and>
    crypto_decrypt c out back len s3 = Some (0, s4) \<and>
    read_bytes (bytes s4) back (unat len) = read_bytes (bytes s2) inp (unat len)"
proof -
  obtain s1 c kl and s2 :: "'a kcrypto_scheme" where
    made: "crypto_generate_key algorithm key_length s = Some (heap_end s, s1)"
      "crypto_create_context algorithm (heap_end s) s1 = Some (c, s2)" "c \<noteq> 0"
    and ctx: "cctxs s2 c = Some \<lparr>cc_algorithm = algorithm, cc_key = heap_end s, cc_data = 0\<rparr>"
    and key: "map_option ck_data (ckeys s2 (heap_end s)) = Some (heap_end s + 16)"
      "map_option ck_length (ckeys s2 (heap_end s)) = Some kl"
    and kl: "0 < kl" "kl \<le> 32"
    using crypto_context_ready [OF assms(1-4), of key_length] by blast
  let ?n = "unat len" and ?d = "heap_end s + 16"
  have n: "?n \<le> 2 ^ 32" using unat_less32 [of len] by simp
  obtain k where k: "ckeys s2 (heap_end s) = Some k" "ck_data k = ?d" "ck_length k = kl"
    using key by auto
  have dj: "block ?d 32 \<inter> block out ?n = {}" "block ?d 32 \<inter> block back ?n = {}"
    using assms(10) by auto
  have in_key: "?d + x \<in> block ?d 32" if "unat x < 32" for x :: u32
    using that by (simp add: in_block_iff)
  have off: "?d + x \<notin> block out ?n" if "unat x < 32" for x :: u32
    using in_key [OF that] dj(1) by blast
  have "kl \<noteq> 0" using kl(1) by auto
  show ?thesis
  proof (cases "algorithm = CRYPTO_XOR")
    case True
    let ?f = "\<lambda>i m b. b XOR m (?d + of_nat i mod kl)"
    have lt: "unat (of_nat i mod kl) < 32" for i :: nat
    proof -
      have "unat (of_nat i mod kl) < unat kl" using kl(1) by (simp add: unat_mod unat_gt_0 word_gt_0)
      with kl(2) show ?thesis by (simp add: word_le_nat_alt)
    qed
    have "read_bytes (byte_loop ?f back out ?n (byte_loop ?f out inp ?n (bytes s2))) back ?n
        = read_bytes (bytes s2) inp ?n"
      by (rule byte_loop_round_trip [OF n assms(8,9)])
        (use xor_reads_outside [OF dj(1) kl] xor_reads_outside [OF dj(2) kl] off lt in
          \<open>simp_all add: xor.assoc\<close>)
    with made ctx k \<open>kl \<noteq> 0\<close> assms(2,5-7) True show ?thesis
      by (simp add: crypto_encrypt_def crypto_decrypt_def crypto_xor_process_def)
  next
    case False
    then have alg: "algorithm = CRYPTO_CAESAR" using assms(1) by simp
    let ?c = "bytes s2 ?d"
    have same: "byte_loop (\<lambda>i m b. b + ?c) out inp ?n (bytes s2) ?d = ?c"
      using off [of 0] by (intro byte_loop_outside) simp
    have "read_bytes (byte_loop (\<lambda>i m b. b - ?c) back out ?n
        (byte_loop (\<lambda>i m b. b + ?c) out inp ?n (bytes s2))) back ?n = read_bytes (bytes s2) inp ?n"
      by (rule byte_loop_round_trip [OF n assms(8,9)]) (simp_all add: reads_outside_def)
    with made ctx k assms(2,5-7) alg same show ?thesis
      by (simp add: crypto_encrypt_def crypto_decrypt_def crypto_caesar_encrypt_def
          crypto_caesar_decrypt_def Let_def)
  qed
qed

text \<open>A machine with an empty key store.\<close>

definition kcrypto0 :: kcrypto where
  "kcrypto0 = kmem.extend kmem0 \<lparr>ckeys = Map.empty, cctxs = Map.empty,
     key_store = replicate 16 0, key_count = 0, next_key_id = 1\<rparr>"

theorem crypto_round_trip_witness:
  "\<exists>k s1 c s2 s3 s4. crypto_generate_key CRYPTO_XOR 3 kcrypto0 = Some (k, s1) \<and>
    crypto_create_context CRYPTO_XOR k s1 = Some (c, s2) \<and>
    crypto_encrypt c 0x1000 0x1000 8 s2 = Some (0, s3) \<and>
    crypto_decrypt c 0x1000 0x2000 8 s3 = Some (0, s4) \<and>
    read_bytes (bytes s4) 0x2000 (unat (8 :: u32)) = read_bytes (bytes s2) 0x1000 (unat (8 :: u32))"
proof (rule crypto_round_trip)
  have lt: "a \<in> block p k \<Longrightarrow> unat p + k < 2 ^ 32 \<Longrightarrow> unat p \<le> unat a \<and> unat a < unat p + k" for a p k
    using in_block_interval [of p k a] by simp
  show "heap_end kcrypto0 \<noteq> 0" "unat (heap_end kcrypto0) + 60 < 2 ^ 32"
    "length (key_store kcrypto0) = MAX_CRYPTO_KEYS"
    by (simp_all add: kcrypto0_def kmem.defs kmem0_def MAX_CRYPTO_KEYS_def)
  show "(0x2000 :: u32) = 0x1000 \<or>
      block 0x2000 (unat (8 :: u32)) \<inter> block 0x1000 (unat (8 :: u32)) = {}"
    using lt [of _ "0x2000" 8] lt [of _ "0x1000" 8] by fastforce
  show "block (heap_end kcrypto0 + 16) 32 \<inter>
      (block 0x1000 (unat (8 :: u32)) \<union> block 0x2000 (unat (8 :: u32))) = {}"
    using lt [of _ "heap_end kcrypto0 + 16" 32] lt [of _ "0x2000" 8] lt [of _ "0x1000" 8]
    by (fastforce simp: kcrypto0_def kmem.defs kmem0_def)
qed simp_all

end
