(* ===== verification/AesKey.thy ===== *)
theory AesKey
  imports Aes
begin

text \<open>
  The key expansion of \<^verbatim>\<open>aes_init\<close> against the key schedule of FIPS-197: the array holds, word
  by word, the schedule of the standard for all three key sizes, and no access leaves an array.
\<close>

section \<open>The schedule of the standard\<close>

definition sub_word :: "u8 list \<Rightarrow> u8 list" where
  "sub_word ws = map (\<lambda>b. sbox ! unat b) ws"

definition xor_word :: "u8 list \<Rightarrow> u8 list \<Rightarrow> u8 list" where
  "xor_word xs ys = map (\<lambda>j. xs ! j XOR ys ! j) [0..<4]"

text \<open>The round constant: the power \<open>i - 1\<close> of the polynomial \<open>x\<close>, in the first byte.\<close>

definition rcon_word :: "nat \<Rightarrow> u8 list" where
  "rcon_word i = [(xtime ^^ (i - 1)) 1, 0, 0, 0]"

function fips_word :: "u8 list \<Rightarrow> nat \<Rightarrow> nat \<Rightarrow> u8 list" where
  "fips_word key nk w =
     (if w < nk \<or> nk = 0 then take 4 (drop (4 * w) key)
      else
        let prev = fips_word key nk (w - 1);
            temp = (if w mod nk = 0 then xor_word (sub_word (rotate1 prev)) (rcon_word (w div nk))
              else if 6 < nk \<and> w mod nk = 4 then sub_word prev
              else prev)
        in xor_word (fips_word key nk (w - nk)) temp)"
  by pat_completeness auto
termination
  by (relation "measure (\<lambda>(key, nk, w). w)") auto

declare fips_word.simps [simp del]

definition word_at :: "u8 list \<Rightarrow> nat \<Rightarrow> u8 list" where
  "word_at ek w = [ek ! (4 * w), ek ! (4 * w + 1), ek ! (4 * w + 2), ek ! (4 * w + 3)]"

definition schedule_upto :: "u8 list \<Rightarrow> nat \<Rightarrow> nat \<Rightarrow> u8 list \<Rightarrow> bool" where
  "schedule_upto key nk n ek \<longleftrightarrow> length ek = 240 \<and> (\<forall>w < n. word_at ek w = fips_word key nk w)"

section \<open>One pass of the loop\<close>

lemma rcon_powers: "i < 10 \<Longrightarrow> rcon ! i = (xtime ^^ i) 1"
proof -
  have "map (\<lambda>i. (xtime ^^ i) 1) [0..<10] = rcon" by code_simp
  then have "map (\<lambda>i. (xtime ^^ i) 1) [0..<10] ! i = rcon ! i" by simp
  then show "i < 10 \<Longrightarrow> rcon ! i = (xtime ^^ i) 1" by (simp del: upt_rec_numeral)
qed

lemma upt4: "[0..<4] = [0, 1, 2, 3 :: nat]"
  by (simp add: upt_rec)

definition temp_word :: "nat \<Rightarrow> nat \<Rightarrow> u8 list \<Rightarrow> u8 list" where
  "temp_word nk w prev =
     (if w mod nk = 0 then xor_word (sub_word (rotate1 prev)) (rcon_word (w div nk))
      else if 6 < nk \<and> w mod nk = 4 then sub_word prev
      else prev)"

lemma expand_word_fips:
  assumes "length ek = 240" "0 < w" "w \<le> 60" "nk \<in> {4, 6, 8}" "w div nk \<le> 10" "nk \<le> w"
  shows "expand_word (4 * w) (4 * nk) ek = Some (temp_word nk w (word_at ek (w - 1)))"
proof -
  have idx: "4 * w - 4 = 4 * (w - 1)" "4 * (w - 1) + 3 < 240" using assms(2,3) by auto
  have md: "4 * w mod (4 * nk) = 4 * (w mod nk)" by (rule mult_mod_right [symmetric])
  have dv: "4 * w div (4 * nk) = w div nk" by simp
  have pos: "0 < w div nk" using assms(4,6) by (auto simp: div_greater_zero_iff)
  then have r: "rcon ! (w div nk - 1) = (xtime ^^ (w div nk - 1)) 1" "w div nk - 1 < 10"
    using assms(5) by (auto intro!: rcon_powers)
  have nk: "24 < 4 * nk \<longleftrightarrow> 6 < nk" by auto
  show ?thesis
    using assms(1) idx(2) r pos
    unfolding expand_word_def idx(1) md dv nk
    by (simp add: sbox_lengths temp_word_def word_at_def sub_word_def rcon_word_def xor_word_def upt4
        del: One_nat_def)
qed

lemma expand_step_fips:
  assumes "length ek = 240" "0 < w" "w < 60" "nk \<in> {4, 6, 8}" "w div nk \<le> 10" "nk \<le> w"
  shows "\<exists>ek'. expand_step (4 * w) (4 * nk) ek = Some ek' \<and> length ek' = 240 \<and>
    word_at ek' w = xor_word (word_at ek (w - nk)) (temp_word nk w (word_at ek (w - 1))) \<and>
    (\<forall>v < w. word_at ek' v = word_at ek v)"
proof -
  let ?t = "temp_word nk w (word_at ek (w - 1))"
  let ?k = "4 * (w - nk)"
  have t: "expand_word (4 * w) (4 * nk) ek = Some ?t"
    using assms by (intro expand_word_fips) auto
  have src: "4 * w - 4 * nk = ?k" by simp
  have k: "?k + 3 < 4 * w" "4 * w + 3 < 240" using assms(3,4,6) by auto
  let ?e = "ek[4 * w := ek ! ?k XOR ?t ! 0, 4 * w + 1 := ek ! (?k + 1) XOR ?t ! 1,
    4 * w + 2 := ek ! (?k + 2) XOR ?t ! 2, 4 * w + 3 := ek ! (?k + 3) XOR ?t ! 3]"
  have "expand_step (4 * w) (4 * nk) ek = Some ?e"
    using k assms(1) by (simp add: expand_step_def t expand_cell_def src)
  moreover have "word_at ?e w = xor_word (word_at ek (w - nk)) ?t"
    using k assms(1) by (simp add: word_at_def xor_word_def upt4)
  moreover have "word_at ?e v = word_at ek v" if "v < w" for v
    using that k by (simp add: word_at_def)
  ultimately show ?thesis using assms(1) by auto
qed

section \<open>The whole expansion\<close>

lemma fips_word_rec:
  "0 < nk \<Longrightarrow> nk \<le> w \<Longrightarrow> fips_word key nk w =
    xor_word (fips_word key nk (w - nk)) (temp_word nk w (fips_word key nk (w - 1)))"
  by (subst fips_word.simps) (simp add: temp_word_def Let_def)

lemma schedule_step:
  assumes "schedule_upto key nk w ek" "0 < w" "w < 60" "nk \<in> {4, 6, 8}" "w div nk \<le> 10" "nk \<le> w"
  shows "\<exists>ek'. expand_step (4 * w) (4 * nk) ek = Some ek' \<and> schedule_upto key nk (Suc w) ek'"
proof -
  have len: "length ek = 240" and old: "\<And>v. v < w \<Longrightarrow> word_at ek v = fips_word key nk v"
    using assms(1) by (simp_all add: schedule_upto_def)
  obtain ek' where ek': "expand_step (4 * w) (4 * nk) ek = Some ek'" "length ek' = 240"
    "word_at ek' w = xor_word (word_at ek (w - nk)) (temp_word nk w (word_at ek (w - 1)))"
    "\<forall>v < w. word_at ek' v = word_at ek v"
    using expand_step_fips [OF len assms(2-6)] by blast
  have nk: "0 < nk" using assms(4) by auto
  then have "word_at ek' w = fips_word key nk w"
    using fips_word_rec [OF nk assms(6), of key] old [of "w - nk"] old [of "w - 1"] assms(2) ek'(3)
    by simp
  with ek' old show ?thesis by (auto simp: schedule_upto_def less_Suc_eq)
qed

lemma schedule_loop:
  assumes "nk \<in> {4, 6, 8}" "4 * (r + 1) \<le> 60" "4 * (r + 1) \<le> 11 * nk"
  shows "schedule_upto key nk w ek \<Longrightarrow> nk \<le> w \<Longrightarrow> w \<le> 4 * (r + 1) \<Longrightarrow>
    \<exists>ek'. expand_loop (4 * w) (4 * nk) r ek = Some ek' \<and> schedule_upto key nk (4 * (r + 1)) ek'"
proof (induction "4 * (r + 1) - w" arbitrary: w ek)
  case 0
  then show ?case by (simp add: expand_loop.simps)
next
  case (Suc n)
  then have w: "w < 4 * (r + 1)" by simp
  have "w < 11 * nk" using w assms(3) by simp
  then have "w div nk < 11" using assms(1) by (auto simp: div_less_iff_less_mult)
  then obtain ek' where ek': "expand_step (4 * w) (4 * nk) ek = Some ek'" "schedule_upto key nk (Suc w) ek'"
    using schedule_step [OF Suc.prems(1) _ _ assms(1)] Suc.prems(2) w assms(1,2) by auto
  have "\<exists>ek''. expand_loop (4 * Suc w) (4 * nk) r ek' = Some ek'' \<and>
      schedule_upto key nk (4 * (r + 1)) ek''"
    using Suc.hyps(2) Suc.prems(2) w by (intro Suc.hyps(1) ek'(2)) auto
  with w ek'(1) show ?case
    by (simp add: expand_loop.simps [of "4 * w" "4 * nk" r ek] add.commute)
qed

lemma schedule_start:
  assumes "length ek = 240" "nk \<in> {4, 6, 8}" "4 * nk \<le> length key"
  shows "schedule_upto key nk nk (fold (\<lambda>i ek. ek[i := key ! i]) [0..<4 * nk] ek)"
proof -
  have eq: "fold (\<lambda>i ek. ek[i := key ! i]) [0..<4 * nk] ek
      = map (\<lambda>i. key ! i) [0..<4 * nk] @ drop (4 * nk) ek"
    using assms by (intro fold_upd_const) auto
  have word: "word_at (map (\<lambda>i. key ! i) [0..<4 * nk] @ drop (4 * nk) ek) w
      = take 4 (drop (4 * w) key)" if "w < nk" for w
    using that assms(3) by (simp add: word_at_def nth_append list_eq_iff_nth_eq less_Suc_eq
        numeral_eq_Suc nth_Cons split: nat.splits)
  show ?thesis
    unfolding eq using assms word
    by (auto simp: schedule_upto_def fips_word.simps)
qed

text \<open>A successful call, with the schedule it leaves.\<close>

lemma aes_init_schedule:
  assumes "length (expanded_key c) = 240" "ks \<in> {16, 24, 32}" "ks \<le> length key"
  shows "\<exists>ek. aes_init (Some c) (Some key) ks = Some (0, Some (c\<lparr>rounds := ks div 4 + 6, expanded_key := ek\<rparr>)) \<and>
    expand_key key (expanded_key c) ks (ks div 4 + 6) = Some ek \<and>
    schedule_upto key (ks div 4) (4 * (ks div 4 + 6 + 1)) ek"
proof -
  let ?nk = "ks div 4" and ?r = "ks div 4 + 6"
  have nk: "?nk \<in> {4, 6, 8}" "4 * ?nk = ks" "4 * (?r + 1) \<le> 60" "4 * (?r + 1) \<le> 11 * ?nk"
    using assms(2) by auto
  have "schedule_upto key ?nk ?nk (fold (\<lambda>i ek. ek[i := key ! i]) [0..<4 * ?nk] (expanded_key c))"
    using assms nk by (intro schedule_start) auto
  from schedule_loop [OF nk(1,3,4) this] obtain ek where
    ek: "expand_loop ks ks ?r (fold (\<lambda>i ek. ek[i := key ! i]) [0..<ks] (expanded_key c)) = Some ek"
    "schedule_upto key ?nk (4 * (?r + 1)) ek"
    using nk(2) by auto
  have "expand_key key (expanded_key c) ks ?r = Some ek"
    using ek(1) assms by (auto simp: expand_key_def)
  with ek(2) assms(2) show ?thesis by (intro exI [of _ ek]) (auto simp: aes_init_def)
qed

section \<open>Properties\<close>

text \<open>
  C9: \<^verbatim>\<open>aes_init\<close> expands keys of 16, 24 and 32 bytes into the key schedule of FIPS-197, with
  10, 12 and 14 rounds, every access inside the key, the 240-byte array and the ten round
  constants; for any other size, and for a null context or key, it fails and changes nothing.
\<close>

theorem aes_init_key_schedule:
  assumes "length (expanded_key c) = 240"
  shows "(\<forall>ks \<in> {16, 24, 32}. ks \<le> length key \<longrightarrow>
      (\<exists>c'. aes_init (Some c) (Some key) ks = Some (0, Some c') \<and>
        length (expanded_key c') = 240 \<and> rounds c' = ks div 4 + 6 \<and>
        (\<forall>w < 4 * (rounds c' + 1). word_at (expanded_key c') w = fips_word key (ks div 4) w))) \<and>
    (\<forall>ks. ks \<notin> {16, 24, 32} \<longrightarrow> aes_init (Some c) (Some key) ks = Some (- 2, Some c)) \<and>
    aes_init None (Some key) ks' = Some (- 1, None) \<and> aes_init (Some c) None ks' = Some (- 1, Some c)"
proof (intro conjI ballI allI impI)
  fix ks :: nat assume ks: "ks \<in> {16, 24, 32}" "ks \<le> length key"
  from aes_init_schedule [OF assms ks] show "\<exists>c'. aes_init (Some c) (Some key) ks = Some (0, Some c') \<and>
        length (expanded_key c') = 240 \<and> rounds c' = ks div 4 + 6 \<and>
        (\<forall>w < 4 * (rounds c' + 1). word_at (expanded_key c') w = fips_word key (ks div 4) w)"
    by (auto simp: schedule_upto_def)
qed (auto simp: aes_init_def)

theorem aes_init_key_schedule_witness:
  "\<exists>c'. aes_init (Some \<lparr>expanded_key = replicate 240 0, rounds = 0\<rparr>) (Some (replicate 32 5)) 32
      = Some (0, Some c') \<and> word_at (expanded_key c') 59 = fips_word (replicate 32 5) 8 59"
  using aes_init_key_schedule [of "\<lparr>expanded_key = replicate 240 0, rounds = 0\<rparr>" "replicate 32 5"]
  by fastforce

end
