(* ===== verification/AesCbc.thy ===== *)
theory AesCbc
  imports Aes
begin

text \<open>
  The CBC mode of \<^verbatim>\<open>aes.c\<close>, on memory: both loops read and write the caller's buffers block by
  block, and the decryption takes its next chaining value from the input after it has written
  the output, so that overlapping buffers matter.
\<close>

section \<open>The two loops\<close>

definition AES_BLOCK_SIZE :: nat where
  "AES_BLOCK_SIZE = 16"

definition store_block :: "u32 \<Rightarrow> u8 list \<Rightarrow> (u32 \<Rightarrow> u8) \<Rightarrow> (u32 \<Rightarrow> u8)" where
  "store_block out xs m = fold (\<lambda>j m. m(out + of_nat j := xs ! j)) [0..<AES_BLOCK_SIZE] m"

definition xor_block :: "u8 list \<Rightarrow> u8 list \<Rightarrow> u8 list" where
  "xor_block xs ys = map (\<lambda>j. xs ! j XOR ys ! j) [0..<AES_BLOCK_SIZE]"

text \<open>
  One pass for the block at offset \<open>16 k\<close>, over the chaining value and the memory, with the
  block cipher as an argument.
\<close>

definition cbc_enc_pass :: "(u8 list \<Rightarrow> u8 list) \<Rightarrow> u32 \<Rightarrow> u32 \<Rightarrow> nat \<Rightarrow> u8 list \<times> (u32 \<Rightarrow> u8) \<Rightarrow>
    u8 list \<times> (u32 \<Rightarrow> u8)" where
  "cbc_enc_pass enc inp out k = (\<lambda>(iv, m).
     let i = of_nat (k * AES_BLOCK_SIZE);
         blk = xor_block (read_bytes m (inp + i) AES_BLOCK_SIZE) iv;
         m1 = store_block (out + i) (enc blk) m
     in (read_bytes m1 (out + i) AES_BLOCK_SIZE, m1))"

definition cbc_dec_pass :: "(u8 list \<Rightarrow> u8 list) \<Rightarrow> u32 \<Rightarrow> u32 \<Rightarrow> nat \<Rightarrow> u8 list \<times> (u32 \<Rightarrow> u8) \<Rightarrow>
    u8 list \<times> (u32 \<Rightarrow> u8)" where
  "cbc_dec_pass dec inp out k = (\<lambda>(iv, m).
     let i = of_nat (k * AES_BLOCK_SIZE);
         temp = dec (read_bytes m (inp + i) AES_BLOCK_SIZE);
         m1 = store_block (out + i) (xor_block temp iv) m
     in (read_bytes m1 (inp + i) AES_BLOCK_SIZE, m1))"

text \<open>Null pointers are 0, a null context is \<^const>\<open>None\<close>.\<close>

definition aes_encrypt_cbc :: "aes_context option \<Rightarrow> u32 \<Rightarrow> u32 \<Rightarrow> u32 \<Rightarrow> u32 \<Rightarrow> (u32 \<Rightarrow> u8) \<Rightarrow>
    int \<times> (u32 \<Rightarrow> u8)" where
  "aes_encrypt_cbc ctx iv inp out len m =
     (case ctx of
       None \<Rightarrow> (- 1, m)
     | Some c \<Rightarrow>
         if iv = 0 \<or> inp = 0 \<or> out = 0 then (- 1, m)
         else if unat len mod AES_BLOCK_SIZE \<noteq> 0 then (- 2, m)
         else (0, snd (fold (cbc_enc_pass (aes_encrypt_block c) inp out)
           [0..<unat len div AES_BLOCK_SIZE] (read_bytes m iv AES_BLOCK_SIZE, m))))"

definition cbc_decrypt_with :: "(aes_context \<Rightarrow> u8 list \<Rightarrow> u8 list) \<Rightarrow> aes_context option \<Rightarrow> u32 \<Rightarrow>
    u32 \<Rightarrow> u32 \<Rightarrow> u32 \<Rightarrow> (u32 \<Rightarrow> u8) \<Rightarrow> int \<times> (u32 \<Rightarrow> u8)" where
  "cbc_decrypt_with dec ctx iv inp out len m =
     (case ctx of
       None \<Rightarrow> (- 1, m)
     | Some c \<Rightarrow>
         if iv = 0 \<or> inp = 0 \<or> out = 0 then (- 1, m)
         else if unat len mod AES_BLOCK_SIZE \<noteq> 0 then (- 2, m)
         else (0, snd (fold (cbc_dec_pass (dec c) inp out)
           [0..<unat len div AES_BLOCK_SIZE] (read_bytes m iv AES_BLOCK_SIZE, m))))"

definition aes_decrypt_cbc :: "aes_context option \<Rightarrow> u32 \<Rightarrow> u32 \<Rightarrow> u32 \<Rightarrow> u32 \<Rightarrow> (u32 \<Rightarrow> u8) \<Rightarrow>
    int \<times> (u32 \<Rightarrow> u8)" where
  "aes_decrypt_cbc = cbc_decrypt_with aes_decrypt_block"

section \<open>Blocks in memory\<close>

lemma store_block_outside:
  assumes "a \<notin> block out 16"
  shows "store_block out xs m a = m a"
proof -
  have "a \<notin> block out n \<Longrightarrow> fold (\<lambda>j m. m(out + of_nat j := xs ! j)) [0..<n] m a = m a" for n
    by (induction n) (simp_all add: block_Suc)
  with assms show ?thesis by (simp add: store_block_def AES_BLOCK_SIZE_def del: upt_rec_numeral)
qed

lemma store_block_inside:
  assumes "i < 16"
  shows "store_block out xs m (out + of_nat i) = xs ! i"
proof -
  have "n \<le> 16 \<Longrightarrow> i < n \<Longrightarrow>
      fold (\<lambda>j m. m(out + of_nat j := xs ! j)) [0..<n] m (out + of_nat i) = xs ! i" for n
  proof (induction n)
    case 0
    then show ?case by simp
  next
    case (Suc n)
    show ?case
    proof (cases "i = n")
      case False
      with Suc.prems have "of_nat i \<noteq> (of_nat n :: u32)" by (simp add: of_nat32_eq_iff)
      with Suc False show ?thesis by simp
    qed simp
  qed
  with assms show ?thesis by (simp add: store_block_def AES_BLOCK_SIZE_def del: upt_rec_numeral)
qed

lemma read_store_block: "length xs = 16 \<Longrightarrow> read_bytes (store_block out xs m) out 16 = xs"
  by (simp add: read_bytes_def store_block_inside list_eq_iff_nth_eq)

lemma read_bytes_cong:
  "(\<And>i. i < n \<Longrightarrow> m (p + of_nat i) = m' (q + of_nat i)) \<Longrightarrow> read_bytes m p n = read_bytes m' q n"
  by (simp add: read_bytes_def)

lemma length_xor_block [simp]: "length (xor_block xs ys) = 16"
  by (simp add: xor_block_def AES_BLOCK_SIZE_def)

lemma xor_block_cancel: "length xs = 16 \<Longrightarrow> xor_block (xor_block xs ys) ys = xs"
  by (simp add: xor_block_def AES_BLOCK_SIZE_def xor.assoc list_eq_iff_nth_eq del: upt_rec_numeral)

lemma xor_block_inj:
  assumes "length xs = 16" "length ys = 16"
  shows "xor_block z xs = xor_block z ys \<longleftrightarrow> xs = ys"
proof
  assume eq: "xor_block z xs = xor_block z ys"
  have "xs ! j = ys ! j" if "j < 16" for j
  proof -
    have "xor_block z xs ! j = xor_block z ys ! j" by (simp only: eq)
    with that have "z ! j XOR xs ! j = z ! j XOR ys ! j"
      by (simp add: xor_block_def AES_BLOCK_SIZE_def del: upt_rec_numeral)
    then have "z ! j XOR (z ! j XOR xs ! j) = z ! j XOR (z ! j XOR ys ! j)" by simp
    then show ?thesis by (simp only: bit.xor_left_self)
  qed
  with assms show "xs = ys" by (simp add: list_eq_iff_nth_eq)
qed simp

text \<open>
  Buffers of \<open>n\<close> blocks: where block \<open>k\<close> starts, and that blocks of one buffer are disjoint.
\<close>

definition at :: "u32 \<Rightarrow> nat \<Rightarrow> u32" where
  "at p k = p + of_nat (k * 16)"

lemma at_offset: "at p k + of_nat i = p + of_nat (k * 16 + i)"
  by (simp add: at_def add.assoc)

lemma at_prefix:
  assumes "16 * Suc n \<le> 2 ^ 32" "k \<le> n" "i < 16"
  shows "at p k + of_nat i \<in> block p (16 * n) \<longleftrightarrow> k < n"
proof -
  have "k * 16 + i < 2 ^ 32" "16 * n \<le> 2 ^ 32" using assms by simp_all
  moreover have "k * 16 + i < 16 * n \<longleftrightarrow> k < n" using assms(3) by auto
  ultimately show ?thesis unfolding at_offset by (simp only: in_prefix_block)
qed

lemma at_whole:
  assumes "k < n" "i < 16"
  shows "at p k + of_nat i \<in> block p (16 * n)"
proof -
  have "k * 16 + i < 16 * n" using assms by simp
  then show ?thesis unfolding at_offset block_def by blast
qed

lemma at_other:
  assumes "16 * Suc n \<le> 2 ^ 32" "k < n" "i < 16"
  shows "at p k + of_nat i \<notin> block (at p n) 16"
proof -
  have "k * 16 + i < 2 ^ 32" "n * 16 + 16 \<le> 2 ^ 32" "k * 16 + i < n * 16"
    using assms by simp_all
  then show ?thesis
    unfolding at_offset at_def [of p n] by (simp only: in_sub_block) simp
qed

lemma block_at: "block (at p n) 16 \<subseteq> block p (16 * Suc n)"
proof
  fix a assume "a \<in> block (at p n) 16"
  then obtain i where "i < 16" "a = at p n + of_nat i" by (auto simp: block_def)
  then have "n * 16 + i < 16 * Suc n" "a = p + of_nat (n * 16 + i)" by (simp_all only: at_offset) simp
  then show "a \<in> block p (16 * Suc n)" unfolding block_def by blast
qed

lemma block_mono: "i \<le> n \<Longrightarrow> block p i \<subseteq> block p n"
  by (auto simp: block_def)

lemma buffers_mono:
  "out = inp \<or> block out n \<inter> block inp n = {} \<Longrightarrow> i \<le> n \<Longrightarrow>
    out = inp \<or> block out i \<inter> block inp i = {}"
  using block_mono [of i n out] block_mono [of i n inp] by blast

text \<open>
  The state of either loop after \<open>n\<close> passes: the blocks written, and everything else as before.
\<close>

definition written :: "u32 \<Rightarrow> (nat \<Rightarrow> u8 list) \<Rightarrow> nat \<Rightarrow> (u32 \<Rightarrow> u8) \<Rightarrow> (u32 \<Rightarrow> u8) \<Rightarrow> bool" where
  "written out c n m m' \<longleftrightarrow> (\<forall>k < n. read_bytes m' (at out k) 16 = c k) \<and>
     (\<forall>a. a \<notin> block out (16 * n) \<longrightarrow> m' a = m a)"

lemma written_next:
  assumes "written out c n m m'" "16 * Suc n \<le> 2 ^ 32" "c n = xs" "length xs = 16"
  shows "written out c (Suc n) m (store_block (at out n) xs m')"
  unfolding written_def
proof (intro conjI allI impI)
  fix k assume "k < Suc n"
  show "read_bytes (store_block (at out n) xs m') (at out k) 16 = c k"
  proof (cases "k = n")
    case True
    with assms show ?thesis by (simp add: read_store_block)
  next
    case False
    with \<open>k < Suc n\<close> have k: "k < n" by simp
    then have "read_bytes (store_block (at out n) xs m') (at out k) 16 = read_bytes m' (at out k) 16"
      using at_other [OF assms(2) k] by (intro read_bytes_cong) (simp add: store_block_outside)
    with k assms(1) show ?thesis by (simp add: written_def)
  qed
next
  fix a assume a: "a \<notin> block out (16 * Suc n)"
  then have "a \<notin> block out (16 * n)" using block_mono [of "16 * n" "16 * Suc n" out] by auto
  moreover have "a \<notin> block (at out n) 16" using a block_at [of out n] by blast
  ultimately show "store_block (at out n) xs m' a = m a"
    using assms(1) by (simp add: written_def store_block_outside)
qed

lemma input_kept:
  assumes "written out c n m m'" "16 * Suc n \<le> 2 ^ 32"
    "out = inp \<or> block out (16 * Suc n) \<inter> block inp (16 * Suc n) = {}"
  shows "read_bytes m' (at inp n) 16 = read_bytes m (at inp n) 16"
proof (rule read_bytes_cong)
  fix i :: nat assume i: "i < 16"
  have "at inp n + of_nat i \<notin> block out (16 * n)"
  proof (cases "out = inp")
    case True
    then show ?thesis using at_prefix [OF assms(2) _ i, of n inp] by simp
  next
    case False
    have "at inp n + of_nat i \<in> block inp (16 * Suc n)" using i by (intro at_whole) auto
    with False assms(3) block_mono [of "16 * n" "16 * Suc n" out] show ?thesis by auto
  qed
  with assms(1) show "m' (at inp n + of_nat i) = m (at inp n + of_nat i)" by (simp add: written_def)
qed

section \<open>The loops as sequences of blocks\<close>

fun cipher_at :: "(u8 list \<Rightarrow> u8 list) \<Rightarrow> u8 list \<Rightarrow> (nat \<Rightarrow> u8 list) \<Rightarrow> nat \<Rightarrow> u8 list" where
  "cipher_at enc iv p 0 = enc (xor_block (p 0) iv)"
| "cipher_at enc iv p (Suc k) = enc (xor_block (p (Suc k)) (cipher_at enc iv p k))"

text \<open>\<open>same\<close>: the output overwrites the input.\<close>

fun plain_at :: "bool \<Rightarrow> (u8 list \<Rightarrow> u8 list) \<Rightarrow> u8 list \<Rightarrow> (nat \<Rightarrow> u8 list) \<Rightarrow> nat \<Rightarrow> u8 list" where
  "plain_at same dec iv c 0 = xor_block (dec (c 0)) iv"
| "plain_at same dec iv c (Suc k) =
     xor_block (dec (c (Suc k))) (if same then plain_at same dec iv c k else c k)"

lemma cbc_enc_pass_at:
  "cbc_enc_pass enc inp out k (v, m) =
    (let m1 = store_block (at out k) (enc (xor_block (read_bytes m (at inp k) 16) v)) m
     in (read_bytes m1 (at out k) 16, m1))"
  by (simp add: cbc_enc_pass_def at_def AES_BLOCK_SIZE_def Let_def)

lemma enc_loop:
  assumes "\<And>x. length x = 16 \<Longrightarrow> length (enc x) = 16" "16 * n \<le> 2 ^ 32"
    "out = inp \<or> block out (16 * n) \<inter> block inp (16 * n) = {}"
  shows "\<exists>m'. fold (cbc_enc_pass enc inp out) [0..<n] (iv, m) =
      (case n of 0 \<Rightarrow> iv | Suc k \<Rightarrow> cipher_at enc iv (\<lambda>k. read_bytes m (at inp k) 16) k, m') \<and>
    written out (cipher_at enc iv (\<lambda>k. read_bytes m (at inp k) 16)) n m m'"
  using assms(2,3)
proof (induction n)
  case 0
  then show ?case by (simp add: written_def)
next
  case (Suc n)
  let ?c = "cipher_at enc iv (\<lambda>k. read_bytes m (at inp k) 16)"
  have le: "16 * n \<le> 2 ^ 32" using Suc.prems(1) by simp
  have sub: "out = inp \<or> block out (16 * n) \<inter> block inp (16 * n) = {}"
    using Suc.prems(2) by (rule buffers_mono) simp
  obtain m' where m': "fold (cbc_enc_pass enc inp out) [0..<n] (iv, m) =
      (case n of 0 \<Rightarrow> iv | Suc k \<Rightarrow> ?c k, m')" "written out ?c n m m'"
    using Suc.IH [OF le sub] by blast
  have blk: "enc (xor_block (read_bytes m' (at inp n) 16) (case n of 0 \<Rightarrow> iv | Suc k \<Rightarrow> ?c k)) = ?c n"
    using input_kept [OF m'(2) Suc.prems] by (cases n) simp_all
  let ?m = "store_block (at out n) (?c n) m'"
  have len: "length (?c n) = 16" using assms(1) by (cases n) simp_all
  have "written out ?c (Suc n) m ?m" using m'(2) Suc.prems(1) len by (intro written_next) auto
  moreover have "fold (cbc_enc_pass enc inp out) [0..<Suc n] (iv, m) = (?c n, ?m)"
  proof -
    have "fold (cbc_enc_pass enc inp out) [0..<Suc n] (iv, m)
        = cbc_enc_pass enc inp out n (case n of 0 \<Rightarrow> iv | Suc k \<Rightarrow> ?c k, m')"
      by (simp add: m'(1))
    then show ?thesis by (simp only: cbc_enc_pass_at blk Let_def read_store_block [OF len])
  qed
  ultimately show ?case by simp
qed

lemma cbc_dec_pass_at:
  "cbc_dec_pass dec inp out k (v, m) =
    (let m1 = store_block (at out k) (xor_block (dec (read_bytes m (at inp k) 16)) v) m
     in (read_bytes m1 (at inp k) 16, m1))"
  by (simp add: cbc_dec_pass_def at_def AES_BLOCK_SIZE_def Let_def)

text \<open>The chaining value after a pass: the output just written when the buffers are the same.\<close>

lemma next_chain:
  assumes "out = inp \<or> block out (16 * Suc n) \<inter> block inp (16 * Suc n) = {}" "length xs = 16"
  shows "read_bytes (store_block (at out n) xs m) (at inp n) 16
    = (if out = inp then xs else read_bytes m (at inp n) 16)"
proof (cases "out = inp")
  case False
  have "at inp n + of_nat i \<notin> block (at out n) 16" if "i < 16" for i
    using at_whole [of n "Suc n" i inp] that block_at [of out n] False assms(1) by blast
  then have "read_bytes (store_block (at out n) xs m) (at inp n) 16 = read_bytes m (at inp n) 16"
    by (intro read_bytes_cong) (simp add: store_block_outside)
  with False show ?thesis by simp
qed (simp add: read_store_block assms(2))

lemma plain_at_length [simp]: "length (plain_at same dec iv c k) = 16"
  by (cases k) simp_all

lemma dec_loop:
  assumes "16 * n \<le> 2 ^ 32" "out = inp \<or> block out (16 * n) \<inter> block inp (16 * n) = {}"
  shows "\<exists>m'. fold (cbc_dec_pass dec inp out) [0..<n] (iv, m) =
      (case n of 0 \<Rightarrow> iv | Suc k \<Rightarrow>
        if out = inp then plain_at (out = inp) dec iv (\<lambda>k. read_bytes m (at inp k) 16) k
        else read_bytes m (at inp k) 16, m') \<and>
    written out (plain_at (out = inp) dec iv (\<lambda>k. read_bytes m (at inp k) 16)) n m m'"
  using assms
proof (induction n)
  case 0
  then show ?case by (simp add: written_def)
next
  case (Suc n)
  let ?c = "\<lambda>k. read_bytes m (at inp k) 16"
  let ?p = "plain_at (out = inp) dec iv ?c"
  let ?v = "case n of 0 \<Rightarrow> iv | Suc k \<Rightarrow> if out = inp then ?p k else ?c k"
  have le: "16 * n \<le> 2 ^ 32" using Suc.prems(1) by simp
  have sub: "out = inp \<or> block out (16 * n) \<inter> block inp (16 * n) = {}"
    using Suc.prems(2) by (rule buffers_mono) simp
  obtain m' where m': "fold (cbc_dec_pass dec inp out) [0..<n] (iv, m) = (?v, m')" "written out ?p n m m'"
    using Suc.IH [OF le sub] by blast
  have same: "read_bytes m' (at inp n) 16 = ?c n" by (rule input_kept [OF m'(2) Suc.prems])
  have blk: "xor_block (dec (?c n)) ?v = ?p n" by (cases n) simp_all
  let ?m = "store_block (at out n) (?p n) m'"
  have "written out ?p (Suc n) m ?m" using m'(2) Suc.prems(1) by (intro written_next) auto
  moreover have "fold (cbc_dec_pass dec inp out) [0..<Suc n] (iv, m)
      = (if out = inp then ?p n else ?c n, ?m)"
  proof -
    have "fold (cbc_dec_pass dec inp out) [0..<Suc n] (iv, m) = cbc_dec_pass dec inp out n (?v, m')"
      by (simp add: m'(1))
    also have "\<dots> = (read_bytes ?m (at inp n) 16, ?m)"
      by (simp only: cbc_dec_pass_at same blk Let_def)
    finally show ?thesis by (simp only: next_chain [OF Suc.prems(2) plain_at_length] same)
  qed
  ultimately show ?case by simp
qed

section \<open>Round trip\<close>

lemma plain_cipher:
  assumes inv: "\<And>x. length x = 16 \<Longrightarrow> dec (enc x) = x" and p: "\<And>k. length (p k) = 16"
    and c: "\<And>j. j \<le> k \<Longrightarrow> c j = cipher_at enc iv p j"
  shows "plain_at False dec iv c k = p k"
  using c by (cases k) (simp_all add: inv xor_block_cancel p)

lemma read_bytes_blocks:
  assumes "\<And>k. k < n \<Longrightarrow> read_bytes m (at p k) 16 = read_bytes m' (at q k) 16"
  shows "read_bytes m p (16 * n) = read_bytes m' q (16 * n)"
proof (rule read_bytes_cong)
  fix i assume i: "i < 16 * n"
  let ?k = "i div 16" and ?j = "i mod 16"
  have k: "?k < n" using i by (simp add: div_less_iff_less_mult)
  have "read_bytes m (at p ?k) 16 ! ?j = read_bytes m' (at q ?k) 16 ! ?j" using assms [OF k] by simp
  then have "m (at p ?k + of_nat ?j) = m' (at q ?k + of_nat ?j)"
    by (simp add: read_bytes_def del: upt_rec_numeral)
  then show "m (p + of_nat i) = m' (q + of_nat i)"
    unfolding at_offset by (simp only: div_mult_mod_eq)
qed

lemma aes_encrypt_length: "length (aes_encrypt_block ctx x) = 16 \<longleftrightarrow> 16 \<le> length x"
  by (simp add: aes_encrypt_block_def Let_def min_def)

section \<open>Properties\<close>

lemma cipher_at_length:
  "(\<And>x. length x = 16 \<Longrightarrow> length (enc x) = 16) \<Longrightarrow> length (cipher_at enc iv p k) = 16"
  by (cases k) simp_all

lemma at_0: "at p 0 = p" and at_1: "at p 1 = p + 16"
  by (simp_all add: at_def)

text \<open>
  C29: the chaining. What \<^verbatim>\<open>aes_encrypt_cbc\<close> writes, in place or into a disjoint buffer, comes
  back when the decryption loop runs on it into another buffer with the block decryption of
  FIPS-197, for every length that is a multiple of 16. In place the loop takes the plain block
  it has just written for the cipher block it has overwritten: the second block comes back only
  if the first cipher block equals the first plain block.
\<close>

theorem aes_cbc_round_trip:
  assumes "16 * (rounds c + 1) \<le> length (expanded_key c)" "16 dvd unat len"
    "iv \<noteq> 0" "inp \<noteq> 0" "out \<noteq> 0" "dst \<noteq> 0"
    "out = inp \<or> block out (unat len) \<inter> block inp (unat len) = {}"
    "block dst (unat len) \<inter> block out (unat len) = {}" "dst \<noteq> out"
    "block iv 16 \<inter> block out (unat len) = {}"
  shows "\<exists>m1 m2 m3. aes_encrypt_cbc (Some c) iv inp out len m = (0, m1) \<and>
    cbc_decrypt_with (decrypt_with std_inv_mix_columns) (Some c) iv out dst len m1 = (0, m2) \<and>
    read_bytes m2 dst (unat len) = read_bytes m inp (unat len) \<and>
    cbc_decrypt_with (decrypt_with std_inv_mix_columns) (Some c) iv out out len m1 = (0, m3) \<and>
    (32 \<le> unat len \<longrightarrow> (read_bytes m3 (out + 16) 16 = read_bytes m (inp + 16) 16
      \<longleftrightarrow> read_bytes m inp 16 = read_bytes m1 out 16))"
proof -
  let ?enc = "aes_encrypt_block c" and ?dec = "decrypt_with std_inv_mix_columns c"
  let ?v = "read_bytes m iv 16" and ?P = "\<lambda>k. read_bytes m (at inp k) 16"
  obtain n where n: "unat len = 16 * n" using assms(2) by blast
  have le: "16 * n \<le> 2 ^ 32" using unat_less32 [of len] n by simp
  have enc16: "length x = 16 \<Longrightarrow> length (?enc x) = 16" for x by (simp add: aes_encrypt_length)
  have inv: "length x = 16 \<Longrightarrow> ?dec (?enc x) = x" for x using decrypt_encrypt [of x c] by simp
  note io = assms(7) [unfolded n] and bo = assms(8) [unfolded n]
  let ?C = "cipher_at ?enc ?v ?P"
  obtain m1 where m1: "snd (fold (cbc_enc_pass ?enc inp out) [0..<n] (?v, m)) = m1" "written out ?C n m m1"
    using enc_loop [of ?enc, OF enc16 le io, of ?v m] by auto
  have C: "read_bytes m1 (at out k) 16 = ?C k" if "k < n" for k
    using m1(2) that by (simp add: written_def)
  have "read_bytes m1 iv 16 = ?v"
  proof (rule read_bytes_cong)
    fix i :: nat assume "i < 16"
    then have "iv + of_nat i \<in> block iv 16" by (auto simp: block_def)
    then have "iv + of_nat i \<notin> block out (16 * n)" using assms(10) n by auto
    then show "m1 (iv + of_nat i) = m (iv + of_nat i)" using m1(2) by (simp add: written_def)
  qed
  note iv = this
  let ?D = "\<lambda>k. read_bytes m1 (at out k) 16"
  obtain m2 where m2: "snd (fold (cbc_dec_pass ?dec out dst) [0..<n] (?v, m1)) = m2"
    "written dst (plain_at False ?dec ?v ?D) n m1 m2"
    using dec_loop [OF le, of dst out ?dec ?v m1] bo assms(9) by auto
  obtain m3 where m3: "snd (fold (cbc_dec_pass ?dec out out) [0..<n] (?v, m1)) = m3"
    "written out (plain_at True ?dec ?v ?D) n m1 m3"
    using dec_loop [OF le, of out out ?dec ?v m1] by auto
  have restored: "read_bytes m2 dst (16 * n) = read_bytes m inp (16 * n)"
  proof (rule read_bytes_blocks)
    fix k assume k: "k < n"
    have "plain_at False ?dec ?v ?D k = ?P k"
      by (rule plain_cipher [where enc = ?enc and p = ?P]) (use inv C k in auto)
    with m2(2) k show "read_bytes m2 (at dst k) 16 = read_bytes m (at inp k) 16"
      by (simp add: written_def)
  qed
  have second: "read_bytes m3 (out + 16) 16 = read_bytes m (inp + 16) 16
      \<longleftrightarrow> read_bytes m inp 16 = read_bytes m1 out 16" if "32 \<le> 16 * n"
  proof -
    have k: "0 < n" "1 < n" using that by simp_all
    have C0: "?C 0 = read_bytes m1 out 16" using C [OF k(1)] by (simp add: at_0)
    have D0: "plain_at True ?dec ?v ?D 0 = ?P 0"
      using C [OF k(1)] by (simp add: inv xor_block_cancel)
    have "read_bytes m3 (out + 16) 16 = plain_at True ?dec ?v ?D 1"
      using m3(2) k(2) by (simp add: written_def at_1 [symmetric])
    also have "\<dots> = xor_block (xor_block (?P 1) (?C 0)) (?P 0)"
      using C [OF k(2)] D0 by (simp add: inv del: plain_at.simps(1) cipher_at.simps(1))
    finally have "read_bytes m3 (out + 16) 16 = xor_block (xor_block (?P 1) (?C 0)) (?P 0)" .
    moreover have "?P 1 = xor_block (xor_block (?P 1) (?C 0)) (?C 0)"
      by (simp only: xor_block_cancel length_read_bytes)
    ultimately show ?thesis
      using xor_block_inj [of "?P 0" "?C 0" "xor_block (?P 1) (?C 0)"]
        cipher_at_length [of ?enc ?v ?P 0, OF enc16] C0
      by (simp add: at_0 at_1 del: cipher_at.simps One_nat_def)
  qed
  have "aes_encrypt_cbc (Some c) iv inp out len m = (0, m1)"
    "cbc_decrypt_with (decrypt_with std_inv_mix_columns) (Some c) iv out dst len m1 = (0, m2)"
    "cbc_decrypt_with (decrypt_with std_inv_mix_columns) (Some c) iv out out len m1 = (0, m3)"
    using assms(3-6) n m1(1) m2(1) m3(1) iv
    by (simp_all add: aes_encrypt_cbc_def cbc_decrypt_with_def AES_BLOCK_SIZE_def)
  with restored second n show ?thesis by auto
qed

theorem aes_cbc_round_trip_witness:
  "\<exists>m1 m2. aes_encrypt_cbc (Some \<lparr>expanded_key = replicate 240 7, rounds = 10\<rparr>) 0x100 0x1000 0x1000 32
      (\<lambda>_. 0) = (0, m1) \<and>
    cbc_decrypt_with (decrypt_with std_inv_mix_columns)
      (Some \<lparr>expanded_key = replicate 240 7, rounds = 10\<rparr>) 0x100 0x1000 0x2000 32 m1 = (0, m2) \<and>
    read_bytes m2 0x2000 32 = read_bytes (\<lambda>_. 0) 0x1000 32"
proof -
  have n: "unat (32 :: u32) = 32" by simp
  have lt: "a \<in> block p k \<Longrightarrow> unat p + k < 2 ^ 32 \<Longrightarrow> unat p \<le> unat a \<and> unat a < unat p + k" for a p k
    using in_block_interval [of p k a] by simp
  have "block 0x2000 (unat (32 :: u32)) \<inter> block 0x1000 (unat (32 :: u32)) = {}"
    using lt [of _ "0x2000" 32] lt [of _ "0x1000" 32] unfolding n by fastforce
  moreover have "block 0x100 16 \<inter> block 0x1000 (unat (32 :: u32)) = {}"
    using lt [of _ "0x100" 16] lt [of _ "0x1000" 32] unfolding n by fastforce
  ultimately show ?thesis
    using aes_cbc_round_trip [of "\<lparr>expanded_key = replicate 240 7, rounds = 10\<rparr>" 32 "0x100" "0x1000"
        "0x1000" "0x2000" "\<lambda>_. 0"]
    unfolding n by fastforce
qed

end
