(* ===== verification/Security.thy ===== *)
theory Security
  imports AuditLog Firewall Crypto AesKey AesVectors AesCbc
begin

text \<open>
  The security settings, \<^verbatim>\<open>src/security/security.c\<close>. The file declares \<^verbatim>\<open>firewall_add_rule\<close> and
  \<^verbatim>\<open>audit_log\<close> with other parameters than their definitions have; a call through such a
  declaration is undefined in C and is the value \<^const>\<open>None\<close> here. The file is one of two that
  define \<^verbatim>\<open>security_init\<close>; the other one is in the theory of the access control lists.
\<close>

section \<open>State\<close>

record security_settings =
  security_level :: u8
  enable_audit :: u8
  enable_firewall :: u8
  enable_access_control :: u8
  enable_encryption :: u8

definition initial_settings :: security_settings where
  "initial_settings = \<lparr>security_level = 2, enable_audit = 1, enable_firewall = 1,
     enable_access_control = 1, enable_encryption = 1\<rparr>"

text \<open>
  The packet filter and the key store are parts of their own; they share the console with the
  rest of the machine.
\<close>

record ksec = kaudit +
  security_config :: security_settings
  sec_firewall :: firewall_state
  sec_crypto :: kcrypto

definition on_firewall :: "(firewall_state \<Rightarrow> firewall_state) \<Rightarrow> 'a ksec_scheme \<Rightarrow> 'a ksec_scheme" where
  "on_firewall f s =
     (let w = f ((sec_firewall s)\<lparr>con_out := con_out s\<rparr>) in s\<lparr>sec_firewall := w, con_out := con_out w\<rparr>)"

definition on_crypto :: "(kcrypto \<Rightarrow> kcrypto) \<Rightarrow> 'a ksec_scheme \<Rightarrow> 'a ksec_scheme" where
  "on_crypto f s =
     (let w = f ((sec_crypto s)\<lparr>con_out := con_out s\<rparr>) in s\<lparr>sec_crypto := w, con_out := con_out w\<rparr>)"

definition on_settings :: "(security_settings \<Rightarrow> security_settings) \<Rightarrow> 'a ksec_scheme \<Rightarrow> 'a ksec_scheme" where
  "on_settings f s = s\<lparr>security_config := f (security_config s)\<rparr>"

text \<open>The fixed key of the file, and the context on the stack, which starts with any contents.\<close>

definition security_key :: "u8 list" where
  "security_key = [0x00, 0x01, 0x02, 0x03, 0x04, 0x05, 0x06, 0x07,
     0x08, 0x09, 0x0A, 0x0B, 0x0C, 0x0D, 0x0E, 0x0F]"

abbreviation AES_128 :: nat where "AES_128 \<equiv> 16"

section \<open>Start\<close>

definition starting :: string where
  "starting = ''ba'' @ tr_s @ ''lat'' @ tr_i @ ''l'' @ tr_i @ ''yor...'' @ newline"

definition started :: string where
  "started = ''ba'' @ tr_s @ ''lat'' @ tr_i @ ''ld'' @ tr_i @ ''.'' @ newline"

definition guvenlik :: string where
  "guvenlik = ''G'' @ tr_u @ ''venlik ''"

definition sifreleme :: string where
  "sifreleme = [CHR 0xC5, CHR 0x9E] @ ''ifreleme ''"

definition security_init :: "audit_event list \<Rightarrow> aes_context \<Rightarrow> 'a ksec_scheme \<Rightarrow> 'a ksec_scheme option" where
  "security_init junk stack_ctx s =
     do {
       let s1 = puts (''KluxOS g'' @ tr_u @ ''venlik sistemi '' @ starting) s;
       let s2 = puts (''AES '' @ tr_s @ ''ifreleme mod'' @ tr_u @ ''l'' @ tr_u @ '' '' @ starting) s1;
       (r, ctx) \<leftarrow> aes_init (Some stack_ctx) (Some security_key) AES_128;
       let s3 = (if r = 0 then puts (''AES-128 '' @ started) s2
         else on_settings (\<lambda>c. c\<lparr>enable_encryption := 0\<rparr>)
           (puts (''AES ba'' @ tr_s @ ''lat'' @ tr_i @ ''lamad'' @ tr_i @ ''!'' @ newline) s2));
       let s4 = (if enable_access_control (security_config s3) \<noteq> 0
         then puts (''Eri'' @ tr_s @ ''im kontrol listesi (ACL) '' @ starting) s3 else s3);
       s5 \<leftarrow> (if enable_audit (security_config s4) \<noteq> 0
         then do {
           t \<leftarrow> audit_init junk (puts (guvenlik @ ''denetim kayd'' @ tr_i @ '' '' @ starting) s4);
           let t = puts (guvenlik @ ''denetim kayd'' @ tr_i @ '' '' @ started) t;
           None
         }
         else Some s4);
       let s6 = on_crypto crypto_init (puts (sifreleme @ ''alt sistemi '' @ starting) s5);
       let s7 = puts (sifreleme @ ''alt sistemi '' @ started) s6;
       s8 \<leftarrow> (if enable_firewall (security_config s7) \<noteq> 0
         then do {
           let t = on_firewall firewall_init (puts (guvenlik @ ''duvar'' @ tr_i @ '' '' @ starting) s7);
           let t = puts (guvenlik @ ''duvar'' @ tr_i @ '' '' @ started) t;
           None
         }
         else Some s7);
       let level = [char_of (unat (48 + security_level (security_config s8)))];
       Some (fold emit [Puts (guvenlik @ ''seviyesi: ''), Puts level, Puts (''/4'' @ newline),
         Puts (guvenlik @ ''sistemi '' @ started)] s8)
     }"

section \<open>Settings\<close>

definition settings_of :: "u8 \<Rightarrow> security_settings" where
  "settings_of level =
     (if level = 0 then \<lparr>security_level = level, enable_audit = 0, enable_firewall = 0,
        enable_access_control = 0, enable_encryption = 0\<rparr>
      else if level = 1 then \<lparr>security_level = level, enable_audit = 1, enable_firewall = 0,
        enable_access_control = 0, enable_encryption = 1\<rparr>
      else \<lparr>security_level = level, enable_audit = 1, enable_firewall = 1,
        enable_access_control = 1, enable_encryption = 1\<rparr>)"

text \<open>
  From level 3 on a rule is added, and with auditing on the change is logged, both through the
  incompatible declarations.
\<close>

definition security_set_level :: "u8 \<Rightarrow> 'a ksec_scheme \<Rightarrow> (int \<times> 'a ksec_scheme) option" where
  "security_set_level level s =
     (if 4 < level then Some (- 1, s)
      else do {
        let s1 = on_settings (\<lambda>_. settings_of level) s;
        s2 \<leftarrow> (if level = 3 \<or> level = 4 then None else Some s1);
        s3 \<leftarrow> (if enable_audit (security_config s2) \<noteq> 0 then None else Some s2);
        Some (0, s3)
      })"

definition security_add_firewall_rule :: "int \<Rightarrow> int \<Rightarrow> 'a ksec_scheme \<Rightarrow> (int \<times> 'a ksec_scheme) option" where
  "security_add_firewall_rule port action s =
     (if enable_firewall (security_config s) = 0 then Some (- 1, s) else None)"

section \<open>Data\<close>

text \<open>\<^verbatim>\<open>aes_encrypt_block\<close> and \<^verbatim>\<open>aes_decrypt_block\<close> on blocks in memory.\<close>

definition encrypt_at :: "aes_context \<Rightarrow> u32 \<Rightarrow> u32 \<Rightarrow> 'a ksec_scheme \<Rightarrow> 'a ksec_scheme" where
  "encrypt_at ctx input output s =
     s\<lparr>bytes := store_block output (aes_encrypt_block ctx (read_bytes (bytes s) input 16)) (bytes s)\<rparr>"

definition decrypt_at :: "aes_context \<Rightarrow> u32 \<Rightarrow> u32 \<Rightarrow> 'a ksec_scheme \<Rightarrow> 'a ksec_scheme" where
  "decrypt_at ctx input output s =
     s\<lparr>bytes := store_block output (aes_decrypt_block ctx (read_bytes (bytes s) input 16)) (bytes s)\<rparr>"

definition security_encrypt_data :: "aes_context \<Rightarrow> u32 \<Rightarrow> u32 \<Rightarrow> u32 \<Rightarrow> 'a ksec_scheme \<Rightarrow>
    (int \<times> 'a ksec_scheme) option" where
  "security_encrypt_data stack_ctx data len output s =
     (if enable_encryption (security_config s) = 0 then Some (- 1, s)
      else do {
        (r, ctx) \<leftarrow> aes_init (Some stack_ctx) (Some security_key) AES_128;
        if r \<noteq> 0 then Some (- 1, s) else Some (0, encrypt_at (the ctx) data output s)
      })"

definition security_decrypt_data :: "aes_context \<Rightarrow> u32 \<Rightarrow> u32 \<Rightarrow> u32 \<Rightarrow> 'a ksec_scheme \<Rightarrow>
    (int \<times> 'a ksec_scheme) option" where
  "security_decrypt_data stack_ctx data len output s =
     (if enable_encryption (security_config s) = 0 then Some (- 1, s)
      else do {
        (r, ctx) \<leftarrow> aes_init (Some stack_ctx) (Some security_key) AES_128;
        if r \<noteq> 0 then Some (- 1, s)
        else Some (0, decrypt_at (the ctx) data output (decrypt_at (the ctx) data output s))
      })"

section \<open>The fixed key\<close>

definition fixed_context :: aes_context where
  "fixed_context = \<lparr>expanded_key = keys176, rounds = 10\<rparr>"

lemma add_round_key_cong:
  "(\<And>i. i < 16 \<Longrightarrow> rk ! i = rk' ! i) \<Longrightarrow> add_round_key st rk = add_round_key st rk'"
  unfolding add_round_key_def by (rule fold_cong) auto

lemma block_cong:
  assumes "length ek = 240" "length ek' = 240" "\<And>i. i < 176 \<Longrightarrow> ek ! i = ek' ! i"
  shows "aes_encrypt_block \<lparr>expanded_key = ek, rounds = 10\<rparr> x = aes_encrypt_block \<lparr>expanded_key = ek', rounds = 10\<rparr> x"
    and "aes_decrypt_block \<lparr>expanded_key = ek, rounds = 10\<rparr> x = aes_decrypt_block \<lparr>expanded_key = ek', rounds = 10\<rparr> x"
proof -
  have rk: "add_round_key st (drop (r * 16) ek) = add_round_key st (drop (r * 16) ek')" if "r \<le> 10" for r st
    using that assms by (intro add_round_key_cong) simp
  have "add_round_key st ek = add_round_key st ek'" for st using rk [of 0] by simp
  moreover have "fold (enc_round ek) [1..<10] st = fold (enc_round ek') [1..<10] st" for st
    by (rule fold_cong) (auto simp: enc_round_def rk)
  moreover have "fold (dec_round ek) (rev [1..<10]) st = fold (dec_round ek') (rev [1..<10]) st" for st
    by (rule fold_cong) (auto simp: dec_round_def rk)
  ultimately show "aes_encrypt_block \<lparr>expanded_key = ek, rounds = 10\<rparr> x = aes_encrypt_block \<lparr>expanded_key = ek', rounds = 10\<rparr> x"
    "aes_decrypt_block \<lparr>expanded_key = ek, rounds = 10\<rparr> x = aes_decrypt_block \<lparr>expanded_key = ek', rounds = 10\<rparr> x"
    by (simp_all only: aes_encrypt_block_def aes_decrypt_block_def Let_def aes_context.simps rk order_refl)
qed

lemma schedule_nth:
  assumes "schedule_upto key nk n ek" "schedule_upto key nk n ek'" "i < 4 * n"
  shows "ek ! i = ek' ! i"
proof -
  have "i div 4 < n" using assms(3) by (simp add: less_mult_imp_div_less mult.commute)
  then have "word_at ek (i div 4) = word_at ek' (i div 4)" using assms(1,2) by (simp add: schedule_upto_def)
  then have "word_at ek (i div 4) ! (i mod 4) = word_at ek' (i div 4) ! (i mod 4)" by simp
  moreover have "i mod 4 \<in> {0, 1, 2, 3}" by auto
  moreover have "4 * (i div 4) + i mod 4 = i" by simp
  ultimately show ?thesis unfolding word_at_def by (elim insertE emptyE; simp; metis)
qed

text \<open>Whatever the stack held, the context computes the block functions of the fixed key.\<close>

lemma security_context:
  assumes "length (expanded_key c) = 240"
  shows "\<exists>ctx. aes_init (Some c) (Some security_key) AES_128 = Some (0, Some ctx) \<and>
    aes_encrypt_block ctx = aes_encrypt_block fixed_context \<and> aes_decrypt_block ctx = aes_decrypt_block fixed_context"
proof -
  have key: "security_key = fips_key" "length security_key = 16" by (simp_all add: security_key_def fips_key_def)
  obtain ek where ek: "aes_init (Some c) (Some security_key) 16 = Some (0, Some (c\<lparr>rounds := 10, expanded_key := ek\<rparr>))"
    "schedule_upto security_key 4 44 ek"
    using aes_init_schedule [OF assms, of 16 security_key] key(2) by auto
  have "schedule_upto security_key 4 44 keys176"
    using aes_init_schedule [of "\<lparr>expanded_key = replicate 240 0, rounds = 0\<rparr>" 16 security_key] key expand_fips
    by (auto simp: schedule_upto_def)
  moreover from this ek(2) have "i < 176 \<Longrightarrow> ek ! i = keys176 ! i" for i by (intro schedule_nth) auto
  ultimately have "aes_encrypt_block \<lparr>expanded_key = ek, rounds = 10\<rparr> = aes_encrypt_block fixed_context"
    "aes_decrypt_block \<lparr>expanded_key = ek, rounds = 10\<rparr> = aes_decrypt_block fixed_context"
    using ek(2) block_cong [of ek keys176] by (auto simp: fixed_context_def schedule_upto_def)
  with ek(1) show ?thesis by (cases c) simp
qed

section \<open>Properties\<close>

lemma ksec_fields [simp]:
  "security_config (emit c s) = security_config s" "security_config (on_settings f s) = f (security_config s)"
  "security_config (on_crypto g s) = security_config s" "con_out (on_settings f s) = con_out s"
  "con_out (on_crypto g s) = con_out (g ((sec_crypto s)\<lparr>con_out := con_out s\<rparr>))"
  by (simp_all add: emit_def on_settings_def on_crypto_def Let_def)

lemma aes_decrypt_length: "length x = 16 \<Longrightarrow> length (aes_decrypt_block ctx x) = 16"
  by (simp add: aes_decrypt_block_def Let_def fold_length dec_round_def)

text \<open>
  With the settings the kernel is compiled with, \<^verbatim>\<open>security_init\<close> makes a call whose behaviour
  is undefined, and so does \<^verbatim>\<open>security_set_level\<close> for every level from 1 to 4. Defined are only
  the refusal of a level above 4 and the level 0, which switches everything off; after it
  \<^verbatim>\<open>security_init\<close> runs to its end, encryption fails and no firewall rule can be added.
\<close>

theorem security_defined_only_when_off:
  fixes s :: "'a ksec_scheme"
  assumes "length (expanded_key c) = 240"
  shows "security_init junk c (s\<lparr>security_config := initial_settings\<rparr>) = None \<and>
    (security_set_level l s = None \<longleftrightarrow> 1 \<le> l \<and> l \<le> 4) \<and>
    (4 < l \<longrightarrow> security_set_level l s = Some (- 1, s)) \<and>
    (\<exists>t u. security_set_level 0 s = Some (0, t) \<and> security_init junk c t = Some u \<and>
      security_config u = settings_of 0 \<and>
      drop (length (con_out u) - 2) (con_out u) = [Puts (''/4'' @ newline), Puts (guvenlik @ ''sistemi '' @ started)] \<and>
      security_encrypt_data c data len out u = Some (- 1, u) \<and>
      security_add_firewall_rule port act u = Some (- 1, u))"
proof (intro conjI)
  obtain ctx where i: "aes_init (Some c) (Some security_key) AES_128 = Some (0, Some ctx)"
    using security_context [OF assms] by blast
  show "security_init junk c (s\<lparr>security_config := initial_settings\<rparr>) = None"
    by (simp add: security_init_def i initial_settings_def bind_eq_None_conv)
  show "security_set_level l s = None \<longleftrightarrow> 1 \<le> l \<and> l \<le> 4"
  proof (cases "4 < l")
    case False
    then have "l = 0 \<or> 1 \<le> l" by (auto simp: word_le_nat_alt Suc_le_eq unat_gt_0)
    with False show ?thesis by (auto simp: security_set_level_def settings_of_def not_less)
  qed (auto simp: security_set_level_def)
  show "4 < l \<longrightarrow> security_set_level l s = Some (- 1, s)" by (simp add: security_set_level_def)
  let ?t = "on_settings (\<lambda>_. settings_of 0) s"
  have "security_set_level 0 s = Some (0, ?t)" by (simp add: security_set_level_def settings_of_def)
  moreover have "\<exists>v. security_init junk c ?t = Some (fold emit [Puts (guvenlik @ ''seviyesi: ''),
      Puts [char_of (48 :: nat)], Puts (''/4'' @ newline), Puts (guvenlik @ ''sistemi '' @ started)] v) \<and>
    security_config v = settings_of 0"
    by (simp add: security_init_def i settings_of_def) (intro exI conjI, rule refl, simp)
  ultimately show "\<exists>t u. security_set_level 0 s = Some (0, t) \<and> security_init junk c t = Some u \<and>
      security_config u = settings_of 0 \<and>
      drop (length (con_out u) - 2) (con_out u) = [Puts (''/4'' @ newline), Puts (guvenlik @ ''sistemi '' @ started)] \<and>
      security_encrypt_data c data len out u = Some (- 1, u) \<and>
      security_add_firewall_rule port act u = Some (- 1, u)"
    by (auto simp: security_encrypt_data_def security_add_firewall_rule_def settings_of_def)
qed

text \<open>
  C38: \<^verbatim>\<open>security_encrypt_data\<close> encrypts the first 16 bytes, whatever the length it is given, under
  the key of the source file, and changes no byte outside the 16 of the output.
  \<^verbatim>\<open>security_decrypt_data\<close> applies the block decryption of the code once when output and input
  do not overlap, and twice when they are the same buffer.
\<close>

theorem security_data_one_block:
  fixes s :: "'a ksec_scheme" and data :: u32
  assumes "length (expanded_key c) = 240" "enable_encryption (security_config s) \<noteq> 0"
  defines "x \<equiv> read_bytes (bytes s) data 16"
  shows "\<exists>t u v. security_encrypt_data c data len out s = Some (0, t) \<and>
    read_bytes (bytes t) out 16 = aes_encrypt_block fixed_context x \<and>
    (\<forall>a. a \<notin> block out 16 \<longrightarrow> bytes t a = bytes s a) \<and>
    security_decrypt_data c data len out s = Some (0, u) \<and>
    (block data 16 \<inter> block out 16 = {} \<longrightarrow>
      read_bytes (bytes u) out 16 = aes_decrypt_block fixed_context x) \<and>
    security_decrypt_data c data len data s = Some (0, v) \<and>
    read_bytes (bytes v) data 16 = aes_decrypt_block fixed_context (aes_decrypt_block fixed_context x)"
proof -
  obtain ctx where i: "aes_init (Some c) (Some security_key) AES_128 = Some (0, Some ctx)"
    and e: "aes_encrypt_block ctx = aes_encrypt_block fixed_context"
    and d: "aes_decrypt_block ctx = aes_decrypt_block fixed_context"
    using security_context [OF assms(1)] by blast
  have l: "length (aes_encrypt_block fixed_context x) = 16" "length y = 16 \<Longrightarrow> length (aes_decrypt_block fixed_context y) = 16"
    for y by (simp_all add: aes_encrypt_length aes_decrypt_length x_def)
  have x: "length x = 16" by (simp add: x_def)
  have keep: "read_bytes (store_block out ys m) data 16 = read_bytes m data 16"
    if "block data 16 \<inter> block out 16 = {}" for ys m
    using that by (intro read_bytes_cong store_block_outside) (auto simp: block_def)
  show ?thesis
    using assms(2) keep
    by (simp add: security_encrypt_data_def security_decrypt_data_def i e d encrypt_at_def decrypt_at_def
        x_def [symmetric] read_store_block l x store_block_outside)
qed

text \<open>A machine with encryption on, with the plain block of FIPS-197, C.1, in memory.\<close>

definition ksec0 :: ksec where
  "ksec0 = kaudit.extend kaudit0 \<lparr>security_config = initial_settings,
     sec_firewall = \<lparr>con_out = [], rules = [], rule_count = 0, firewall_enabled = False\<rparr>, sec_crypto = kcrypto0\<rparr>
     \<lparr>bytes := (\<lambda>a. if unat a < 16 then fips_plain ! unat a else 0)\<rparr>"

lemma ksec0_simps [simp]: "security_config ksec0 = initial_settings" "con_out ksec0 = []"
  by (simp_all add: ksec0_def kaudit.defs kaudit0_def kproc.defs kproc0_def kintr.defs kmem.defs kintr0_def kmem0_def)

lemma ksec0_block: "read_bytes (bytes ksec0) 0 16 = fips_plain"
  by (simp add: ksec0_def read_bytes_def fips_plain_def list_eq_iff_nth_eq unat_of_nat take_bit_nat_eq_self)

theorem security_defined_only_when_off_witness:
  "security_init [] blank_context (ksec0\<lparr>security_config := initial_settings\<rparr>) = None \<and>
   security_set_level 3 ksec0 = None \<and> security_set_level 5 ksec0 = Some (- 1, ksec0) \<and>
   (\<exists>t u. security_set_level 0 ksec0 = Some (0, t) \<and> security_init [] blank_context t = Some u)"
proof -
  have l: "length (expanded_key blank_context) = 240" by (simp add: blank_context_def)
  note off = security_defined_only_when_off [OF l, where s = ksec0 and junk = "[]" and data = 0 and len = 0
    and out = 0 and port = 0 and act = 0]
  show ?thesis using off [of 3] off [of 5] by auto
qed

theorem security_data_one_block_witness:
  "\<exists>t v. security_encrypt_data blank_context 0 1000 64 ksec0 = Some (0, t) \<and>
    read_bytes (bytes t) 64 16 = fips_cipher \<and>
    security_decrypt_data blank_context 0 1000 0 ksec0 = Some (0, v) \<and>
    read_bytes (bytes v) 0 16 = aes_decrypt_block fixed_context (aes_decrypt_block fixed_context fips_plain)"
  using security_data_one_block [of blank_context ksec0 0 1000 64] encrypt_fips
  by (auto simp: blank_context_def initial_settings_def ksec0_block fixed_context_def)

end
