(* ===== verification/Acl.thy ===== *)
theory Acl
  imports Filesystem
begin

text \<open>
  Access control lists, \<^verbatim>\<open>src/security/acl.c\<close>. A resource structure points to a heap array of
  entries; \<^verbatim>\<open>acl_add_entry\<close> and \<^verbatim>\<open>acl_remove_entry\<close> copy the array into a fresh block of the
  new length. Resource structures and entry arrays live in two stores, by address. Protecting a
  file also rewrites the owner and the permission mask of its node.
\<close>

section \<open>State\<close>

abbreviation ACL_USER_ROOT :: u32 where "ACL_USER_ROOT \<equiv> 0"
abbreviation ACL_PERM_READ :: u32 where "ACL_PERM_READ \<equiv> 1"
abbreviation ACL_PERM_WRITE :: u32 where "ACL_PERM_WRITE \<equiv> 2"
abbreviation ACL_PERM_EXEC :: u32 where "ACL_PERM_EXEC \<equiv> 4"

record acl_entry =
  ae_user :: u32
  ae_group :: u32
  ae_perms :: u32

datatype acl_resource_type = ACL_RES_FILE | ACL_RES_PROCESS | ACL_RES_MEMORY | ACL_RES_NETWORK

record acl_resource =
  ar_type :: acl_resource_type
  ar_object :: u32
  ar_acl :: u32
  ar_count :: u32

record kacl = kfs +
  resources :: "u32 \<Rightarrow> acl_resource option"
  acls :: "u32 \<Rightarrow> acl_entry list option"

definition ACL_ENTRY_SIZE :: u32 where
  "ACL_ENTRY_SIZE = 12"

definition ACL_RESOURCE_SIZE :: u32 where
  "ACL_RESOURCE_SIZE = 16"

text \<open>The entries that the loops over \<^verbatim>\<open>acl_count\<close> read; reading past the array is undefined.\<close>

definition acl_entries :: "acl_resource \<Rightarrow> 'a kacl_scheme \<Rightarrow> acl_entry list option" where
  "acl_entries r s =
     (if ar_count r = 0 then Some []
      else acls s (ar_acl r) \<bind> (\<lambda>es.
        if unat (ar_count r) \<le> length es then Some (take (unat (ar_count r)) es) else None))"

section \<open>Entries\<close>

text \<open>
  \<open>store_acl n es\<close> fills a block of \<open>n\<close> entries with \<open>es\<close>: more entries than the block has
  room for, because its size in bytes has wrapped, would be written outside it.
\<close>

definition store_acl :: "u32 \<Rightarrow> u32 \<Rightarrow> acl_entry list \<Rightarrow> 'a kacl_scheme \<Rightarrow> 'a kacl_scheme option" where
  "store_acl q n es s =
     (if 12 * length es \<le> unat (n * ACL_ENTRY_SIZE) then Some (s\<lparr>acls := (acls s)(q \<mapsto> es)\<rparr>) else None)"

definition acl_add_entry :: "u32 \<Rightarrow> u32 \<Rightarrow> u32 \<Rightarrow> u32 \<Rightarrow> 'a kacl_scheme \<Rightarrow>
    (int \<times> 'a kacl_scheme) option" where
  "acl_add_entry resource user_id group_id perms s =
     (if resource = 0 then Some (- 1, s)
      else do {
        r \<leftarrow> resources s resource;
        let (q, s1) = kmalloc ((ar_count r + 1) * ACL_ENTRY_SIZE) s;
        if q = 0 then Some (- 1, s1)
        else do {
          es \<leftarrow> acl_entries r s1;
          s2 \<leftarrow> store_acl q (ar_count r + 1)
            (es @ [\<lparr>ae_user = user_id, ae_group = group_id, ae_perms = perms\<rparr>]) s1;
          let s3 = (if ar_acl r \<noteq> 0 then kfree (ar_acl r) s2 else s2);
          Some (0, s3\<lparr>resources := (resources s3)(resource \<mapsto>
            r\<lparr>ar_acl := q, ar_count := ar_count r + 1\<rparr>)\<rparr>)
        }
      })"

text \<open>The search loop, which stops at the first entry of exactly this user and group.\<close>

fun find_entry :: "u32 \<Rightarrow> u32 \<Rightarrow> acl_entry list \<Rightarrow> nat \<Rightarrow> nat option" where
  "find_entry user_id group_id [] i = None"
| "find_entry user_id group_id (e # es) i =
     (if ae_user e = user_id \<and> ae_group e = group_id then Some i
      else find_entry user_id group_id es (Suc i))"

definition acl_remove_entry :: "u32 \<Rightarrow> u32 \<Rightarrow> u32 \<Rightarrow> 'a kacl_scheme \<Rightarrow>
    (int \<times> 'a kacl_scheme) option" where
  "acl_remove_entry resource user_id group_id s =
     (if resource = 0 then Some (- 1, s)
      else do {
        r \<leftarrow> resources s resource;
        if ar_acl r = 0 \<or> ar_count r = 0 then Some (- 1, s)
        else do {
          es \<leftarrow> acl_entries r s;
          case find_entry user_id group_id es 0 of
            None \<Rightarrow> Some (- 1, s)
          | Some i \<Rightarrow>
              if ar_count r = 1
              then let s1 = kfree (ar_acl r) s
                in Some (0, s1\<lparr>resources := (resources s1)(resource \<mapsto> r\<lparr>ar_acl := 0, ar_count := 0\<rparr>)\<rparr>)
              else let (q, s1) = kmalloc ((ar_count r - 1) * ACL_ENTRY_SIZE) s
                in if q = 0 then Some (- 1, s1)
                   else do {
                     s2 \<leftarrow> store_acl q (ar_count r - 1) (take i es @ drop (Suc i) es) s1;
                     let s3 = kfree (ar_acl r) s2;
                     Some (0, s3\<lparr>resources := (resources s3)(resource \<mapsto>
                       r\<lparr>ar_acl := q, ar_count := ar_count r - 1\<rparr>)\<rparr>)
                   }
        }
      })"

fun check_entries :: "u32 \<Rightarrow> u32 \<Rightarrow> u32 \<Rightarrow> acl_entry list \<Rightarrow> bool" where
  "check_entries user_id group_id perm [] = False"
| "check_entries user_id group_id perm (e # es) =
     (if (ae_user e = user_id \<or> ae_group e = group_id) \<and> ae_perms e AND perm = perm then True
      else check_entries user_id group_id perm es)"

definition acl_check_permission :: "u32 \<Rightarrow> u32 \<Rightarrow> u32 \<Rightarrow> u32 \<Rightarrow> 'a kacl_scheme \<Rightarrow> bool option" where
  "acl_check_permission resource user_id group_id perm s =
     (if resource = 0 then Some False
      else do {
        r \<leftarrow> resources s resource;
        if ar_acl r = 0 then Some False
        else if user_id = ACL_USER_ROOT then Some True
        else map_option (check_entries user_id group_id perm) (acl_entries r s)
      })"

section \<open>Protecting resources\<close>

text \<open>
  What the three functions share: a fresh resource structure for the object, with one entry.
  No variable of the kernel keeps its address.
\<close>

definition new_resource :: "acl_resource_type \<Rightarrow> u32 \<Rightarrow> u32 \<Rightarrow> u32 \<Rightarrow> u32 \<Rightarrow> 'a kacl_scheme \<Rightarrow>
    (int \<times> 'a kacl_scheme) option" where
  "new_resource ty object user_id group_id perms s =
     (let (p, s1) = kmalloc ACL_RESOURCE_SIZE s
      in if p = 0 then Some (- 1, s1)
         else do {
           (r, s2) \<leftarrow> acl_add_entry p user_id group_id perms
             (s1\<lparr>resources := (resources s1)(p \<mapsto>
               \<lparr>ar_type = ty, ar_object = object, ar_acl = 0, ar_count = 0\<rparr>)\<rparr>);
           if r < 0 then Some (- 1, kfree p s2) else Some (0, s2)
         })"

definition perm_mask :: "u32 \<Rightarrow> u32" where
  "perm_mask perms =
     (if perms AND ACL_PERM_READ \<noteq> 0 then FS_PERM_READ else 0) OR
     (if perms AND ACL_PERM_WRITE \<noteq> 0 then FS_PERM_WRITE else 0) OR
     (if perms AND ACL_PERM_EXEC \<noteq> 0 then FS_PERM_EXEC else 0)"

definition acl_protect_file :: "u32 \<Rightarrow> u32 \<Rightarrow> u32 \<Rightarrow> u32 \<Rightarrow> 'a kacl_scheme \<Rightarrow>
    (int \<times> 'a kacl_scheme) option" where
  "acl_protect_file file user_id group_id perms s =
     (if file = 0 then Some (- 1, s)
      else do {
        (r, s1) \<leftarrow> new_resource ACL_RES_FILE file user_id group_id perms s;
        if r < 0 then Some (- 1, s1)
        else do {
          s2 \<leftarrow> upd_node file (\<lambda>n. n\<lparr>fn_mask := perm_mask perms, fn_uid := user_id,
            fn_gid := group_id\<rparr>) s1;
          Some (0, s2)
        }
      })"

definition acl_protect_process :: "u32 \<Rightarrow> u32 \<Rightarrow> u32 \<Rightarrow> u32 \<Rightarrow> 'a kacl_scheme \<Rightarrow>
    (int \<times> 'a kacl_scheme) option" where
  "acl_protect_process process user_id group_id perms s =
     (if process = 0 then Some (- 1, s)
      else new_resource ACL_RES_PROCESS process user_id group_id perms s)"

definition acl_protect_memory :: "u32 \<Rightarrow> u32 \<Rightarrow> u32 \<Rightarrow> u32 \<Rightarrow> u32 \<Rightarrow> 'a kacl_scheme \<Rightarrow>
    (int \<times> 'a kacl_scheme) option" where
  "acl_protect_memory memory sz user_id group_id perms s =
     (if memory = 0 then Some (- 1, s)
      else new_resource ACL_RES_MEMORY memory user_id group_id perms s)"

section \<open>Messages\<close>

definition acl_security_init :: "'a console_scheme \<Rightarrow> 'a console_scheme" where
  "acl_security_init s =
     puts (''security init completed'' @ newline)
      (puts (''security audit log init started'' @ newline)
        (puts (''access control list (ACL) init started'' @ newline)
          (puts (''security init started'' @ newline) s)))"

text \<open>The user number is converted in an array of ten characters on the stack.\<close>

definition security_audit_log :: "string \<Rightarrow> u32 \<Rightarrow> u32 \<Rightarrow> u32 \<Rightarrow> 'a console_scheme \<Rightarrow>
    'a console_scheme option" where
  "security_audit_log message user_id resource_id perm s =
     (let s1 = puts '' (Kullanici: '' (puts message (puts ''[GUVENLIK DENETIMI] '' s))
      in itoa_buf 10 (unat user_id) \<bind> (\<lambda>n. Some (puts ('')'' @ newline) (puts n s1))))"

section \<open>Resources as lists of entries\<close>

text \<open>
  \<open>acl_of s p es\<close>: the structure at \<open>p\<close> holds the entries \<open>es\<close>; its pointer is null exactly
  when there are none.
\<close>

definition acl_of :: "'a kacl_scheme \<Rightarrow> u32 \<Rightarrow> acl_entry list \<Rightarrow> bool" where
  "acl_of s p es \<longleftrightarrow> p \<noteq> 0 \<and> (\<exists>r. resources s p = Some r \<and> unat (ar_count r) = length es \<and>
     (ar_acl r = 0 \<longleftrightarrow> es = []) \<and>
     (es \<noteq> [] \<longrightarrow> (\<exists>xs. acls s (ar_acl r) = Some xs \<and> take (length es) xs = es)))"

definition grants :: "u32 \<Rightarrow> u32 \<Rightarrow> u32 \<Rightarrow> acl_entry \<Rightarrow> bool" where
  "grants u g perm e \<longleftrightarrow> (ae_user e = u \<or> ae_group e = g) \<and> ae_perms e AND perm = perm"

lemma emit_kacl [simp]:
  "resources (emit c s) = resources s" "acls (emit c s) = acls s"
  by (simp_all add: emit_def)

lemma kfree_kacl [simp]:
  "resources (kfree p s) = resources s" "acls (kfree p s) = acls s" "nodes (kfree p s) = nodes s"
  "heap_end (kfree p s) = heap_end s"
  by (simp_all add: kfree_def)

lemma acl_entries_of:
  assumes "resources s p = Some r" "unat (ar_count r) = length es"
    "es \<noteq> [] \<longrightarrow> (\<exists>xs. acls s (ar_acl r) = Some xs \<and> take (length es) xs = es)"
  shows "acl_entries r s = Some es"
proof (cases "es = []")
  case True
  with assms(2) show ?thesis by (simp add: acl_entries_def unat_eq_0)
next
  case False
  with assms obtain xs where xs: "acls s (ar_acl r) = Some xs" "take (length es) xs = es" by blast
  then have "length es \<le> length xs" by (metis length_take min.cobounded1)
  moreover have "ar_count r \<noteq> 0" using assms(2) False by (auto simp: unat_eq_0 [symmetric])
  ultimately show ?thesis using xs assms(2) by (simp add: acl_entries_def)
qed

lemma check_entries_grants: "check_entries u g perm es \<longleftrightarrow> (\<exists>e \<in> set es. grants u g perm e)"
  by (induction es) (auto simp: grants_def)

lemma check_acl_of:
  assumes "acl_of s p es"
  shows "acl_check_permission p u g perm s =
    Some (es \<noteq> [] \<and> (u = 0 \<or> (\<exists>e \<in> set es. grants u g perm e)))"
proof -
  obtain r where r: "p \<noteq> 0" "resources s p = Some r" "unat (ar_count r) = length es"
    "ar_acl r = 0 \<longleftrightarrow> es = []"
    "es \<noteq> [] \<longrightarrow> (\<exists>xs. acls s (ar_acl r) = Some xs \<and> take (length es) xs = es)"
    using assms by (auto simp: acl_of_def)
  show ?thesis
    using r acl_entries_of [OF r(2,3,5)]
    by (auto simp: acl_check_permission_def check_entries_grants)
qed

lemma entry_size: "12 * n < 2 ^ 32 \<Longrightarrow> unat c = n \<Longrightarrow> unat (c * ACL_ENTRY_SIZE) = 12 * n"
  by (simp add: ACL_ENTRY_SIZE_def unat_word_ariths)

lemma unat_count_Suc: "12 * Suc n < 2 ^ 32 \<Longrightarrow> unat (c :: u32) = n \<Longrightarrow> unat (c + 1) = Suc n"
  by (simp add: unat_word_ariths)

lemma acl_add_entry_ok:
  fixes s :: "'a kacl_scheme"
  assumes acl: "acl_of s p es" and room: "12 * Suc (length es) < 2 ^ 32" and heap: "heap_end s \<noteq> 0"
  shows "\<exists>t. acl_add_entry p uid gid perms s = Some (0, t) \<and>
    acl_of t p (es @ [\<lparr>ae_user = uid, ae_group = gid, ae_perms = perms\<rparr>]) \<and>
    nodes t = nodes s \<and> heap_end t = heap_end s + of_nat (12 * Suc (length es))"
proof -
  obtain r where r: "p \<noteq> 0" "resources s p = Some r" "unat (ar_count r) = length es"
    "es \<noteq> [] \<longrightarrow> (\<exists>xs. acls s (ar_acl r) = Some xs \<and> take (length es) xs = es)"
    using acl by (auto simp: acl_of_def)
  have cnt: "unat (ar_count r + 1) = Suc (length es)" using unat_count_Suc [OF room r(3)] .
  have sz: "unat ((ar_count r + 1) * ACL_ENTRY_SIZE) = 12 * Suc (length es)"
    using entry_size [OF room cnt] .
  let ?e = "\<lparr>ae_user = uid, ae_group = gid, ae_perms = perms\<rparr>"
  let ?s1 = "s\<lparr>heap_end := heap_end s + (ar_count r + 1) * ACL_ENTRY_SIZE\<rparr>"
  let ?s2 = "?s1\<lparr>acls := (acls s)(heap_end s \<mapsto> es @ [?e])\<rparr>"
  let ?s3 = "if ar_acl r \<noteq> 0 then kfree (ar_acl r) ?s2 else ?s2"
  let ?t = "?s3\<lparr>resources := (resources ?s3)(p \<mapsto> r\<lparr>ar_acl := heap_end s, ar_count := ar_count r + 1\<rparr>)\<rparr>"
  have "acl_entries r ?s1 = acl_entries r s" by (simp add: acl_entries_def)
  then have "acl_entries r ?s1 = Some es" using acl_entries_of [OF r(2-4)] by simp
  then have "acl_add_entry p uid gid perms s = Some (0, ?t)"
    using r heap sz by (simp add: acl_add_entry_def kmalloc_eq store_acl_def Let_def)
  moreover have "acl_of ?t p (es @ [?e])"
    using r(1) heap cnt by (simp add: acl_of_def)
  moreover have "(ar_count r + 1) * ACL_ENTRY_SIZE = of_nat (12 * Suc (length es))"
    by (subst sz [symmetric]) simp
  then have "heap_end ?t = heap_end s + of_nat (12 * Suc (length es))" by simp
  moreover have "nodes ?t = nodes s" by simp
  ultimately show ?thesis by blast
qed

lemma find_entry_app:
  "\<forall>e \<in> set es. \<not> (ae_user e = u \<and> ae_group e = g) \<Longrightarrow>
    find_entry u g (es @ e # es') i =
      (if ae_user e = u \<and> ae_group e = g then Some (i + length es)
       else find_entry u g es' (Suc (i + length es)))"
  by (induction es arbitrary: i) auto

lemma acl_remove_entry_ok:
  fixes s :: "'a kacl_scheme"
  assumes acl: "acl_of s p (es @ e # es')" and heap: "heap_end s \<noteq> 0"
    and e: "ae_user e = uid" "ae_group e = gid"
    and first: "\<forall>e \<in> set es. \<not> (ae_user e = uid \<and> ae_group e = gid)"
    and room: "12 * length (es @ e # es') < 2 ^ 32"
  shows "\<exists>t. acl_remove_entry p uid gid s = Some (0, t) \<and> acl_of t p (es @ es')"
proof -
  let ?all = "es @ e # es'"
  obtain r where r: "p \<noteq> 0" "resources s p = Some r" "unat (ar_count r) = length ?all"
    "ar_acl r \<noteq> 0" "?all \<noteq> [] \<longrightarrow> (\<exists>xs. acls s (ar_acl r) = Some xs \<and> take (length ?all) xs = ?all)"
    using acl by (auto simp: acl_of_def)
  have ents: "acl_entries r s = Some ?all" using acl_entries_of [OF r(2,3,5)] .
  have find: "find_entry uid gid ?all 0 = Some (length es)"
    using find_entry_app [OF first, of e es' 0] e by simp
  have nz: "ar_count r \<noteq> 0" using r(3) by (auto simp: unat_eq_0 [symmetric])
  show ?thesis
  proof (cases "ar_count r = 1")
    case True
    with r(3) have "es = [] \<and> es' = []" by simp
    then show ?thesis
      using True r ents find nz by (simp add: acl_remove_entry_def acl_of_def Let_def)
  next
    case False
    have pred: "unat (ar_count r - 1) = length (es @ es')"
      using nz r(3) by (simp add: unat_minus_one)
    have ne: "es @ es' \<noteq> []"
    proof
      assume "es @ es' = []"
      with r(3) have "unat (ar_count r) = unat (1 :: u32)" by simp
      then show False using False by (simp only: word_unat_eq_iff [symmetric])
    qed
    have "unat ((ar_count r - 1) * ACL_ENTRY_SIZE) = 12 * length (es @ es')"
      using room by (intro entry_size pred) simp
    then show ?thesis
      using False r ents find nz heap ne pred
      by (simp add: acl_remove_entry_def kmalloc_eq store_acl_def acl_of_def Let_def)
  qed
qed

section \<open>Properties\<close>

text \<open>
  C27: the decisions of a list of entries. A list without entries denies everybody, the root
  user included. Adding an entry succeeds and allows, besides what the list allowed and
  everything for root, exactly the accesses within the new permissions by the user or by the
  group of the entry; removing the entry of that user and group again gives back the old list,
  provided it had none of its own for the same pair.
\<close>

theorem acl_add_grants_then_remove:
  assumes "acl_of s p es" "heap_end s \<noteq> 0"
    "unat (heap_end s) + 12 * Suc (length es) < 2 ^ 32"
  shows "acl_check_permission p u g pm s =
      Some (es \<noteq> [] \<and> (u = 0 \<or> (\<exists>e \<in> set es. grants u g pm e))) \<and>
    (\<exists>t. acl_add_entry p uid gid perms s = Some (0, t) \<and>
      acl_check_permission p u g pm t =
        Some (u = 0 \<or> (\<exists>e \<in> set es. grants u g pm e) \<or> (u = uid \<or> g = gid) \<and> perms AND pm = pm) \<and>
      ((\<forall>e \<in> set es. \<not> (ae_user e = uid \<and> ae_group e = gid)) \<longrightarrow>
        (\<exists>t'. acl_remove_entry p uid gid t = Some (0, t') \<and> acl_of t' p es)))"
proof -
  let ?e = "\<lparr>ae_user = uid, ae_group = gid, ae_perms = perms\<rparr>"
  have room: "12 * Suc (length es) < 2 ^ 32" using assms(3) by linarith
  obtain t where t: "acl_add_entry p uid gid perms s = Some (0, t)" "acl_of t p (es @ [?e])"
    "heap_end t = heap_end s + of_nat (12 * Suc (length es))"
    using acl_add_entry_ok [OF assms(1) room assms(2), of uid gid perms] by blast
  have "unat (heap_end t) = unat (heap_end s) + 12 * Suc (length es)"
    using assms(3) by (simp add: t(3) unat_word_ariths unat_of_nat)
  then have heap: "heap_end t \<noteq> 0" by (auto simp: unat_eq_0 [symmetric])
  have undo: "(\<forall>e \<in> set es. \<not> (ae_user e = uid \<and> ae_group e = gid)) \<Longrightarrow>
      \<exists>t'. acl_remove_entry p uid gid t = Some (0, t') \<and> acl_of t' p es"
    using acl_remove_entry_ok [of t p es ?e "[]" uid gid] t(2) heap room by simp
  have "acl_check_permission p u g pm t = Some (u = 0 \<or> (\<exists>e \<in> set es. grants u g pm e) \<or>
      (u = uid \<or> g = gid) \<and> perms AND pm = pm)"
    unfolding check_acl_of [OF t(2)] by (auto simp: grants_def)
  with t(1) undo check_acl_of [OF assms(1)] show ?thesis by blast
qed

text \<open>A machine with one resource, at first without entries.\<close>

definition kacl0 :: kacl where
  "kacl0 = kfs.extend kfs0 \<lparr>resources = [0x700000 \<mapsto> \<lparr>ar_type = ACL_RES_PROCESS,
     ar_object = 0x600000, ar_acl = 0, ar_count = 0\<rparr>], acls = Map.empty\<rparr>"

lemma acl_of_kacl0: "acl_of kacl0 0x700000 []"
  by (simp add: acl_of_def kacl0_def kfs.defs)

lemma heap_end_kacl0: "heap_end kacl0 = heap_end kmem0"
  by (simp add: kacl0_def kfs.defs kfs0_def kproc.defs kproc0_def kintr.defs kintr0_def kmem.defs)

theorem acl_add_grants_then_remove_witness:
  "acl_check_permission 0x700000 0 0 ACL_PERM_READ kacl0 = Some False \<and>
   (\<exists>t. acl_add_entry 0x700000 1000 100 3 kacl0 = Some (0, t) \<and>
      acl_check_permission 0x700000 5 100 ACL_PERM_WRITE t = Some True \<and>
      (\<exists>t'. acl_remove_entry 0x700000 1000 100 t = Some (0, t')))"
  using acl_add_grants_then_remove [OF acl_of_kacl0, of 0 0 ACL_PERM_READ 1000 100 3]
    acl_add_grants_then_remove [OF acl_of_kacl0, of 5 100 ACL_PERM_WRITE 1000 100 3]
  by (auto simp: heap_end_kacl0 kmem0_def)

lemma perm_mask_low: "perm_mask perms = perms AND 7"
proof -
  have seven: "(7 :: u32) = mask 3" by (simp add: mask_eq_exp_minus_1)
  have bits: "perms AND 1 \<noteq> 0 \<longleftrightarrow> bit perms 0" "perms AND 2 \<noteq> 0 \<longleftrightarrow> bit perms 1"
    "perms AND 4 \<noteq> 0 \<longleftrightarrow> bit perms 2"
    using and_exp_eq_0_iff_not_bit [of perms 0] and_exp_eq_0_iff_not_bit [of perms 1]
      and_exp_eq_0_iff_not_bit [of perms 2] by simp_all
  have four: "(4 :: u32) = 2 ^ 2" and two: "(2 :: u32) = 2 ^ 1" by simp_all
  show ?thesis
  proof (rule bit_word_eqI)
    fix n assume "n < LENGTH(32)"
    then consider "n = 0" | "n = 1" | "n = 2" | "3 \<le> n" by linarith
    then show "bit (perm_mask perms) n = bit (perms AND 7) n"
      unfolding seven perm_mask_def bits FS_PERM_READ_def FS_PERM_WRITE_def FS_PERM_EXEC_def
      by cases (auto simp: bit_simps bit_1_iff four simp del: power_numeral)
  qed
qed

lemma new_resource_ok:
  fixes s :: "'a kacl_scheme"
  assumes "heap_end s \<noteq> 0" "unat (heap_end s) + 28 < 2 ^ 32"
  shows "\<exists>t. new_resource ty object uid gid perms s = Some (0, t) \<and>
    acl_of t (heap_end s) [\<lparr>ae_user = uid, ae_group = gid, ae_perms = perms\<rparr>] \<and> nodes t = nodes s"
proof -
  let ?s1 = "s\<lparr>heap_end := heap_end s + ACL_RESOURCE_SIZE, resources := (resources s)(heap_end s \<mapsto>
    \<lparr>ar_type = ty, ar_object = object, ar_acl = 0, ar_count = 0\<rparr>)\<rparr>"
  have "unat (heap_end ?s1) = unat (heap_end s) + 16"
    using assms(2) by (simp add: ACL_RESOURCE_SIZE_def unat_word_ariths)
  then have heap: "heap_end ?s1 \<noteq> 0" by (auto simp: unat_eq_0 [symmetric])
  have "acl_of ?s1 (heap_end s) []" using assms(1) by (simp add: acl_of_def)
  from acl_add_entry_ok [OF this _ heap, of uid gid perms] obtain t where
    "acl_add_entry (heap_end s) uid gid perms ?s1 = Some (0, t)"
    "acl_of t (heap_end s) [\<lparr>ae_user = uid, ae_group = gid, ae_perms = perms\<rparr>]" "nodes t = nodes s"
    by auto
  then show ?thesis using assms(1) by (simp add: new_resource_def kmalloc_eq)
qed

text \<open>
  Protecting a file. \<^verbatim>\<open>acl_protect_file\<close> makes the user the owner of the file and gives
  him the permissions in a list of its own, at an address that no variable keeps; the file
  system, which reads the mask only, then gives them to neither. The mask holds the permissions
  in the bits of the others, so the owner and the members of the group are denied every access,
  while everybody else is allowed what was meant for the owner.
\<close>

theorem acl_protect_file_denies_owner:
  assumes "nodes s f = Some n" "f \<noteq> 0" "heap_end s \<noteq> 0" "unat (heap_end s) + 28 < 2 ^ 32"
    "access AND NOT 7 = 0" "access \<noteq> 0"
  shows "\<exists>t. acl_protect_file f uid gid perms s = Some (0, t) \<and>
    acl_check_permission (heap_end s) u g access t =
      Some (u = 0 \<or> (u = uid \<or> g = gid) \<and> perms AND access = access) \<and>
    fs_check_permission f access u g t =
      Some (u = 0 \<or> u \<noteq> uid \<and> g \<noteq> gid \<and> perms AND access = access)"
proof -
  obtain t where t: "new_resource ACL_RES_FILE f uid gid perms s = Some (0, t)"
    "acl_of t (heap_end s) [\<lparr>ae_user = uid, ae_group = gid, ae_perms = perms\<rparr>]" "nodes t = nodes s"
    using new_resource_ok [OF assms(3,4)] by blast
  let ?t = "t\<lparr>nodes := (nodes t)(f \<mapsto> n\<lparr>fn_mask := perm_mask perms, fn_uid := uid, fn_gid := gid\<rparr>)\<rparr>"
  have protect: "acl_protect_file f uid gid perms s = Some (0, ?t)"
    using assms(1,2) t(1,3) by (simp add: acl_protect_file_def upd_node_def)
  have "acl_of ?t (heap_end s) [\<lparr>ae_user = uid, ae_group = gid, ae_perms = perms\<rparr>]"
    using t(2) by (simp add: acl_of_def)
  from check_acl_of [OF this] have acl: "acl_check_permission (heap_end s) u g access ?t =
      Some (u = 0 \<or> (u = uid \<or> g = gid) \<and> perms AND access = access)"
    by (auto simp: grants_def)
  have seven: "(7 :: u32) = mask 3" by (simp add: mask_eq_exp_minus_1)
  have high: "drop_bit k (perms AND 7) = 0" if "3 \<le> k" for k
  proof (rule bit_word_eqI)
    show "bit (drop_bit k (perms AND 7)) m = bit (0 :: u32) m" for m
      using that unfolding seven by (simp add: bit_simps)
  qed
  have low: "(perms AND 7) AND access = access \<longleftrightarrow> perms AND access = access"
  proof -
    have "7 AND access = access"
    proof (rule bit_word_eqI)
      fix m assume "m < LENGTH(32)"
      have "bit (access AND NOT 7) m = bit (0 :: u32) m" using assms(5) by simp
      then show "bit (7 AND access) m = bit access m"
        using \<open>m < LENGTH(32)\<close> unfolding seven by (auto simp: bit_simps)
    qed
    then show ?thesis by (simp add: and.assoc)
  qed
  have "fs_check_permission f access u g ?t =
      Some (u = 0 \<or> u \<noteq> uid \<and> g \<noteq> gid \<and> perms AND access = access)"
    using assms(2,6) low high class_bits [OF assms(5), of 6 "perms AND 7"]
      class_bits [OF assms(5), of 3 "perms AND 7"]
    by (simp add: fs_check_permission_def perm_mask_low)
  with protect acl show ?thesis by blast
qed

theorem acl_protect_file_denies_owner_witness:
  "\<exists>t. acl_protect_file 0x5000 1000 1000 6 (kacl0\<lparr>nodes := [0x5000 \<mapsto> zero_node]\<rparr>) = Some (0, t) \<and>
    fs_check_permission 0x5000 FS_PERM_WRITE 1000 1000 t = Some False"
  using acl_protect_file_denies_owner [of "kacl0\<lparr>nodes := [0x5000 \<mapsto> zero_node]\<rparr>" "0x5000" zero_node
      FS_PERM_WRITE 1000 1000 6 1000 1000]
  by (auto simp: heap_end_kacl0 kmem0_def FS_PERM_WRITE_def)

text \<open>
  The audit message of this component: user numbers of ten digits do not fit the array.
\<close>

lemma security_audit_log_eq:
  "security_audit_log msg uid rid perm s =
    (if unat uid < 10 ^ 9
     then Some (puts ('')'' @ newline) (puts (dec_str (unat uid))
       (puts '' (Kullanici: '' (puts msg (puts ''[GUVENLIK DENETIMI] '' s)))))
     else None)"
proof (cases "unat uid < 10 ^ 9")
  case True
  then have "length (dec_str (unat uid)) \<le> 9" by (intro length_dec_str) simp_all
  with True show ?thesis by (simp add: security_audit_log_def itoa_buf_eq)
next
  case False
  then have "10 \<le> length (dec_str (unat uid))" using length_dec_str_ge [of 9 "unat uid"] by simp
  with False show ?thesis by (simp add: security_audit_log_def itoa_buf_eq)
qed

end
