(* ===== verification/VgaTerminal.thy ===== *)
theory VgaTerminal
  imports Terminal
begin

text \<open>
  The second terminal driver of the repository, \<^verbatim>\<open>src/drivers/terminal/terminal.c\<close>, the one the
  \<^verbatim>\<open>Makefile\<close> builds: characters are stored round the page without scrolling and without a
  hardware cursor. Its functions carry the names of the other driver's; here they begin with
  \<open>vga\<close>. The cell and colour codes are those of the other driver.
\<close>

section \<open>State and operations\<close>

text \<open>The static variables; \<open>vg_buffer\<close> is the memory \<^verbatim>\<open>terminal_buffer\<close> points to.\<close>

record kvga =
  vg_color :: u8
  vg_buffer :: "u16 list"
  vg_row :: u32
  vg_column :: u32

definition vga_index :: "nat \<Rightarrow> nat \<Rightarrow> nat" where
  "vga_index y x = y * VGA_WIDTH + x"

definition vga_clear :: "kvga \<Rightarrow> kvga" where
  "vga_clear s = s\<lparr>vg_buffer :=
     fold (\<lambda>y. fold (\<lambda>x cells. cells[vga_index y x := vga_entry (CHR '' '') (vg_color s)]) [0..<VGA_WIDTH])
       [0..<VGA_HEIGHT] (vg_buffer s)\<rparr>"

definition vga_initialize :: "kvga \<Rightarrow> kvga" where
  "vga_initialize s =
     vga_clear (s\<lparr>vg_row := 0, vg_column := 0,
       vg_color := vga_entry_color (color_code VGA_COLOR_WHITE) (color_code VGA_COLOR_BLACK)\<rparr>)"

definition vga_setcolor :: "u8 \<Rightarrow> kvga \<Rightarrow> kvga" where
  "vga_setcolor color s = s\<lparr>vg_color := color\<rparr>"

definition vga_putchar :: "char \<Rightarrow> kvga \<Rightarrow> kvga option" where
  "vga_putchar c s =
     (if c = CHR 0x0A
      then let s1 = s\<lparr>vg_column := 0, vg_row := vg_row s + 1\<rparr>
           in Some (if vg_row s1 = of_nat VGA_HEIGHT then s1\<lparr>vg_row := 0\<rparr> else s1)
      else do {
        let index = vg_row s * of_nat VGA_WIDTH + vg_column s;
        cells \<leftarrow> arr_set (vg_buffer s) (unat index) (vga_entry c (vg_color s));
        let s1 = s\<lparr>vg_buffer := cells, vg_column := vg_column s + 1\<rparr>;
        Some (if vg_column s1 = of_nat VGA_WIDTH
              then let s2 = s1\<lparr>vg_column := 0, vg_row := vg_row s1 + 1\<rparr>
                in if vg_row s2 = of_nat VGA_HEIGHT then s2\<lparr>vg_row := 0\<rparr> else s2
              else s1)
      })"

definition vga_write :: "string \<Rightarrow> nat \<Rightarrow> kvga \<Rightarrow> kvga option" where
  "vga_write data n = fold_opt (\<lambda>i. vga_putchar (data ! i)) [0..<n]"

definition vga_writestring :: "string \<Rightarrow> kvga \<Rightarrow> kvga option" where
  "vga_writestring data = fold_opt vga_putchar data"

section \<open>The page as a ring\<close>

definition vga_ok :: "kvga \<Rightarrow> bool" where
  "vga_ok s \<longleftrightarrow> length (vg_buffer s) = 2000 \<and> unat (vg_row s) < 25 \<and> unat (vg_column s) < 80"

definition vga_pos :: "kvga \<Rightarrow> nat" where
  "vga_pos s = unat (vg_row s) * 80 + unat (vg_column s)"

text \<open>
  A character on the ring of 2000 cells: a newline goes to the start of the next row, anything
  else is stored, and after the last cell comes the first.
\<close>

definition ring_step :: "u8 \<Rightarrow> char \<Rightarrow> u16 list \<times> nat \<Rightarrow> u16 list \<times> nat" where
  "ring_step color c = (\<lambda>(cells, p).
     if c = CHR 0x0A then (cells, (p div 80 + 1) * 80 mod 2000)
     else (cells[p := vga_entry c color], (p + 1) mod 2000))"

lemma vga_pos_less: "vga_ok s \<Longrightarrow> vga_pos s < 2000"
  by (simp add: vga_ok_def vga_pos_def)

lemma vga_index_unat: "vga_ok s \<Longrightarrow> unat (vg_row s * 80 + vg_column s) = vga_pos s"
  by (simp add: vga_ok_def vga_pos_def unat_word_ariths)

lemma vga_putchar_ring:
  assumes "vga_ok s"
  shows "\<exists>t. vga_putchar c s = Some t \<and> vga_ok t \<and> vg_color t = vg_color s \<and>
    (vg_buffer t, vga_pos t) = ring_step (vg_color s) c (vg_buffer s, vga_pos s)"
proof -
  have b: "length (vg_buffer s) = 2000" "unat (vg_row s) < 25" "unat (vg_column s) < 80"
    using assms by (simp_all add: vga_ok_def)
  have u: "unat (vg_row s + 1) = unat (vg_row s) + 1" "unat (vg_column s + 1) = unat (vg_column s) + 1"
    using b by (simp_all add: unat_word_ariths)
  have e: "vg_row s + 1 = 25 \<longleftrightarrow> unat (vg_row s) + 1 = 25" "vg_column s + 1 = 80 \<longleftrightarrow> unat (vg_column s) + 1 = 80"
    using u by (simp_all add: word_unat_eq_iff)
  have d: "vga_pos s div 80 = unat (vg_row s)" using b by (simp add: vga_pos_def)
  have i: "vga_pos s < length (vg_buffer s)" using vga_pos_less [OF assms] b by simp
  show ?thesis
  proof (cases "c = CHR 0x0A")
    case True
    then show ?thesis using b u e
      by (auto simp: vga_putchar_def Let_def vga_ok_def ring_step_def d) (auto simp: vga_pos_def)
  next
    case False
    then show ?thesis using b u e i
      by (auto simp: vga_putchar_def Let_def vga_index_unat [OF assms] arr_set_def ring_step_def)
        (auto simp: vga_ok_def vga_pos_def)
  qed
qed

interpretation vga: simulation vga_putchar "\<lambda>s. vga_ok s \<and> vg_color s = col"
  "\<lambda>s. (vg_buffer s, vga_pos s)" "ring_step col" "\<lambda>_. True"
  for col
  by unfold_locales (use vga_putchar_ring in auto)

lemma vga_writestring_ring:
  "vga_ok s \<Longrightarrow> \<exists>t. vga_writestring data s = Some t \<and> vga_ok t \<and> vg_color t = vg_color s \<and>
    (vg_buffer t, vga_pos t) = fold (ring_step (vg_color s)) data (vg_buffer s, vga_pos s)"
  using vga.run_sim [of s "vg_color s" data] by (auto simp: vga_writestring_def)

lemma ring_text:
  assumes "CHR 0x0A \<notin> set data" "length data \<le> 2000" "length cells = 2000" "p < 2000"
  shows "snd (fold (ring_step color) data (cells, p)) = (p + length data) mod 2000 \<and>
    length (fst (fold (ring_step color) data (cells, p))) = 2000 \<and>
    (\<forall>i < length data. fst (fold (ring_step color) data (cells, p)) ! ((p + i) mod 2000) = vga_entry (data ! i) color) \<and>
    (\<forall>k < 2000. (\<forall>i < length data. k \<noteq> (p + i) mod 2000) \<longrightarrow>
      fst (fold (ring_step color) data (cells, p)) ! k = cells ! k)"
  using assms(1,2)
proof (induction data rule: rev_induct)
  case Nil
  then show ?case using assms(3,4) by simp
next
  case (snoc c data)
  let ?r = "fold (ring_step color) data (cells, p)"
  have IH: "snd ?r = (p + length data) mod 2000" "length (fst ?r) = 2000"
    "\<And>i. i < length data \<Longrightarrow> fst ?r ! ((p + i) mod 2000) = vga_entry (data ! i) color"
    "\<And>k. k < 2000 \<Longrightarrow> \<forall>i < length data. k \<noteq> (p + i) mod 2000 \<Longrightarrow> fst ?r ! k = cells ! k"
    using snoc by auto
  have step: "fold (ring_step color) (data @ [c]) (cells, p) =
      ((fst ?r)[(p + length data) mod 2000 := vga_entry c color], Suc (p + length data) mod 2000)"
    using snoc.prems(1) IH(1) by (cases ?r) (auto simp: ring_step_def mod_Suc_eq)
  have ne: "(p + i) mod 2000 \<noteq> (p + length data) mod 2000" if "i < length data" for i
  proof
    assume "(p + i) mod 2000 = (p + length data) mod 2000"
    then have "2000 dvd length data - i" using that mod_eq_dvd_iff_nat [of "p + i" "p + length data" 2000] by simp
    then show False using that snoc.prems(2) by (auto dest: dvd_imp_le)
  qed
  show ?case
    unfolding step using IH ne
    by (auto simp: nth_append less_Suc_eq nth_list_update) (metis (no_types, lifting))+
qed

lemma vga_write_prefix: "n \<le> length data \<Longrightarrow> vga_write data n s = vga_writestring (take n data) s"
proof -
  assume n: "n \<le> length data"
  then have "take n data = map ((!) data) [0..<n]" by (simp add: list_eq_iff_nth_eq)
  then show ?thesis by (simp add: vga_write_def vga_writestring_def fold_opt_map comp_def)
qed

text \<open>
  C40: the page is a ring. A text of at most 2000 characters without a newline is stored round
  the page from the cursor on, and nothing else changes; a newline moves to the start of the
  next row, or of the first after the last, and changes no cell: nothing is ever scrolled or
  erased, and a text continues over what the page shows. \<^verbatim>\<open>terminal_write\<close> of a prefix writes
  what \<^verbatim>\<open>terminal_writestring\<close> writes.
\<close>

theorem vga_text_is_a_ring:
  assumes "vga_ok s" "CHR 0x0A \<notin> set data" "length data \<le> 2000" "n \<le> length data"
  shows "(\<exists>t. vga_writestring data s = Some t \<and> vga_ok t \<and> vga_pos t = (vga_pos s + length data) mod 2000 \<and>
      (\<forall>i < length data. vg_buffer t ! ((vga_pos s + i) mod 2000) = vga_entry (data ! i) (vg_color s)) \<and>
      (\<forall>k < 2000. (\<forall>i < length data. k \<noteq> (vga_pos s + i) mod 2000) \<longrightarrow> vg_buffer t ! k = vg_buffer s ! k)) \<and>
    (\<exists>t. vga_writestring newline s = Some t \<and> vga_ok t \<and> vg_buffer t = vg_buffer s \<and>
      vga_pos t = (vga_pos s div 80 + 1) * 80 mod 2000) \<and>
    vga_write data n s = vga_writestring (take n data) s"
proof (intro conjI)
  have "length (vg_buffer s) = 2000" using assms(1) by (simp add: vga_ok_def)
  note ring = ring_text [OF assms(2,3) this vga_pos_less [OF assms(1)], of "vg_color s"]
  obtain t where "vga_writestring data s = Some t" "vga_ok t"
    "(vg_buffer t, vga_pos t) = fold (ring_step (vg_color s)) data (vg_buffer s, vga_pos s)"
    using vga_writestring_ring [OF assms(1)] by blast
  then show "\<exists>t. vga_writestring data s = Some t \<and> vga_ok t \<and> vga_pos t = (vga_pos s + length data) mod 2000 \<and>
      (\<forall>i < length data. vg_buffer t ! ((vga_pos s + i) mod 2000) = vga_entry (data ! i) (vg_color s)) \<and>
      (\<forall>k < 2000. (\<forall>i < length data. k \<noteq> (vga_pos s + i) mod 2000) \<longrightarrow> vg_buffer t ! k = vg_buffer s ! k)"
    using ring by (metis fst_conv snd_conv)
  show "\<exists>t. vga_writestring newline s = Some t \<and> vga_ok t \<and> vg_buffer t = vg_buffer s \<and>
      vga_pos t = (vga_pos s div 80 + 1) * 80 mod 2000"
    using vga_writestring_ring [OF assms(1), of newline] by (auto simp: newline_def ring_step_def)
qed (rule vga_write_prefix [OF assms(4)])

definition kvga0 :: kvga where
  "kvga0 = \<lparr>vg_color = 7, vg_buffer = replicate 2000 0, vg_row = 24, vg_column = 78\<rparr>"

theorem vga_text_is_a_ring_witness:
  "\<exists>t. vga_writestring ''abc'' kvga0 = Some t \<and> vg_buffer t ! 1999 = vga_entry (CHR ''b'') 7 \<and>
     vg_buffer t ! 0 = vga_entry (CHR ''c'') 7 \<and> vg_buffer t ! 5 = 0 \<and> vga_pos t = 1"
proof -
  have ok: "vga_ok kvga0" "vga_pos kvga0 = 1998" by (simp_all add: kvga0_def vga_ok_def vga_pos_def)
  have data: "CHR 0x0A \<notin> set ''abc''" "length ''abc'' \<le> 2000" "0 \<le> length ''abc''" by simp_all
  obtain t where t: "vga_writestring ''abc'' kvga0 = Some t" "vga_pos t = (1998 + length ''abc'') mod 2000"
    "\<forall>i < length ''abc''. vg_buffer t ! ((1998 + i) mod 2000) = vga_entry (''abc'' ! i) 7"
    "\<forall>k < 2000. (\<forall>i < length ''abc''. k \<noteq> (1998 + i) mod 2000) \<longrightarrow> vg_buffer t ! k = vg_buffer kvga0 ! k"
    using vga_text_is_a_ring [OF ok(1) data, unfolded ok(2)] by (auto simp: kvga0_def)
  have "vg_buffer t ! 1999 = vga_entry (CHR ''b'') 7" "vg_buffer t ! 0 = vga_entry (CHR ''c'') 7"
    using t(3) [rule_format, of 1] t(3) [rule_format, of 2] by simp_all
  moreover have "vg_buffer t ! 5 = 0"
  proof -
    have "\<forall>i < length ''abc''. 5 \<noteq> (1998 + i) mod (2000 :: nat)" by (auto simp: less_Suc_eq)
    with t(4) show ?thesis by (simp add: kvga0_def)
  qed
  ultimately show ?thesis using t(1,2) by simp
qed

end
