(* ===== verification/Spec2Isabelle.thy ===== *)
theory Spec2Isabelle
  imports Machine Syscall Network Wifi Security Acl VgaTerminal
begin

text \<open>
  KluxOS, a 32-bit kernel for PCs in C, as one model: every C file under \<^verbatim>\<open>src/\<close> of the repository
  is translated function by function, and the theorems state what the components guarantee, and
  where the code does not do what it means to.

  \<^bold>\<open>The program.\<close> \<^verbatim>\<open>kernel_main\<close> starts the terminal, the memory manager, the interrupt tables, the
  timer and the keyboard, and hands over to the shell. Around these stand the processes and their
  round-robin scheduler, a virtual file system, the system calls, a network stack with a packet
  filter, a wireless driver, and the security part: access control lists, an audit log, toy
  ciphers and AES. The components share the heap, the interrupt handler table and the terminal.

  \<^bold>\<open>State.\<close> The static variables of a component are the fields of a record, and the record of a
  component extends those of the components it calls: \<open>kcon\<close> (the calls to the terminal) \<open>\<le>\<close>
  \<open>kmem\<close> (bytes, heap pointer, page tables, frames) \<open>\<le>\<close> \<open>kintr\<close> (descriptor and handler tables,
  port writes) \<open>\<le>\<close> \<open>kproc\<close> (processes) \<open>\<le>\<close> \<open>kfs\<close> (nodes) \<open>\<le>\<close> \<open>kshell\<close>, \<open>ksys\<close>, \<open>kacl\<close>, and beside
  them \<open>ktimer\<close>, \<open>kkbd\<close>, \<open>kaudit\<close>, \<open>kcrypto\<close>, \<open>ksec\<close>, \<open>knet\<close>, \<open>kwifi\<close>. Operations are written for
  every extension (\<open>'a kmem_scheme\<close>), so a client uses them as they are and what they leave alone is
  visible in their types. \<^verbatim>\<open>uint32_t\<close> and its relatives are words of their width; structures on
  the heap live in stores from addresses to records, byte buffers in the byte memory.

  \<^bold>\<open>Undefined and endless behaviour.\<close> \<^const>\<open>None\<close> is a step that C leaves undefined (a null or
  dangling pointer, an array access out of range, a call through a declaration that passes other
  parameters than the definition reads, a division by zero), a loop that does not end, or the
  processor that cannot go on after paging has been switched on. The byte memory is the exception
  to the first: it is the physical memory, where a raw access of \<^verbatim>\<open>memset\<close>, \<^verbatim>\<open>memcpy\<close> or the page
  tables (through the external \<^verbatim>\<open>page_directory\<close>, too) is defined at every address, as on the machine
  without paging; \<^const>\<open>None\<close> belongs to structures, arrays and calls. Loops that end by their text are structural or
  well-founded recursions; loops that need not end (list traversals, waiting for a device or a
  clock, the dispatchers of \<^verbatim>\<open>fs.c\<close>, the shell) are least fixed points in the option type, so that
  \<^const>\<open>None\<close> is never returning, and a theorem that such a loop returns says so with \<^const>\<open>Some\<close>. No
  fuel is used anywhere.

  \<^bold>\<open>Theories.\<close>
  \<^item> \<open>Prelude\<close>: word types, checked arrays, C strings; the locale \<open>bit_set\<close>, and the locale
    \<open>simulation\<close> of a driver that takes events one at a time, which both terminals and the running
    machine interpret. \<open>Links\<close>: null-terminated
    linked lists in a store, shared by processes and directories.
  \<^item> \<open>Console\<close>: the interface \<^verbatim>\<open>include/drivers/terminal.h\<close> as the sequence of calls a component makes.
    \<open>Terminal\<close>: \<^verbatim>\<open>src/drivers/terminal.c\<close>, the driver behind it; it is refined from a tape of 2000
    cells, and every sequence of console calls is defined on it. \<open>VgaTerminal\<close>: the second driver,
    \<^verbatim>\<open>src/drivers/terminal/terminal.c\<close>.
  \<^item> \<open>Memory\<close>, \<open>Heap\<close>, \<open>Paging\<close>, \<open>MemoryInit\<close>: \<^verbatim>\<open>src/kernel/mm\<close>. The locale \<open>allocator\<close> states what \<^verbatim>\<open>kmalloc\<close>
    promises its clients (disjoint blocks, untouched contents) and is interpreted on the bump
    allocator; frames are a \<open>bit_set\<close>. \<open>MemoryInit\<close> also holds the walk of the processor through the
    tables CR3 points to. \<^verbatim>\<open>switch_page_directory\<close> loads CR3 from a field that nothing sets, so with 0;
    the definition asks whether the walk from there maps the kernel and the screen to themselves,
    and everything that follows in \<open>Boot\<close> and \<open>Machine\<close> is for the case that it does.
  \<^item> \<open>Interrupts\<close>: \<^verbatim>\<open>src/kernel/interrupt.c\<close> and \<^verbatim>\<open>src/kernel/interrupt/idt.c\<close>. \<open>Timer\<close>: \<^verbatim>\<open>src/kernel/timer/pit.c\<close> and
    the uptime display of \<^verbatim>\<open>main.c\<close>. \<open>Keyboard\<close>: \<^verbatim>\<open>src/drivers/keyboard.c\<close>, whose ring buffer interprets
    the locale \<open>bounded_queue\<close>.
  \<^item> \<open>Process\<close>: \<^verbatim>\<open>src/kernel/process.c\<close>, with the reachable states as an inductive relation.
    \<open>Filesystem\<close>: \<^verbatim>\<open>src/kernel/fs.c\<close>. \<open>Syscall\<close>: \<^verbatim>\<open>src/kernel/syscall.c\<close>.
  \<^item> \<open>ShellParse\<close>, \<open>Shell\<close>: \<^verbatim>\<open>src/shell/shell.c\<close>, the in-place parser against a reference tokenizer, the
    command table, the commands and the loop.
  \<^item> \<open>Firewall\<close>: \<^verbatim>\<open>src/security/firewall.c\<close> with the locale \<open>packet_filter\<close>, against
    a policy written over rules and flows without the code, for every sequence of its calls. \<open>Pci\<close>: \<^verbatim>\<open>include/kernel/io.h\<close>,
    \<^verbatim>\<open>src/kernel/pci.c\<close>, \<^verbatim>\<open>pcie.c\<close>. \<open>Network\<close>: \<^verbatim>\<open>src/kernel/net/network.c\<close> and \<^verbatim>\<open>src/drivers/network/rtl8139.c\<close>.
    \<open>Wifi\<close>: \<^verbatim>\<open>src/drivers/network/wifi.c\<close>, whose device never leaves the state DOWN in this kernel; the
    outcomes of a connection are stated for every state and driver all the same.
  \<^item> \<open>AuditLog\<close>, \<open>Acl\<close>, \<open>Crypto\<close>, \<open>Security\<close>: the files of these names under \<^verbatim>\<open>src/security\<close>. \<open>Aes\<close>, \<open>AesKey\<close>,
    \<open>AesVectors\<close>, \<open>AesCbc\<close>: \<^verbatim>\<open>src/security/aes.c\<close> against FIPS-197.
  \<^item> \<open>Boot\<close>: \<^verbatim>\<open>kernel_main\<close> as the composition of the others. \<open>Machine\<close>: interrupts of the timer and the
    keyboard on the started kernel, through \<^verbatim>\<open>irq_handler\<close> and the handlers of the components.

  \<^bold>\<open>What the lemmas show.\<close> Refinement: the terminal against a tape, the keyboard buffer against a
  queue, the audit log against the newest 1024 entries. Equivalence: the shell parser and a
  tokenizer, \<^verbatim>\<open>aes_init\<close> and the key schedule of FIPS-197, path resolution and a walk over names.
  Invariants: the process list under every sequence of scheduler calls, the well-formed console,
  the wireless state that no call raises, disjoint heap blocks. Round trips: frames, directory
  entries, access lists, ciphers, quoted arguments. Time and interrupts: what the timer
  programs and counts, which handler an interrupt reaches, what the started kernel has ready, and
  what any interleaving of ticks and key presses leaves.
  Negative results are stated as theorems too: the network card is never found, paging is switched on with no
  directory, the nodes that
  \<^verbatim>\<open>fs_create_node\<close> makes cannot be used, AES decryption is not the inverse, the settings the kernel
  is compiled with lead \<^verbatim>\<open>security_init\<close> into undefined calls.

  \<^bold>\<open>Parameters.\<close> What the repository only declares is an argument of the definitions that use it:
  the values of hardware ports (functions of the accesses made before), the clock as a sequence of
  ticks, the driver functions behind the pointers of the file system, the wireless and the network
  device (\<^verbatim>\<open>rtl8139_send\<close>, \<^verbatim>\<open>rtl8139_receive\<close>), \<^verbatim>\<open>keyboard_wait_keypress\<close> and the addresses of the
  assembly entry points. The contents of memory that \<^verbatim>\<open>kmalloc\<close> returns and nothing has written are
  arguments named \<open>junk\<close>. The witnesses instantiate them with concrete functions.

  \<^bold>\<open>Not modelled.\<close> The assembly files (boot sector, interrupt stubs, the switch to paging), the
  linker script and the Makefile; \<^verbatim>\<open>multiboot.h\<close>, whose structures no C file reads; \<^verbatim>\<open>compat.h\<close> and the
  headers of \<^verbatim>\<open>include/libc\<close>, which hold macros, type names and declarations. Saving and restoring
  registers in a context switch is the assembly's; the model has the switch of the current process.
  The repository does not link as it stands: functions are defined twice (\<^verbatim>\<open>init_idt\<close>'s tables,
  \<^verbatim>\<open>security_init\<close>, the two terminals) or nowhere, and the Makefile leaves files out that \<^verbatim>\<open>main.c\<close>
  calls; each definition is modelled by itself, in the theory of its file, and the composition in
  \<open>Boot\<close> takes the functions that the included headers mean.
\<close>

end
